(* ===== verification/Mosh_Prelude.thy ===== *)
theory Mosh_Prelude
  imports Main "HOL-Library.Word"
begin

text \<open>
  Shared vocabulary of the development.

  \<^item> Rust's integer types are words of their width; \<open>usize\<close> is \<open>nat\<close>, because the code only
    uses it for lengths and positions of buffers that exist in memory. A \<open>char\<close> is the number of
    its Unicode scalar value (\<open>scalar\<close>).
  \<^item> A method \<open>fn f(&mut self, ..) -> Result<T, E>\<close> is a function from the state to a pair: the
    result, a sum whose left side is the error, and the state the call leaves behind. The
    state is part of the error case too, because the code may have changed it before failing.
    \<open>and_then\<close> is the question mark operator on such pairs.
  \<^item> The checked, saturating and wrapping operations of Rust's integers, and the big-endian
    conversions \<open>to_be_bytes\<close> and \<open>from_be_bytes\<close>.

  The lemmas about them are collected in \<open>result_simps\<close> (the shape of results) and
  \<open>checked_arith\<close> (checked operations as facts on \<open>unat\<close>).
\<close>

unbundle bit_operations_syntax

section \<open>Types\<close>

type_synonym u8 = "8 word"
type_synonym u16 = "16 word"
type_synonym u32 = "32 word"
type_synonym u64 = "64 word"
type_synonym bytes = "u8 list"
type_synonym scalar = nat

type_synonym ('e, 'a, 's) outcome = "('e + 'a) \<times> 's"

named_theorems result_simps \<open>shape of results: what a success or an error of a composition means\<close>
named_theorems checked_arith \<open>checked integer operations, read on natural numbers\<close>

section \<open>Results\<close>

definition and_then :: "('e, 'a, 's) outcome \<Rightarrow> ('a \<Rightarrow> 's \<Rightarrow> ('e, 'b, 's) outcome) \<Rightarrow> ('e, 'b, 's) outcome"
  where "and_then r k = (case r of (Inl e, s) \<Rightarrow> (Inl e, s) | (Inr x, s) \<Rightarrow> k x s)"

definition is_ok :: "('e, 'a, 's) outcome \<Rightarrow> bool"
  where "is_ok r \<longleftrightarrow> (case fst r of Inl _ \<Rightarrow> False | Inr _ \<Rightarrow> True)"

text \<open>\<open>ok_or\<close> of Rust's \<open>Option\<close>.\<close>

definition ok_or :: "'e \<Rightarrow> 'a option \<Rightarrow> 'e + 'a"
  where "ok_or e v = (case v of None \<Rightarrow> Inl e | Some x \<Rightarrow> Inr x)"

section \<open>Integer operations of Rust\<close>

definition checked_add :: "'a::len word \<Rightarrow> 'a word \<Rightarrow> 'a word option"
  where "checked_add a b = (if unat a + unat b < 2 ^ LENGTH('a) then Some (a + b) else None)"

definition checked_sub :: "'a::len word \<Rightarrow> 'a word \<Rightarrow> 'a word option"
  where "checked_sub a b = (if b \<le> a then Some (a - b) else None)"

definition checked_mul :: "'a::len word \<Rightarrow> 'a word \<Rightarrow> 'a word option"
  where "checked_mul a b = (if unat a * unat b < 2 ^ LENGTH('a) then Some (a * b) else None)"

definition saturating_add :: "'a::len word \<Rightarrow> 'a word \<Rightarrow> 'a word"
  where "saturating_add a b = (case checked_add a b of None \<Rightarrow> - 1 | Some c \<Rightarrow> c)"

definition abs_diff :: "'a::len word \<Rightarrow> 'a word \<Rightarrow> 'a word"
  where "abs_diff a b = (if a \<le> b then b - a else a - b)"

definition div_ceil :: "'a::len word \<Rightarrow> 'a word \<Rightarrow> 'a word"
  where "div_ceil a b = (if a mod b = 0 then a div b else a div b + 1)"

definition clamp :: "'a::linorder \<Rightarrow> 'a \<Rightarrow> 'a \<Rightarrow> 'a"
  where "clamp lo hi x = (if x < lo then lo else if hi < x then hi else x)"

section \<open>Big-endian byte order\<close>

text \<open>\<open>to_be_bytes n w\<close> is the \<open>n\<close> low bytes of \<open>w\<close>, most significant first.\<close>

definition to_be_bytes :: "nat \<Rightarrow> 'a::len word \<Rightarrow> bytes"
  where "to_be_bytes n w = map (\<lambda>i. ucast (drop_bit (8 * i) w)) (rev [0..<n])"

fun from_be_bytes :: "bytes \<Rightarrow> 'a::len word"
  where
    "from_be_bytes [] = 0"
  | "from_be_bytes (b # bs) = push_bit (8 * length bs) (ucast b) OR from_be_bytes bs"

section \<open>Buffers\<close>

text \<open>\<open>slice i j buf\<close> is \<open>&buf[i..j]\<close> for indices in range, and \<open>copy_at i src buf\<close> the buffer after
  \<open>buf[i..i + src.len()].copy_from_slice(src)\<close>. Every use is guarded by a length check of the source.\<close>

definition slice :: "nat \<Rightarrow> nat \<Rightarrow> 'a list \<Rightarrow> 'a list"
  where "slice i j buf = take (j - i) (drop i buf)"

definition copy_at :: "nat \<Rightarrow> 'a list \<Rightarrow> 'a list \<Rightarrow> 'a list"
  where "copy_at i src buf = take i buf @ src @ drop (i + length src) buf"

section \<open>Repeated calls\<close>

text \<open>\<open>draw f n s\<close> calls \<open>f\<close> up to \<open>n\<close> times and stops at the first error; it returns the values
  obtained. \<open>run_all f s xs\<close> calls \<open>f\<close> on the elements of \<open>xs\<close> and stops at the first error.\<close>

fun draw :: "('s \<Rightarrow> ('e, 'a, 's) outcome) \<Rightarrow> nat \<Rightarrow> 's \<Rightarrow> 'a list \<times> 's"
  where
    "draw f 0 s = ([], s)"
  | "draw f (Suc n) s =
       (case f s of (Inl e, s') \<Rightarrow> ([], s')
        | (Inr x, s') \<Rightarrow> (let (xs, t) = draw f n s' in (x # xs, t)))"

fun run_all :: "('s \<Rightarrow> 'x \<Rightarrow> ('e, 'a, 's) outcome) \<Rightarrow> 's \<Rightarrow> 'x list \<Rightarrow> ('e, 'a list, 's) outcome"
  where
    "run_all f s [] = (Inr [], s)"
  | "run_all f s (x # xs) =
       and_then (f s x) (\<lambda>y s'. and_then (run_all f s' xs) (\<lambda>ys t. (Inr (y # ys), t)))"

section \<open>Lemmas on results\<close>

lemma and_then_Inl [simp, result_simps]: "and_then (Inl e, s) k = (Inl e, s)"
  by (simp add: and_then_def)

lemma and_then_Inr [simp, result_simps]: "and_then (Inr x, s) k = k x s"
  by (simp add: and_then_def)

lemma and_then_eq_Inr_iff [result_simps]:
  "and_then r k = (Inr y, s') \<longleftrightarrow> (\<exists>x s. r = (Inr x, s) \<and> k x s = (Inr y, s'))"
  by (auto simp: and_then_def split: prod.splits sum.splits)

lemma and_then_eq_Inl_iff [result_simps]:
  "and_then r k = (Inl e, s') \<longleftrightarrow>
     r = (Inl e, s') \<or> (\<exists>x s. r = (Inr x, s) \<and> k x s = (Inl e, s'))"
  by (auto simp: and_then_def split: prod.splits sum.splits)

text \<open>An invariant that holds after the first part and is kept by the continuation holds after
  the composition, whatever the outcome.\<close>

lemma snd_and_then:
  assumes "P (snd r)" and "\<And>x s. r = (Inr x, s) \<Longrightarrow> P s \<Longrightarrow> P (snd (k x s))"
  shows "P (snd (and_then r k))"
  using assms by (cases r; cases "fst r") (auto simp: and_then_def)

lemma is_ok_simps [simp]: "is_ok (Inr x, s)" "\<not> is_ok (Inl e, s)"
  by (simp_all add: is_ok_def)

lemma ok_or_simps [simp, result_simps]:
  "ok_or e None = Inl e" "ok_or e (Some x) = Inr x"
  "ok_or e v = Inr y \<longleftrightarrow> v = Some y"
  "ok_or e v = Inl f \<longleftrightarrow> v = None \<and> e = f"
  by (auto simp: ok_or_def split: option.splits)

section \<open>Lemmas on checked arithmetic\<close>

lemma checked_add_Some_iff [checked_arith]:
  "checked_add a b = Some c \<longleftrightarrow> unat a + unat b < 2 ^ LENGTH('a) \<and> c = a + b"
  for a b c :: "'a::len word"
  by (auto simp: checked_add_def)

lemma checked_add_None_iff [checked_arith]:
  "checked_add a b = None \<longleftrightarrow> 2 ^ LENGTH('a) \<le> unat a + unat b"
  for a b :: "'a::len word"
  by (auto simp: checked_add_def)

lemma unat_add_no_overflow:
  "unat a + unat b < 2 ^ LENGTH('a) \<Longrightarrow> unat (a + b) = unat a + unat b"
  for a b :: "'a::len word"
  by (simp add: unat_add_lem)

lemma checked_add_unat: "checked_add a b = Some c \<Longrightarrow> unat c = unat a + unat b"
  by (auto simp: checked_add_Some_iff unat_add_no_overflow)

lemma checked_sub_unat: "checked_sub a b = Some c \<Longrightarrow> unat c = unat a - unat b \<and> b \<le> a"
  by (auto simp: checked_sub_def unat_sub split: if_splits)

lemma checked_mul_unat: "checked_mul a b = Some c \<Longrightarrow> unat c = unat a * unat b"
  by (auto simp: checked_mul_def unat_mult_lem split: if_splits)

lemma checked_add_one_less:
  "checked_add a 1 = Some c \<Longrightarrow> a < c" for a c :: "'a::len word"
  by (drule checked_add_unat) (simp add: word_less_nat_alt)

lemma checked_add_one_less_iff:
  "checked_add a 1 = Some c \<Longrightarrow> x < c \<longleftrightarrow> x \<le> a" for a c x :: "'a::len word"
  by (drule checked_add_unat) (simp add: word_less_nat_alt word_le_nat_alt less_Suc_eq_le)

lemma checked_add_one_None_iff:
  "checked_add a 1 = None \<longleftrightarrow> a = - 1" for a :: "'a::len word"
proof -
  have "n \<le> Suc u \<longleftrightarrow> u = n - 1" if "u < n" for u n :: nat
    using that by arith
  from this [OF unsigned_less [of a]]
  have "checked_add a 1 = None \<longleftrightarrow> unat a = 2 ^ LENGTH('a) - 1"
    by (simp add: checked_add_None_iff)
  also have "\<dots> \<longleftrightarrow> unat a = unat (- 1 :: 'a word)" by (simp add: unsigned_minus_1_eq_mask mask_eq_exp_minus_1)
  finally show ?thesis by (simp add: word_unat_eq_iff)
qed

lemma unat_saturating_add:
  "unat (saturating_add a b) = min (unat a + unat b) (2 ^ LENGTH('a) - 1)"
  for a b :: "'a::len word"
  by (auto simp: saturating_add_def checked_add_def unat_add_no_overflow
      unsigned_minus_1_eq_mask mask_eq_exp_minus_1)

lemma unat_abs_diff:
  "unat (abs_diff a b) = (unat a - unat b) + (unat b - unat a)"
  by (auto simp: abs_diff_def unat_sub word_le_nat_alt)

lemma unat_div_ceil:
  assumes "0 < unat b"
  shows "unat (div_ceil a b) = (unat a + unat b - 1) div unat b"
proof (cases "a mod b = 0")
  case True
  then have "unat a mod unat b = 0"
    by (metis unat_0 unat_mod)
  then obtain q where "unat a = q * unat b" by (metis mod_0_imp_dvd dvd_div_mult_self)
  with True assms show ?thesis
    using div_mult_self1 [of "unat b" "unat b - 1" q]
    by (simp add: div_ceil_def unat_div add.commute)
next
  case False
  then have pos: "unat a mod unat b \<noteq> 0"
    by (metis unat_eq_zero unat_mod)
  have "unat (a div b) < unat a + 1" by (simp add: unat_div div_le_dividend le_imp_less_Suc)
  have lt: "unat a div unat b + 1 < 2 ^ LENGTH('a)"
  proof -
    have "unat b \<noteq> 1" using pos by auto
    with assms have "unat b \<ge> 2" by simp
    then have "unat a div unat b \<le> unat a div 2" by (simp add: div_le_mono2)
    moreover have "unat a < 2 ^ LENGTH('a)" by (rule unsigned_less)
    moreover have "unat a \<noteq> 0" using pos by (metis mod_0)
    ultimately show ?thesis by linarith
  qed
  then have "unat (a div b + 1) = unat a div unat b + 1"
    using unat_add_no_overflow [of "a div b" 1] by (simp add: unat_div)
  moreover have "(unat a + unat b - 1) div unat b = unat a div unat b + 1"
  proof -
    let ?q = "unat a div unat b" and ?r = "unat a mod unat b"
    have "?q * unat b + ?r = unat a" by (rule div_mult_mod_eq)
    moreover have "(?q + 1) * unat b = ?q * unat b + unat b" by simp
    ultimately have "unat a + unat b - 1 = (?r - 1) + (?q + 1) * unat b"
      using pos by linarith
    moreover have "(?r - 1) div unat b = 0" using assms by (simp add: less_imp_diff_less)
    ultimately show ?thesis
      using assms div_mult_self1 [of "unat b" "?r - 1" "?q + 1"] by (simp only:)
  qed
  ultimately show ?thesis using False by (simp add: div_ceil_def)
qed

lemma unat_ucast_widen:
  fixes x :: "'a::len word"
  assumes "LENGTH('a) \<le> LENGTH('b::len)"
  shows "unat (ucast x :: 'b word) = unat x"
proof -
  have "unat x < 2 ^ LENGTH('a)" by (rule unsigned_less)
  also have "(2::nat) ^ LENGTH('a) \<le> 2 ^ LENGTH('b)" using assms by (intro power_increasing) simp_all
  finally have "unat x < 2 ^ LENGTH('b)" .
  then show ?thesis by (simp add: unsigned_ucast_eq take_bit_nat_eq_self)
qed

lemma unat_ucast_narrow:
  fixes x :: "'a::len word"
  assumes "unat x < 2 ^ LENGTH('b::len)"
  shows "unat (ucast x :: 'b word) = unat x"
  using assms by (simp add: unsigned_ucast_eq take_bit_nat_eq_self)

lemma le_mask_iff_take_bit:
  fixes w :: "'a::len word"
  assumes "n < LENGTH('a)"
  shows "w \<le> mask n \<longleftrightarrow> take_bit n w = w"
proof -
  have "w \<le> mask n \<longleftrightarrow> uint w < 2 ^ n"
    using assms by (simp add: word_le_def uint_mask_eq min_def) (simp add: mask_eq_exp_minus_1 zle_diff1_eq)
  also have "\<dots> \<longleftrightarrow> take_bit n (uint w) = uint w"
    by (simp add: take_bit_int_eq_self_iff)
  finally show ?thesis by (simp add: word_uint_eq_iff unsigned_take_bit_eq)
qed

lemma clamp_bounds:
  "lo \<le> hi \<Longrightarrow> lo \<le> clamp lo hi x \<and> clamp lo hi x \<le> hi" for lo :: "'a::linorder"
  by (auto simp: clamp_def)

section \<open>Lemmas on buffers\<close>

lemma length_slice [simp]: "j \<le> length buf \<Longrightarrow> length (slice i j buf) = j - i"
  by (auto simp: slice_def)

lemma length_copy_at [simp]:
  "i + length src \<le> length buf \<Longrightarrow> length (copy_at i src buf) = length buf"
  by (simp add: copy_at_def)

lemma copy_at_append:
  "length p = i \<Longrightarrow> copy_at i src (p @ rest) = p @ src @ drop (length src) rest"
  by (simp add: copy_at_def)

lemma slice_copy_at_same:
  "i + length src \<le> length buf \<Longrightarrow> j = i + length src \<Longrightarrow> slice i j (copy_at i src buf) = src"
  by (simp add: slice_def copy_at_def)

lemma slice_copy_at_before:
  "k \<le> i \<Longrightarrow> i \<le> length buf \<Longrightarrow> slice j k (copy_at i src buf) = slice j k buf"
  by (auto simp: slice_def copy_at_def drop_take min_def)

lemma slice_copy_at_after:
  assumes "i + length src \<le> j" and "j \<le> length buf"
  shows "slice j k (copy_at i src buf) = slice j k buf"
proof -
  have "drop j (copy_at i src buf) = drop (j - (i + length src)) (drop (i + length src) buf)"
    using assms by (simp add: copy_at_def)
  also have "\<dots> = drop j buf" using assms by simp
  finally show ?thesis by (simp add: slice_def)
qed

lemma take_slice: "k \<le> length buf \<Longrightarrow> i \<le> k \<Longrightarrow> take k buf = take i buf @ slice i k buf"
  by (metis add_diff_inverse_nat not_less slice_def take_add)

section \<open>Lemmas on byte order\<close>

lemma length_to_be_bytes [simp]: "length (to_be_bytes n w) = n"
  by (simp add: to_be_bytes_def)

lemma to_be_bytes_Suc:
  "to_be_bytes (Suc n) w = ucast (drop_bit (8 * n) w) # to_be_bytes n w"
  by (simp add: to_be_bytes_def)

lemma to_be_bytes_0 [simp]: "to_be_bytes 0 w = []"
  by (simp add: to_be_bytes_def)

lemma from_to_be_bytes: "from_be_bytes (to_be_bytes n w) = take_bit (8 * n) w"
proof (induction n)
  case 0
  then show ?case by simp
next
  case (Suc n)
  show ?case
    by (rule bit_eqI) (auto simp: to_be_bytes_Suc Suc bit_simps)
qed

lemma from_to_be_bytes_id:
  "LENGTH('a) \<le> 8 * n \<Longrightarrow> from_be_bytes (to_be_bytes n w) = (w :: 'a::len word)"
  by (simp add: from_to_be_bytes take_bit_word_beyond_length_eq)

lemma bit_from_be_bytes_beyond:
  "8 * length bs \<le> k \<Longrightarrow> \<not> bit (from_be_bytes bs :: 'a::len word) k"
proof (induction bs)
  case (Cons b bs)
  then have "\<not> bit b (k - 8 * length bs)"
    using bit_imp_le_length [of b "k - 8 * length bs"] by auto
  with Cons show ?case by (auto simp: bit_simps)
qed simp

lemma to_be_bytes_push:
  "to_be_bytes n (push_bit (8 * n) x OR y) = to_be_bytes n y" for x y :: "'a::len word"
proof -
  have "ucast (drop_bit (8 * i) (push_bit (8 * n) x OR y)) = (ucast (drop_bit (8 * i) y) :: u8)"
    if "i < n" for i
    using that by (intro bit_eqI) (auto simp: bit_simps)
  then show ?thesis by (simp add: to_be_bytes_def)
qed

lemma to_from_be_bytes:
  "8 * length bs \<le> LENGTH('a) \<Longrightarrow> to_be_bytes (length bs) (from_be_bytes bs :: 'a::len word) = bs"
proof (induction bs)
  case Nil
  then show ?case by simp
next
  case (Cons b bs)
  have "ucast (drop_bit (8 * length bs) (from_be_bytes (b # bs) :: 'a word)) = b"
    using Cons.prems
    by (intro bit_eqI) (auto simp: bit_simps bit_from_be_bytes_beyond)
  with Cons show ?case
    by (simp add: to_be_bytes_Suc to_be_bytes_push)
qed

end
