(* ===== verification/Limits.thy ===== *)
theory Limits
  imports Mosh_Prelude
begin

text \<open>
  The numeric limits of \<open>src/limits.rs\<close>, under the source's names. They are abbreviations, so
  that arithmetic sees the numbers. Lengths (\<open>usize\<close>) are natural numbers, times in
  milliseconds are \<open>u64\<close>, terminal sizes are \<open>u32\<close>.
\<close>

section \<open>Sizes\<close>

abbreviation (input) MAX_BOOTSTRAP_BYTES :: nat where "MAX_BOOTSTRAP_BYTES \<equiv> 4 * 1024"
abbreviation (input) MAX_BOOTSTRAP_LINES :: nat where "MAX_BOOTSTRAP_LINES \<equiv> 64"
abbreviation (input) ENCODED_KEY_BYTES :: nat where "ENCODED_KEY_BYTES \<equiv> 22"
abbreviation (input) DECODED_KEY_BYTES :: nat where "DECODED_KEY_BYTES \<equiv> 16"
abbreviation (input) MAX_DATAGRAM_BYTES :: nat where "MAX_DATAGRAM_BYTES \<equiv> 2 * 1024"
abbreviation (input) MAX_FRAGMENT_BODY_BYTES :: nat where "MAX_FRAGMENT_BODY_BYTES \<equiv> 1400"
abbreviation (input) MAX_FRAGMENTS_PER_INSTRUCTION :: nat where "MAX_FRAGMENTS_PER_INSTRUCTION \<equiv> 749"
abbreviation (input) MAX_COMPRESSED_INSTRUCTION_BYTES :: nat where
  "MAX_COMPRESSED_INSTRUCTION_BYTES \<equiv> 1024 * 1024"
abbreviation (input) MAX_DECOMPRESSED_INSTRUCTION_BYTES :: nat where
  "MAX_DECOMPRESSED_INSTRUCTION_BYTES \<equiv> 2 * 1024 * 1024"
abbreviation (input) MAX_STATE_DIFFERENCE_BYTES :: nat where
  "MAX_STATE_DIFFERENCE_BYTES \<equiv> 2 * 1024 * 1024"
abbreviation (input) MAX_INPUT_COMMAND_BYTES :: nat where "MAX_INPUT_COMMAND_BYTES \<equiv> 64 * 1024"
abbreviation (input) MAX_CLIENT_OPERATIONS_AFTER_ACK :: nat where
  "MAX_CLIENT_OPERATIONS_AFTER_ACK \<equiv> 4096"
abbreviation (input) SESSION_COMMAND_QUEUE_CAPACITY :: nat where "SESSION_COMMAND_QUEUE_CAPACITY \<equiv> 64"
abbreviation (input) PENDING_OUTPUT_CHUNKS :: nat where "PENDING_OUTPUT_CHUNKS \<equiv> 1"
abbreviation (input) MAX_TERMINAL_ROWS :: u32 where "MAX_TERMINAL_ROWS \<equiv> 200"
abbreviation (input) MAX_TERMINAL_COLUMNS :: u32 where "MAX_TERMINAL_COLUMNS \<equiv> 500"
abbreviation (input) MAX_TERMINAL_VISIBLE_CELLS :: nat where "MAX_TERMINAL_VISIBLE_CELLS \<equiv> 100000"
abbreviation (input) MAX_UNICODE_SCALARS_PER_CELL :: nat where "MAX_UNICODE_SCALARS_PER_CELL \<equiv> 8"
abbreviation (input) MAX_TERMINAL_OPERATIONS_PER_DIFFERENCE :: nat where
  "MAX_TERMINAL_OPERATIONS_PER_DIFFERENCE \<equiv> 4096"
abbreviation (input) MAX_OUTPUT_CHUNK_BYTES :: nat where "MAX_OUTPUT_CHUNK_BYTES \<equiv> 2 * 1024 * 1024"
abbreviation (input) MAX_PENDING_PREDICTION_SCALARS :: nat where "MAX_PENDING_PREDICTION_SCALARS \<equiv> 32"
abbreviation (input) MAX_PENDING_PREDICTION_BYTES :: nat where "MAX_PENDING_PREDICTION_BYTES \<equiv> 32"
abbreviation (input) MAX_SENT_STATES_AFTER_ACK :: nat where "MAX_SENT_STATES_AFTER_ACK \<equiv> 32"
abbreviation (input) MAX_RECEIVED_REFERENCE_STATES :: nat where "MAX_RECEIVED_REFERENCE_STATES \<equiv> 32"

section \<open>Times in milliseconds\<close>

abbreviation (input) INCOMPLETE_INSTRUCTION_LIFETIME_MS :: u64 where
  "INCOMPLETE_INSTRUCTION_LIFETIME_MS \<equiv> 10000"
abbreviation (input) MAX_PREDICTION_AGE_MS :: u64 where "MAX_PREDICTION_AGE_MS \<equiv> 10000"
abbreviation (input) ADAPTIVE_PREDICTION_DISABLE_FRAME_MS :: u64 where
  "ADAPTIVE_PREDICTION_DISABLE_FRAME_MS \<equiv> 20"
abbreviation (input) ADAPTIVE_PREDICTION_ENABLE_FRAME_MS :: u64 where
  "ADAPTIVE_PREDICTION_ENABLE_FRAME_MS \<equiv> 30"
abbreviation (input) ADAPTIVE_PREDICTION_GLITCH_MS :: u64 where "ADAPTIVE_PREDICTION_GLITCH_MS \<equiv> 250"
abbreviation (input) MIN_RETRANSMISSION_TIMEOUT_MS :: u64 where "MIN_RETRANSMISSION_TIMEOUT_MS \<equiv> 50"
abbreviation (input) MAX_RETRANSMISSION_TIMEOUT_MS :: u64 where "MAX_RETRANSMISSION_TIMEOUT_MS \<equiv> 5000"
abbreviation (input) INITIAL_RETRANSMISSION_TIMEOUT_MS :: u64 where
  "INITIAL_RETRANSMISSION_TIMEOUT_MS \<equiv> 1000"
abbreviation (input) MAX_RTT_SAMPLE_MS :: u64 where "MAX_RTT_SAMPLE_MS \<equiv> 60000"
abbreviation (input) MIN_FRAME_INTERVAL_MS :: u64 where "MIN_FRAME_INTERVAL_MS \<equiv> 20"
abbreviation (input) MAX_FRAME_INTERVAL_MS :: u64 where "MAX_FRAME_INTERVAL_MS \<equiv> 250"
abbreviation (input) STATE_CHANGE_COLLECTION_MS :: u64 where "STATE_CHANGE_COLLECTION_MS \<equiv> 15"
abbreviation (input) MAX_ACKNOWLEDGEMENT_DELAY_MS :: u64 where "MAX_ACKNOWLEDGEMENT_DELAY_MS \<equiv> 100"
abbreviation (input) HEARTBEAT_INTERVAL_MS :: u64 where "HEARTBEAT_INTERVAL_MS \<equiv> 3000"
abbreviation (input) NO_RECENT_CONTACT_MS :: u64 where "NO_RECENT_CONTACT_MS \<equiv> 6500"
abbreviation (input) NO_RECENT_REPLY_MS :: u64 where "NO_RECENT_REPLY_MS \<equiv> 10000"
abbreviation (input) INITIAL_ATTACHMENT_TIMEOUT_MS :: u64 where "INITIAL_ATTACHMENT_TIMEOUT_MS \<equiv> 15000"
abbreviation (input) GRACEFUL_CLOSE_ACK_TIMEOUT_MS :: u64 where "GRACEFUL_CLOSE_ACK_TIMEOUT_MS \<equiv> 4000"
abbreviation (input) MAX_TIMESTAMP_REPLY_AGE_MS :: u64 where "MAX_TIMESTAMP_REPLY_AGE_MS \<equiv> 1000"

end
