(* ===== verification/Contracts.thy ===== *)
theory Contracts
  imports Mosh_Prelude
begin

text \<open>
  Contracts that several components share, as locales. Each is interpreted, in the theory of
  the component that provides it, on the model of the code:

  \<^item> \<open>ticket_source\<close>: a counter that hands out numbers and never hands one out twice
    (\<open>SendSequence::take\<close>, \<open>InstructionIdentifier::take\<close>);
  \<^item> \<open>monotone_clock\<close>: a component that remembers the last time it was shown and refuses to
    go back (\<open>observe_time\<close> of the reassembler, the datagram timing and the scheduler);
  \<^item> \<open>plan_commit\<close>: a plan made from a state carries the state's generation, and committing
    it moves the generation on, so a plan is used at most once
    (\<open>SynchronizationState::commit_send\<close>, \<open>commit_receive\<close>, \<open>SendScheduler::commit_send\<close>).
\<close>

section \<open>Sources of distinct numbers\<close>

locale ticket_source =
  fixes take_ticket :: "'s \<Rightarrow> ('e, u64, 's) outcome"
    and upcoming :: "'s \<Rightarrow> u64 option"
  assumes take_ok:
      "take_ticket s = (Inr n, s') \<Longrightarrow>
         upcoming s = Some n \<and> (case upcoming s' of None \<Rightarrow> True | Some m \<Rightarrow> n < m)"
    and take_err: "take_ticket s = (Inl e, s') \<Longrightarrow> upcoming s = None \<and> s' = s"
begin

text \<open>A bound from below on everything still to come.\<close>

lemma drawn_above:
  assumes "\<And>m. upcoming s = Some m \<Longrightarrow> b \<le> m"
  shows "\<forall>n \<in> set (fst (draw take_ticket k s)). b \<le> n"
  using assms
proof (induction k arbitrary: s b)
  case 0
  then show ?case by simp
next
  case (Suc k)
  show ?case
  proof (cases "take_ticket s")
    case (Pair r s')
    show ?thesis
    proof (cases r)
      case (Inl e)
      with Pair show ?thesis by simp
    next
      case (Inr n)
      with Pair have ok: "take_ticket s = (Inr n, s')" by simp
      have "b \<le> n" using Suc.prems take_ok [OF ok] by blast
      moreover have "\<forall>m \<in> set (fst (draw take_ticket k s')). b \<le> m"
        by (rule Suc.IH) (use take_ok [OF ok] \<open>b \<le> n\<close> in auto)
      ultimately show ?thesis by (simp add: ok split: prod.splits)
    qed
  qed
qed

lemma drawn_increasing: "sorted_wrt (<) (fst (draw take_ticket k s))"
proof (induction k arbitrary: s)
  case 0
  then show ?case by simp
next
  case (Suc k)
  show ?case
  proof (cases "take_ticket s")
    case (Pair r s')
    show ?thesis
    proof (cases r)
      case (Inl e)
      with Pair show ?thesis by simp
    next
      case (Inr n)
      with Pair have ok: "take_ticket s = (Inr n, s')" by simp
      have "n < m" if m: "m \<in> set (fst (draw take_ticket k s'))" for m
      proof (cases "upcoming s'")
        case None
        have "take_ticket s' \<noteq> (Inr x, t)" for x t
          using None take_ok by fastforce
        then have "fst (draw take_ticket k s') = []"
          by (cases k) (auto split: prod.splits sum.splits)
        with m show ?thesis by simp
      next
        case (Some c)
        have "n < c" using take_ok [OF ok] Some by simp
        moreover have "c \<le> m" using drawn_above [of s' c k] Some m by auto
        ultimately show ?thesis by simp
      qed
      with Suc.IH [of s'] ok show ?thesis by (auto split: prod.splits)
    qed
  qed
qed

lemma drawn_distinct: "distinct (fst (draw take_ticket k s))"
  using drawn_increasing [of k s] by (simp add: strict_sorted_iff)

end

section \<open>Clocks that only move forward\<close>

locale monotone_clock =
  fixes last_observed :: "'s \<Rightarrow> u64"
    and observe :: "'s \<Rightarrow> u64 \<Rightarrow> ('e, unit, 's) outcome"
    and backwards :: 'e
  assumes observe_back: "now < last_observed s \<Longrightarrow> observe s now = (Inl backwards, s)"
    and observe_forward:
      "last_observed s \<le> now \<Longrightarrow> \<exists>s'. observe s now = (Inr (), s') \<and> last_observed s' = now"
begin

lemma observe_ok_iff: "is_ok (observe s now) \<longleftrightarrow> last_observed s \<le> now"
proof (cases "last_observed s \<le> now")
  case True
  then show ?thesis using observe_forward [OF True] by auto
next
  case False
  then show ?thesis using observe_back by (simp add: not_le)
qed

lemma observe_okD: "observe s now = (Inr x, s') \<Longrightarrow> last_observed s \<le> now \<and> last_observed s' = now"
  using observe_ok_iff [of s now] observe_forward [of s now] by fastforce

text \<open>A sequence of observations succeeds exactly when the times never go back.\<close>

lemma observe_all_ok_iff: "is_ok (run_all observe s ts) \<longleftrightarrow> sorted (last_observed s # ts)"
proof (induction ts arbitrary: s)
  case Nil
  then show ?case by simp
next
  case (Cons t ts)
  show ?case
  proof (cases "last_observed s \<le> t")
    case True
    then obtain s' where s': "observe s t = (Inr (), s')" "last_observed s' = t"
      using observe_forward by blast
    have "is_ok (run_all observe s (t # ts)) \<longleftrightarrow> is_ok (run_all observe s' ts)"
      by (cases "run_all observe s' ts"; cases "fst (run_all observe s' ts)")
        (auto simp: s' and_then_def)
    also have "\<dots> \<longleftrightarrow> sorted (t # ts)" using Cons.IH [of s'] s' by simp
    finally show ?thesis using True by (auto intro: order_trans)
  next
    case False
    then show ?thesis by (simp add: observe_back not_le)
  qed
qed

end

section \<open>Plans that are committed at most once\<close>

locale plan_commit =
  fixes generation :: "'s \<Rightarrow> u64"
    and stamp :: "'p \<Rightarrow> u64"
    and commit :: "'s \<Rightarrow> 'p \<Rightarrow> ('e, 'r, 's) outcome"
    and evolves :: "'s \<Rightarrow> 's \<Rightarrow> bool"
  assumes commit_ok:
      "commit s p = (Inr r, s') \<Longrightarrow> stamp p = generation s \<and> generation s < generation s'"
    and evolves_mono: "evolves s t \<Longrightarrow> generation s \<le> generation t"
begin

lemma stale_plan_refused: "stamp p \<noteq> generation s \<Longrightarrow> \<not> is_ok (commit s p)"
  by (cases "commit s p"; cases "fst (commit s p)") (auto dest: commit_ok)

lemma generation_mono: "evolves\<^sup>*\<^sup>* s t \<Longrightarrow> generation s \<le> generation t"
  by (induction rule: rtranclp_induct) (auto dest: evolves_mono intro: order_trans)

lemma committed_once:
  assumes "commit s p = (Inr r, s')" and "evolves\<^sup>*\<^sup>* s' t"
  shows "\<not> is_ok (commit t p)"
proof (rule stale_plan_refused)
  have "stamp p < generation s'" using commit_ok [OF assms(1)] by simp
  also have "\<dots> \<le> generation t" by (rule generation_mono [OF assms(2)])
  finally show "stamp p \<noteq> generation t" by simp
qed

text \<open>A plan that some other generation change has overtaken is refused as well.\<close>

lemma overtaken_plan_refused:
  assumes "stamp p = generation s" and "generation s < generation t"
  shows "\<not> is_ok (commit t p)"
  using assms by (intro stale_plan_refused) simp

end

end
