(* ===== verification/Packet.thy ===== *)
theory Packet
  imports Limits Contracts
begin

text \<open>
  The authenticated datagram layer: \<open>src/crypto.rs\<close> and \<open>src/packet.rs\<close>.

  The AES-128-OCB3 primitive is third-party code (the crates \<open>aes\<close> and \<open>ocb3\<close>). It is the
  parameter \<open>aead\<close>: the two in-place operations the code calls, each from key, nonce,
  associated data and buffer to a result and the buffer it leaves behind. What the code relies
  on is the hypothesis \<open>aead_correct\<close>: encryption keeps the buffer's length and makes a tag of
  16 bytes, and decryption undoes it.

  Shown here: sealing and opening are inverse, the two directions and all sequence numbers
  have different nonces, the 64-bit replay window is exactly the abstract filter "not accepted
  before and not more than 63 behind the newest", and the send sequence never repeats.
\<close>

section \<open>Cryptographic boundary (crypto.rs)\<close>

record aead =
  encrypt_inout_detached :: "bytes \<Rightarrow> bytes \<Rightarrow> bytes \<Rightarrow> bytes \<Rightarrow> (unit, bytes, bytes) outcome"
  decrypt_inout_detached :: "bytes \<Rightarrow> bytes \<Rightarrow> bytes \<Rightarrow> bytes \<Rightarrow> bytes \<Rightarrow> (unit, unit, bytes) outcome"

type_synonym SessionKey = bytes

definition crypto_seal :: "aead \<Rightarrow> SessionKey \<Rightarrow> bytes \<Rightarrow> bytes \<Rightarrow> (unit, bytes, bytes) outcome"
  where "crypto_seal A key nonce buffer = encrypt_inout_detached A key nonce [] buffer"

definition crypto_open :: "aead \<Rightarrow> SessionKey \<Rightarrow> bytes \<Rightarrow> bytes \<Rightarrow> bytes \<Rightarrow> (unit, unit, bytes) outcome"
  where "crypto_open A key nonce buffer tag = decrypt_inout_detached A key nonce [] buffer tag"

text \<open>What the code relies on of the primitive.\<close>

definition aead_correct :: "aead \<Rightarrow> bool"
  where "aead_correct A \<longleftrightarrow>
    (\<forall>key nonce ad pt tag ct. encrypt_inout_detached A key nonce ad pt = (Inr tag, ct) \<longrightarrow>
       length tag = 16 \<and> length ct = length pt \<and>
       decrypt_inout_detached A key nonce ad ct tag = (Inr (), pt))"

section \<open>Packet codec (packet.rs)\<close>

abbreviation (input) PACKET_HEADER_BYTES :: nat where "PACKET_HEADER_BYTES \<equiv> 8"
abbreviation (input) PACKET_TAG_BYTES :: nat where "PACKET_TAG_BYTES \<equiv> 16"
abbreviation (input) OVERHEAD_BYTES :: nat where "OVERHEAD_BYTES \<equiv> PACKET_HEADER_BYTES + PACKET_TAG_BYTES"
abbreviation (input) MAX_PLAINTEXT_BYTES :: nat where "MAX_PLAINTEXT_BYTES \<equiv> MAX_DATAGRAM_BYTES - OVERHEAD_BYTES"
abbreviation (input) REPLAY_WINDOW_BITS :: u64 where "REPLAY_WINDOW_BITS \<equiv> 64"

definition MAX_SEQUENCE :: u64 where "MAX_SEQUENCE = push_bit 63 1 - 1"
definition DIRECTION_MASK :: u64 where "DIRECTION_MASK = push_bit 63 1"

datatype Direction = ClientToServer | ServerToClient

fun header_bit :: "Direction \<Rightarrow> u64"
  where
    "header_bit ClientToServer = 0"
  | "header_bit ServerToClient = DIRECTION_MASK"

datatype PacketError =
    DatagramTooShort
  | DatagramTooLarge
  | PlaintextTooLarge
  | OutputTooSmall
  | InvalidSequence
  | WrongDirection
  | AuthenticationFailed
  | Replay
  | TooOld
  | SequenceExhausted
  | UnexpectedSource

text \<open>The loop of \<open>nonce\<close>: the header goes to positions 4 to 11.\<close>

definition nonce :: "bytes \<Rightarrow> bytes"
  where "nonce header = fold (\<lambda>index n. n[index + 4 := header ! index]) [0..<PACKET_HEADER_BYTES] (replicate 12 0)"

definition packet_seal ::
    "aead \<Rightarrow> SessionKey \<Rightarrow> Direction \<Rightarrow> u64 \<Rightarrow> bytes \<Rightarrow> bytes \<Rightarrow> (PacketError, nat, bytes) outcome"
  where "packet_seal A key direction sequence plaintext output =
    (if sequence > MAX_SEQUENCE then (Inl InvalidSequence, output)
     else if length plaintext > MAX_PLAINTEXT_BYTES then (Inl PlaintextTooLarge, output)
     else let datagram_len = OVERHEAD_BYTES + length plaintext in
       if length output < datagram_len then (Inl PacketError.OutputTooSmall, output)
       else
         let header = header_bit direction OR sequence;
             header_bytes = to_be_bytes 8 header;
             output = copy_at 0 header_bytes output;
             body_end = PACKET_HEADER_BYTES + length plaintext;
             output = copy_at PACKET_HEADER_BYTES plaintext output
         in (case crypto_seal A key (nonce header_bytes) (slice PACKET_HEADER_BYTES body_end output) of
               (Inl _, body) \<Rightarrow> (Inl PlaintextTooLarge, copy_at PACKET_HEADER_BYTES body output)
             | (Inr tag, body) \<Rightarrow>
                 (Inr datagram_len, copy_at body_end tag (copy_at PACKET_HEADER_BYTES body output))))"

record OpenedPacket =
  op_sequence :: u64
  op_plaintext :: bytes

text \<open>\<open>PacketCodec::open\<close>. The state is the caller's datagram buffer: on success it holds the
  plaintext in place, after a failed authentication its body is zeroed.\<close>

definition packet_open :: "aead \<Rightarrow> SessionKey \<Rightarrow> Direction \<Rightarrow> bytes \<Rightarrow> (PacketError, OpenedPacket, bytes) outcome"
  where "packet_open A key expected_direction datagram =
    (if length datagram > MAX_DATAGRAM_BYTES then (Inl DatagramTooLarge, datagram)
     else if length datagram < OVERHEAD_BYTES then (Inl DatagramTooShort, datagram)
     else
       let header_bytes = slice 0 PACKET_HEADER_BYTES datagram;
           header = (from_be_bytes header_bytes :: u64)
       in if header AND DIRECTION_MASK \<noteq> header_bit expected_direction then (Inl WrongDirection, datagram)
          else
            let sequence = header AND MAX_SEQUENCE;
                body_end = length datagram - PACKET_TAG_BYTES;
                tag = slice body_end (length datagram) datagram;
                body = slice PACKET_HEADER_BYTES body_end datagram
            in (case crypto_open A key (nonce header_bytes) body tag of
                  (Inl _, plaintext) \<Rightarrow>
                    (Inl AuthenticationFailed,
                     copy_at PACKET_HEADER_BYTES (replicate (length body) 0) datagram)
                | (Inr _, plaintext) \<Rightarrow>
                    (Inr \<lparr>op_sequence = sequence, op_plaintext = plaintext\<rparr>,
                     copy_at PACKET_HEADER_BYTES plaintext datagram)))"

section \<open>Replay window\<close>

record ReplayWindow =
  rw_highest :: "u64 option"
  rw_seen :: u64

definition ReplayWindow_default :: ReplayWindow
  where "ReplayWindow_default = \<lparr>rw_highest = None, rw_seen = 0\<rparr>"

definition replay_accept :: "ReplayWindow \<Rightarrow> u64 \<Rightarrow> (PacketError, unit, ReplayWindow) outcome"
  where "replay_accept w sequence =
    (case rw_highest w of
       None \<Rightarrow> (Inr (), w\<lparr>rw_highest := Some sequence, rw_seen := 1\<rparr>)
     | Some highest \<Rightarrow>
         if sequence > highest then
           let shift = sequence - highest;
               seen = (if shift \<ge> REPLAY_WINDOW_BITS then 1
                       else push_bit (unat shift) (rw_seen w) OR 1)
           in (Inr (), w\<lparr>rw_seen := seen, rw_highest := Some sequence\<rparr>)
         else
           let distance = highest - sequence
           in if distance \<ge> REPLAY_WINDOW_BITS then (Inl TooOld, w)
              else let b = push_bit (unat distance) 1 in
                if rw_seen w AND b \<noteq> 0 then (Inl Replay, w)
                else (Inr (), w\<lparr>rw_seen := rw_seen w OR b\<rparr>))"

section \<open>Receiver and send sequence\<close>

record PacketReceiver =
  pr_key :: SessionKey
  pr_direction :: Direction
  pr_replay :: ReplayWindow

definition PacketReceiver_new :: "SessionKey \<Rightarrow> Direction \<Rightarrow> PacketReceiver"
  where "PacketReceiver_new key direction =
    \<lparr>pr_key = key, pr_direction = direction, pr_replay = ReplayWindow_default\<rparr>"

text \<open>The state is the receiver and the caller's buffer. A replayed plaintext is zeroed.\<close>

definition receiver_open ::
    "aead \<Rightarrow> PacketReceiver \<Rightarrow> bytes \<Rightarrow> (PacketError, OpenedPacket, PacketReceiver \<times> bytes) outcome"
  where "receiver_open A r datagram =
    (case packet_open A (pr_key r) (pr_direction r) datagram of
       (Inl e, buf) \<Rightarrow> (Inl e, (r, buf))
     | (Inr packet, buf) \<Rightarrow>
         (case replay_accept (pr_replay r) (op_sequence packet) of
            (Inl e, w) \<Rightarrow>
              (Inl e, (r\<lparr>pr_replay := w\<rparr>,
                copy_at PACKET_HEADER_BYTES (replicate (length (op_plaintext packet)) 0) buf))
          | (Inr _, w) \<Rightarrow> (Inr packet, (r\<lparr>pr_replay := w\<rparr>, buf))))"

record SocketAddrV4 =
  v4_ip :: u32
  v4_port :: u16

record SocketAddrV6 =
  v6_ip :: "128 word"
  v6_port :: u16
  v6_flowinfo :: u32
  v6_scope_id :: u32

datatype SocketAddr = V4 SocketAddrV4 | V6 SocketAddrV6

definition receiver_open_from ::
    "aead \<Rightarrow> PacketReceiver \<Rightarrow> SocketAddrV4 \<Rightarrow> SocketAddr \<Rightarrow> bytes \<Rightarrow>
     (PacketError, OpenedPacket, PacketReceiver \<times> bytes) outcome"
  where "receiver_open_from A r expected_source actual_source datagram =
    (if actual_source \<noteq> V4 expected_source then (Inl UnexpectedSource, (r, datagram))
     else receiver_open A r datagram)"

type_synonym SendSequence = "u64 option"

definition SendSequence_new :: SendSequence
  where "SendSequence_new = Some 0"

definition send_sequence_take :: "SendSequence \<Rightarrow> (PacketError, u64, SendSequence) outcome"
  where "send_sequence_take s =
    (case s of
       None \<Rightarrow> (Inl SequenceExhausted, s)
     | Some sequence \<Rightarrow>
         (Inr sequence,
          (case checked_add sequence 1 of
             None \<Rightarrow> None
           | Some next \<Rightarrow> if next \<le> MAX_SEQUENCE then Some next else None)))"

section \<open>Nonces\<close>

lemma nonce_eq:
  assumes "length header = 8" shows "nonce header = replicate 4 0 @ header"
proof -
  obtain a b c d e f g h where "header = [a, b, c, d, e, f, g, h]"
    using assms by (auto simp: length_Suc_conv eval_nat_numeral)
  then show ?thesis by (simp add: nonce_def upt_rec eval_nat_numeral)
qed

lemma to_be_bytes_inj:
  assumes "to_be_bytes 8 a = to_be_bytes 8 (b :: u64)" shows "a = b"
  using arg_cong [OF assms, of "from_be_bytes :: bytes \<Rightarrow> u64"] by (simp add: from_to_be_bytes_id)

lemma nonce_header_inj:
  "nonce (to_be_bytes 8 a) = nonce (to_be_bytes 8 (b :: u64)) \<longleftrightarrow> a = b"
  by (auto simp: nonce_eq dest: to_be_bytes_inj)

lemma MAX_SEQUENCE_eq_mask: "MAX_SEQUENCE = mask 63"
  by (simp add: MAX_SEQUENCE_def mask_eq_exp_minus_1 push_bit_eq_mult)

lemma bit_DIRECTION_MASK [simp]: "bit DIRECTION_MASK n \<longleftrightarrow> n = 63"
  unfolding DIRECTION_MASK_def by (subst bit_push_bit_iff) (auto simp: bit_1_iff)

lemma DIRECTION_MASK_neq_0 [simp]: "DIRECTION_MASK \<noteq> 0"
  by (simp add: DIRECTION_MASK_def)

lemma unat_MAX_SEQUENCE: "unat MAX_SEQUENCE = 2 ^ 63 - 1"
  by (simp add: MAX_SEQUENCE_def)

lemma le_MAX_SEQUENCE_iff: "s \<le> MAX_SEQUENCE \<longleftrightarrow> take_bit 63 s = s"
proof
  assume "s \<le> MAX_SEQUENCE"
  then have "unat s < 2 ^ 63" by (simp add: word_le_nat_alt unat_MAX_SEQUENCE)
  then have "take_bit 63 (unat s) = unat s" by (simp add: take_bit_nat_eq_self)
  then show "take_bit 63 s = s" by (metis unsigned_take_bit_eq word_unat_eq_iff)
next
  assume "take_bit 63 s = s"
  then have "unat s = take_bit 63 (unat s)" by (metis unsigned_take_bit_eq)
  then have "unat s < 2 ^ 63" by (metis take_bit_nat_less_exp)
  then show "s \<le> MAX_SEQUENCE" by (simp add: word_le_nat_alt unat_MAX_SEQUENCE)
qed

lemma header_direction:
  assumes "s \<le> MAX_SEQUENCE"
  shows "(header_bit d OR s) AND DIRECTION_MASK = header_bit d"
proof -
  have s: "take_bit 63 s = s" using assms by (simp only: le_MAX_SEQUENCE_iff)
  have nb: "\<not> bit s 63"
  proof
    assume "bit s 63"
    then have "bit (take_bit 63 s) 63" by (simp only: s)
    then show False by (simp add: bit_simps)
  qed
  show ?thesis
    by (cases d; rule bit_eqI) (auto simp: bit_simps nb)
qed

lemma header_sequence:
  assumes "s \<le> MAX_SEQUENCE"
  shows "(header_bit d OR s) AND MAX_SEQUENCE = s"
proof -
  have s: "take_bit 63 s = s" using assms by (simp only: le_MAX_SEQUENCE_iff)
  have "(header_bit d OR s) AND mask 63 = take_bit 63 s"
    by (cases d; rule bit_eqI) (auto simp: bit_simps)
  then show ?thesis by (simp only: MAX_SEQUENCE_eq_mask s)
qed

lemma header_inj:
  assumes "s \<le> MAX_SEQUENCE" and "t \<le> MAX_SEQUENCE"
    and eq: "header_bit d OR s = header_bit e OR t"
  shows "d = e \<and> s = t"
proof -
  have "header_bit d = header_bit e"
    using header_direction [OF assms(1), of d] header_direction [OF assms(2), of e] eq by simp
  then have "d = e" by (cases d; cases e) simp_all
  moreover have "s = t"
    using header_sequence [OF assms(1), of d] header_sequence [OF assms(2), of e] eq by simp
  ultimately show ?thesis by simp
qed

section \<open>Sealing and opening\<close>

lemma crypto_correct:
  assumes "aead_correct A" and "crypto_seal A key n pt = (Inr tag, ct)"
  shows "length tag = 16" "length ct = length pt" "crypto_open A key n ct tag = (Inr (), pt)"
  using assms by (auto simp: aead_correct_def crypto_seal_def crypto_open_def)

text \<open>What a successful \<open>seal\<close> leaves in the buffer.\<close>

lemma packet_seal_okD:
  assumes A: "aead_correct A"
    and ok: "packet_seal A key d sequence pt output = (Inr n, output')"
  obtains tag ct where
    "sequence \<le> MAX_SEQUENCE" "length pt \<le> MAX_PLAINTEXT_BYTES"
    "n = OVERHEAD_BYTES + length pt" "n \<le> length output" "length output' = length output"
    "crypto_seal A key (nonce (to_be_bytes 8 (header_bit d OR sequence))) pt = (Inr tag, ct)"
    "take n output' = to_be_bytes 8 (header_bit d OR sequence) @ ct @ tag"
proof -
  let ?hb = "to_be_bytes 8 (header_bit d OR sequence)"
  let ?out = "copy_at 8 pt (copy_at 0 ?hb output)"
  from ok have bounds: "sequence \<le> MAX_SEQUENCE" "length pt \<le> MAX_PLAINTEXT_BYTES"
      "OVERHEAD_BYTES + length pt \<le> length output"
    by (auto simp: packet_seal_def Let_def split: if_splits)
  have body: "slice 8 (8 + length pt) ?out = pt"
    using bounds by (simp add: slice_copy_at_same)
  from ok bounds obtain tag ct where
    seal: "crypto_seal A key (nonce ?hb) pt = (Inr tag, ct)" and n: "n = OVERHEAD_BYTES + length pt"
    and out': "output' = copy_at (8 + length pt) tag (copy_at 8 ct ?out)"
    by (auto simp: packet_seal_def Let_def body split: if_splits prod.splits sum.splits)
  note len = crypto_correct(1,2) [OF A seal]
  have t: "take n output' = ?hb @ ct @ tag"
    using bounds len by (simp add: out' n copy_at_def)
  show ?thesis
    by (rule that [OF bounds(1,2) n _ _ seal t]) (use bounds len n out' in auto)
qed

lemma packet_seal_open:
  assumes A: "aead_correct A"
    and ok: "packet_seal A key d sequence pt output = (Inr n, output')"
  shows "fst (packet_open A key d (take n output')) = Inr \<lparr>op_sequence = sequence, op_plaintext = pt\<rparr>"
proof -
  obtain tag ct where f: "sequence \<le> MAX_SEQUENCE" "length pt \<le> MAX_PLAINTEXT_BYTES"
    "n = OVERHEAD_BYTES + length pt"
    "crypto_seal A key (nonce (to_be_bytes 8 (header_bit d OR sequence))) pt = (Inr tag, ct)"
    "take n output' = to_be_bytes 8 (header_bit d OR sequence) @ ct @ tag"
    by (rule packet_seal_okD [OF A ok])
  let ?h = "header_bit d OR sequence"
  note c = crypto_correct [OF A f(4)]
  have s: "slice 0 8 (take n output') = to_be_bytes 8 ?h"
          "slice 8 (8 + length pt) (take n output') = ct"
          "slice (8 + length pt) (24 + length pt) (take n output') = tag"
    using c(1,2) by (simp_all add: f(5) slice_def)
  have len: "length (take n output') = 24 + length pt" using c(1,2) by (simp add: f(5))
  have hd: "from_be_bytes (to_be_bytes 8 ?h) = ?h" by (simp add: from_to_be_bytes_id)
  show ?thesis
    unfolding packet_open_def Let_def len
    using f(2) c(3) by (simp add: s hd header_direction [OF f(1)] header_sequence [OF f(1)])
qed

lemma packet_open_ok_bounds:
  assumes "packet_open A key d datagram = (Inr p, buf)"
  shows "op_sequence p \<le> MAX_SEQUENCE"
    and "OVERHEAD_BYTES \<le> length datagram" and "length datagram \<le> MAX_DATAGRAM_BYTES"
  using assms
  by (auto simp: packet_open_def Let_def word_and_le1 split: if_splits prod.splits sum.splits)

section \<open>The replay window as an abstract filter\<close>

text \<open>The abstract filter works on the set of all sequence numbers accepted so far.\<close>

definition replay_spec :: "u64 set \<Rightarrow> u64 \<Rightarrow> PacketError option"
  where "replay_spec accepted s =
    (if accepted = {} then None
     else if unat s + 64 \<le> unat (Max accepted) then Some TooOld
     else if s \<in> accepted then Some Replay
     else None)"

definition replay_inv :: "ReplayWindow \<Rightarrow> u64 set \<Rightarrow> bool"
  where "replay_inv w accepted \<longleftrightarrow>
    (case rw_highest w of
       None \<Rightarrow> accepted = {}
     | Some h \<Rightarrow> h \<in> accepted \<and> (\<forall>a \<in> accepted. a \<le> h) \<and>
         (\<forall>d < 64. bit (rw_seen w) d \<longleftrightarrow> (\<exists>a \<in> accepted. unat a + d = unat h)))"

fun replay_accepted :: "ReplayWindow \<Rightarrow> u64 list \<Rightarrow> u64 list"
  where
    "replay_accepted w [] = []"
  | "replay_accepted w (s # ss) =
       (case replay_accept w s of
          (Inl _, w') \<Rightarrow> replay_accepted w' ss
        | (Inr _, w') \<Rightarrow> s # replay_accepted w' ss)"

lemma replay_inv_default: "replay_inv ReplayWindow_default {}"
  by (simp add: replay_inv_def ReplayWindow_default_def)

lemma Max_replay: "h \<in> accepted \<Longrightarrow> \<forall>a \<in> accepted. a \<le> h \<Longrightarrow> Max accepted = h" for h :: u64
  by (intro Max_eqI) auto

lemma replay_advance:
  assumes inv: "replay_inv w accepted" and h: "rw_highest w = Some h" and "h < s"
  shows "\<exists>w'. replay_accept w s = (Inr (), w') \<and> replay_inv w' (insert s accepted) \<and>
           s \<notin> accepted \<and> replay_spec accepted s = None"
proof -
  define k where "k = unat (s - h)"
  have k: "unat s = unat h + k" "0 < k"
    using \<open>h < s\<close> by (simp_all add: k_def unat_sub word_less_nat_alt word_le_nat_alt)
  from inv h have mem: "h \<in> accepted" and le: "\<forall>a \<in> accepted. a \<le> h"
    and seen: "\<And>d. d < 64 \<Longrightarrow> bit (rw_seen w) d \<longleftrightarrow> (\<exists>a \<in> accepted. unat a + d = unat h)"
    by (auto simp: replay_inv_def)
  have new: "s \<notin> accepted" using le \<open>h < s\<close> by auto
  have small: "unat a \<le> unat h" if "a \<in> accepted" for a
    using le that by (simp add: word_le_nat_alt)
  define sn where "sn = (if s - h \<ge> 64 then 1 else push_bit k (rw_seen w) OR 1)"
  have ge: "s - h \<ge> 64 \<longleftrightarrow> k \<ge> 64" by (simp add: k_def word_le_nat_alt)
  have bits: "bit sn d \<longleftrightarrow> (\<exists>a \<in> insert s accepted. unat a + d = unat s)" if "d < 64" for d
  proof -
    have "bit sn d \<longleftrightarrow> d = 0 \<or> (k \<le> d \<and> bit (rw_seen w) (d - k))"
      using that by (auto simp: sn_def ge bit_simps)
    also have "\<dots> \<longleftrightarrow> d = 0 \<or> (k \<le> d \<and> (\<exists>a \<in> accepted. unat a + (d - k) = unat h))"
      using seen [of "d - k"] that by auto
    also have "\<dots> \<longleftrightarrow> (\<exists>a \<in> insert s accepted. unat a + d = unat s)"
      using k small by (auto intro!: exI) force+
    finally show ?thesis .
  qed
  have "replay_accept w s = (Inr (), w\<lparr>rw_seen := sn, rw_highest := Some s\<rparr>)"
    using h \<open>h < s\<close> by (simp add: replay_accept_def sn_def k_def)
  moreover have "replay_inv (w\<lparr>rw_seen := sn, rw_highest := Some s\<rparr>) (insert s accepted)"
    using le \<open>h < s\<close> bits by (auto simp: replay_inv_def intro: order.trans less_imp_le)
  moreover have "replay_spec accepted s = None"
    using mem new k by (simp add: replay_spec_def Max_replay [OF mem le])
  ultimately show ?thesis using new by blast
qed

lemma replay_behind:
  assumes inv: "replay_inv w accepted" and h: "rw_highest w = Some h" and "s \<le> h"
  shows "case replay_accept w s of
           (Inl e, w') \<Rightarrow> replay_spec accepted s = Some e \<and> w' = w
         | (Inr _, w') \<Rightarrow> replay_spec accepted s = None \<and> s \<notin> accepted \<and>
             replay_inv w' (insert s accepted)"
proof -
  define d where "d = unat (h - s)"
  have d: "unat h = unat s + d"
    using \<open>s \<le> h\<close> by (simp add: d_def unat_sub word_le_nat_alt)
  from inv h have mem: "h \<in> accepted" and le: "\<forall>a \<in> accepted. a \<le> h"
    and seen: "\<And>d. d < 64 \<Longrightarrow> bit (rw_seen w) d \<longleftrightarrow> (\<exists>a \<in> accepted. unat a + d = unat h)"
    by (auto simp: replay_inv_def)
  have ge: "h - s \<ge> 64 \<longleftrightarrow> d \<ge> 64" by (simp add: d_def word_le_nat_alt)
  note Max = Max_replay [OF mem le]
  show ?thesis
  proof (cases "d \<ge> 64")
    case True
    then show ?thesis
      using h \<open>s \<le> h\<close> mem d by (auto simp: replay_accept_def Let_def ge replay_spec_def Max not_less)
  next
    case False
    have hit: "bit (rw_seen w) d \<longleftrightarrow> s \<in> accepted"
      using seen [of d] False d by (auto simp flip: word_unat_eq_iff)
    let ?w = "w\<lparr>rw_seen := rw_seen w OR push_bit d 1\<rparr>"
    have res: "replay_accept w s = (if s \<in> accepted then (Inl Replay, w) else (Inr (), ?w))"
      using h leD [OF \<open>s \<le> h\<close>] False
      by (simp add: replay_accept_def Let_def ge hit and_exp_eq_0_iff_not_bit flip: d_def)
    have spec: "replay_spec accepted s = (if s \<in> accepted then Some Replay else None)"
      using mem d False by (auto simp: replay_spec_def Max)
    have "bit (rw_seen w OR push_bit d 1) e \<longleftrightarrow> (\<exists>a \<in> insert s accepted. unat a + e = unat h)"
      if "e < 64" for e
      using seen [OF that] that d by (auto simp: bit_simps)
    then have "replay_inv ?w (insert s accepted)"
      using h mem le \<open>s \<le> h\<close> by (auto simp: replay_inv_def)
    then show ?thesis by (simp add: res spec)
  qed
qed

lemma replay_step:
  assumes "replay_inv w accepted"
  shows "case replay_accept w s of
           (Inl e, w') \<Rightarrow> replay_spec accepted s = Some e \<and> w' = w
         | (Inr _, w') \<Rightarrow> replay_spec accepted s = None \<and> s \<notin> accepted \<and>
             replay_inv w' (insert s accepted)"
proof (cases "rw_highest w")
  case None
  have "bit (1 :: u64) d \<longleftrightarrow> d = 0" for d by (simp add: bit_1_iff)
  with None assms show ?thesis
    by (auto simp: replay_accept_def replay_inv_def replay_spec_def)
next
  case (Some h)
  show ?thesis
  proof (cases "h < s")
    case True
    then show ?thesis using replay_advance [OF assms Some True] by auto
  next
    case False
    then show ?thesis using replay_behind [OF assms Some] by (simp add: not_less)
  qed
qed

lemma replay_accepted_fresh:
  "replay_inv w accepted \<Longrightarrow> set (replay_accepted w ss) \<inter> accepted = {} \<and> distinct (replay_accepted w ss)"
proof (induction ss arbitrary: w accepted)
  case Nil
  then show ?case by simp
next
  case (Cons s ss)
  show ?case
  proof (cases "replay_accept w s")
    case (Pair r w')
    show ?thesis
    proof (cases r)
      case (Inl e)
      with Pair replay_step [OF Cons.prems, of s] have "w' = w" by simp
      with Inl Pair Cons show ?thesis by simp
    next
      case (Inr u)
      with Pair replay_step [OF Cons.prems, of s]
      have s: "s \<notin> accepted" and inv: "replay_inv w' (insert s accepted)" by simp_all
      from Cons.IH [OF inv] s Inr Pair show ?thesis by auto
    qed
  qed
qed

section \<open>The send sequence as a source of distinct numbers\<close>

interpretation send_tickets: ticket_source send_sequence_take "\<lambda>s. s"
proof unfold_locales
  fix s n s'
  assume "send_sequence_take s = (Inr n, s')"
  then show "s = Some n \<and> (case s' of None \<Rightarrow> True | Some m \<Rightarrow> n < m)"
    by (auto simp: send_sequence_take_def split: option.splits if_splits
        dest: checked_add_one_less)
next
  fix s e s'
  assume "send_sequence_take s = (Inl e, s')"
  then show "s = None \<and> s' = s"
    by (auto simp: send_sequence_take_def split: option.splits)
qed

lemma send_sequence_bound:
  assumes "\<And>n. s = Some n \<Longrightarrow> n \<le> MAX_SEQUENCE"
  shows "\<forall>n \<in> set (fst (draw send_sequence_take k s)). n \<le> MAX_SEQUENCE"
  using assms
proof (induction k arbitrary: s)
  case 0
  then show ?case by simp
next
  case (Suc k)
  show ?case
  proof (cases s)
    case None
    then show ?thesis by (simp add: send_sequence_take_def)
  next
    case (Some n)
    then obtain s' where s': "send_sequence_take s = (Inr n, s')"
      by (simp add: send_sequence_take_def)
    have "\<forall>m \<in> set (fst (draw send_sequence_take k s')). m \<le> MAX_SEQUENCE"
      by (rule Suc.IH) (use s' Some in \<open>auto simp: send_sequence_take_def split: option.splits if_splits\<close>)
    with Suc.prems Some s' show ?thesis
      by (auto split: prod.splits)
  qed
qed

section \<open>Properties\<close>

text \<open>C3: Sealing and opening are inverse. Whatever buffer \<open>PacketCodec::seal\<close> writes into, the
  datagram it reports, opened with the same key for the same direction, gives back exactly the
  sequence number and the plaintext.\<close>

theorem packet_seal_open_roundtrip:
  assumes "aead_correct A"
    and "packet_seal A key d sequence pt output = (Inr n, output')"
  shows "fst (packet_open A key d (take n output')) = Inr \<lparr>op_sequence = sequence, op_plaintext = pt\<rparr>"
  by (rule packet_seal_open [OF assms])

text \<open>A concrete stand-in for the cipher, used by the witnesses only: it adds the last nonce byte
  to every byte and uses the nonce as part of the tag.\<close>

definition demo_aead :: aead
  where "demo_aead = \<lparr>
    encrypt_inout_detached = (\<lambda>key nonce ad pt. (Inr (take 16 (nonce @ replicate 16 0)), map (\<lambda>b. b + last nonce) pt)),
    decrypt_inout_detached = (\<lambda>key nonce ad ct tag.
      if tag = take 16 (nonce @ replicate 16 0) then (Inr (), map (\<lambda>b. b - last nonce) ct) else (Inl (), ct))\<rparr>"

lemma demo_aead_correct: "aead_correct demo_aead"
  by (auto simp: aead_correct_def demo_aead_def comp_def)

theorem packet_seal_open_roundtrip_witness:
  "\<exists>output'. packet_seal demo_aead [] ClientToServer 5 [7, 8] (replicate 30 0) = (Inr 26, output') \<and>
     fst (packet_open demo_aead [] ClientToServer (take 26 output')) =
       Inr \<lparr>op_sequence = 5, op_plaintext = [7, 8]\<rparr>"
proof -
  let ?r = "packet_seal demo_aead [] ClientToServer 5 [7, 8] (replicate 30 0)"
  have le: "(5 :: u64) \<le> MAX_SEQUENCE" by (simp add: MAX_SEQUENCE_def)
  have r: "?r = (Inr 26, snd ?r)"
    using le by (simp add: packet_seal_def crypto_seal_def demo_aead_def Let_def not_less)
  from packet_seal_open_roundtrip [OF demo_aead_correct r] r show ?thesis by blast
qed

text \<open>C5: The replay window implements the abstract filter. \<open>ReplayWindow::accept\<close>, a 64-bit shift
  register, accepts a sequence number exactly when the set of numbers accepted before does not
  contain it and it is at most 63 behind the newest; it answers \<open>Replay\<close> and \<open>TooOld\<close> in exactly
  the other cases and then leaves its state alone.\<close>

theorem replay_window_refines_set_filter:
  assumes "replay_inv w accepted"
  shows "case replay_accept w s of
           (Inl e, w') \<Rightarrow> replay_spec accepted s = Some e \<and> w' = w
         | (Inr _, w') \<Rightarrow> replay_spec accepted s = None \<and> s \<notin> accepted \<and>
             replay_inv w' (insert s accepted)"
  by (rule replay_step [OF assms])

theorem replay_window_refines_set_filter_witness:
  "replay_inv ReplayWindow_default {} \<and> replay_accept ReplayWindow_default 9 = (Inr (), \<lparr>rw_highest = Some 9, rw_seen = 1\<rparr>) \<and>
   replay_spec {} 9 = None \<and> replay_inv \<lparr>rw_highest = Some 9, rw_seen = 1\<rparr> {9}"
proof -
  have r: "replay_accept ReplayWindow_default 9 = (Inr (), \<lparr>rw_highest = Some 9, rw_seen = 1\<rparr>)"
    by (simp add: replay_accept_def ReplayWindow_default_def)
  show ?thesis
    using replay_window_refines_set_filter [OF replay_inv_default, of 9] replay_inv_default
    by (simp add: r)
qed

text \<open>No datagram is accepted twice. For every sequence of arrivals, in any order and with any
  repetitions, the sequence numbers that pass the window are pairwise different.\<close>

theorem replay_never_accepts_twice: "distinct (replay_accepted ReplayWindow_default ss)"
  using replay_accepted_fresh [OF replay_inv_default] by blast

text \<open>C11: Nonces are never reused. Two datagrams sealed for valid sequence numbers have the same
  nonce only if they have the same direction and the same sequence number; and the numbers that
  \<open>SendSequence::take\<close> hands out from the start of a session are valid and pairwise different.\<close>

theorem nonces_unique:
  "(\<forall>d e s t. s \<le> MAX_SEQUENCE \<and> t \<le> MAX_SEQUENCE \<and>
      nonce (to_be_bytes 8 (header_bit d OR s)) = nonce (to_be_bytes 8 (header_bit e OR t)) \<longrightarrow>
      d = e \<and> s = t) \<and>
   distinct (fst (draw send_sequence_take k SendSequence_new)) \<and>
   (\<forall>n \<in> set (fst (draw send_sequence_take k SendSequence_new)). n \<le> MAX_SEQUENCE)"
proof (intro conjI)
  show "\<forall>d e s t. s \<le> MAX_SEQUENCE \<and> t \<le> MAX_SEQUENCE \<and>
      nonce (to_be_bytes 8 (header_bit d OR s)) = nonce (to_be_bytes 8 (header_bit e OR t)) \<longrightarrow>
      d = e \<and> s = t"
    by (auto simp: nonce_header_inj dest: header_inj)
  show "distinct (fst (draw send_sequence_take k SendSequence_new))"
    by (rule send_tickets.drawn_distinct)
  show "\<forall>n \<in> set (fst (draw send_sequence_take k SendSequence_new)). n \<le> MAX_SEQUENCE"
    by (rule send_sequence_bound) (simp add: SendSequence_new_def MAX_SEQUENCE_def)
qed

theorem nonces_unique_witness:
  "(7 :: u64) \<le> MAX_SEQUENCE \<and>
   nonce (to_be_bytes 8 (header_bit ClientToServer OR 7)) \<noteq> nonce (to_be_bytes 8 (header_bit ServerToClient OR 7)) \<and>
   fst (draw send_sequence_take 3 SendSequence_new) = [0, 1, 2] \<and> distinct [0, 1, 2 :: u64]"
proof -
  have le: "(7 :: u64) \<le> MAX_SEQUENCE" by (simp add: MAX_SEQUENCE_def)
  have d: "fst (draw send_sequence_take 3 SendSequence_new) = [0, 1, 2]"
    by (simp add: numeral_3_eq_3 send_sequence_take_def SendSequence_new_def checked_add_def
        MAX_SEQUENCE_def)
  have "ClientToServer \<noteq> ServerToClient" by simp
  with le show ?thesis using nonces_unique [of 3] unfolding d by blast
qed

end
