(* ===== verification/Ordered_Map.thy ===== *)
theory Ordered_Map
  imports Mosh_Prelude
begin

text \<open>
  Rust's \<open>BTreeMap\<close>, which the code uses for stored fragments, client checkpoints and
  terminal states. The model is a list of entries in strictly increasing key order, so that
  iteration (\<open>keys\<close>, \<open>into_values\<close>), \<open>last_key_value\<close> and \<open>len\<close> compute. The operations satisfy the
  interface \<open>ordered_map\<close>; the clients use only its laws.
\<close>

section \<open>The map\<close>

type_synonym ('k, 'v) btree = "('k \<times> 'v) list"

definition bt_empty :: "('k, 'v) btree"
  where "bt_empty = []"

definition bt_get :: "('k, 'v) btree \<Rightarrow> 'k \<Rightarrow> 'v option"
  where "bt_get m k = map_of m k"

fun bt_insert :: "'k::linorder \<Rightarrow> 'v \<Rightarrow> ('k, 'v) btree \<Rightarrow> ('k, 'v) btree"
  where
    "bt_insert k v [] = [(k, v)]"
  | "bt_insert k v (e # m) =
       (if fst e < k then e # bt_insert k v m
        else if fst e = k then (k, v) # m
        else (k, v) # e # m)"

definition bt_remove :: "'k \<Rightarrow> ('k, 'v) btree \<Rightarrow> ('k, 'v) btree"
  where "bt_remove k m = filter (\<lambda>e. fst e \<noteq> k) m"

definition bt_retain :: "('k \<Rightarrow> bool) \<Rightarrow> ('k, 'v) btree \<Rightarrow> ('k, 'v) btree"
  where "bt_retain P m = filter (\<lambda>e. P (fst e)) m"

definition bt_keys :: "('k, 'v) btree \<Rightarrow> 'k list"
  where "bt_keys m = map fst m"

definition bt_values :: "('k, 'v) btree \<Rightarrow> 'v list"
  where "bt_values m = map snd m"

definition bt_last_key_value :: "('k, 'v) btree \<Rightarrow> ('k \<times> 'v) option"
  where "bt_last_key_value m = (if m = [] then None else Some (last m))"

definition bt_inv :: "('k::linorder, 'v) btree \<Rightarrow> bool"
  where "bt_inv m \<longleftrightarrow> sorted_wrt (<) (map fst m)"

section \<open>The interface\<close>

locale ordered_map =
  fixes get :: "'m \<Rightarrow> 'k::linorder \<Rightarrow> 'v option"
    and put :: "'k \<Rightarrow> 'v \<Rightarrow> 'm \<Rightarrow> 'm"
    and del :: "'k \<Rightarrow> 'm \<Rightarrow> 'm"
    and keep :: "('k \<Rightarrow> bool) \<Rightarrow> 'm \<Rightarrow> 'm"
    and keys :: "'m \<Rightarrow> 'k list"
    and vals :: "'m \<Rightarrow> 'v list"
    and wf :: "'m \<Rightarrow> bool"
  assumes get_put: "wf m \<Longrightarrow> get (put k v m) a = (if a = k then Some v else get m a)"
    and get_del: "wf m \<Longrightarrow> get (del k m) a = (if a = k then None else get m a)"
    and get_keep: "wf m \<Longrightarrow> get (keep P m) a = (if P a then get m a else None)"
    and wf_put: "wf m \<Longrightarrow> wf (put k v m)"
    and wf_del: "wf m \<Longrightarrow> wf (del k m)"
    and wf_keep: "wf m \<Longrightarrow> wf (keep P m)"
    and keys_increasing: "wf m \<Longrightarrow> sorted_wrt (<) (keys m)"
    and mem_keys: "wf m \<Longrightarrow> k \<in> set (keys m) \<longleftrightarrow> get m k \<noteq> None"
    and vals_eq: "wf m \<Longrightarrow> vals m = map (\<lambda>k. the (get m k)) (keys m)"
begin

lemma set_keys: "wf m \<Longrightarrow> set (keys m) = dom (get m)"
  by (auto simp: mem_keys)

lemma set_keys_put: "wf m \<Longrightarrow> set (keys (put k v m)) = insert k (set (keys m))"
  by (auto simp: mem_keys wf_put get_put split: if_splits)

lemma set_keys_del: "wf m \<Longrightarrow> set (keys (del k m)) = set (keys m) - {k}"
  by (auto simp: mem_keys wf_del get_del split: if_splits)

lemma set_keys_keep: "wf m \<Longrightarrow> set (keys (keep P m)) = {k \<in> set (keys m). P k}"
  by (auto simp: mem_keys wf_keep get_keep split: if_splits)

text \<open>The keys come out in order: as a list they are determined by the set of keys.\<close>

lemma keys_eqI:
  assumes "wf m" and "sorted_wrt (<) ks" and "set ks = dom (get m)"
  shows "keys m = ks"
  using assms keys_increasing set_keys
  by (metis strict_sorted_equal)

lemma length_keys: "wf m \<Longrightarrow> length (keys m) = card (dom (get m))"
  using keys_increasing [of m] set_keys [of m]
  by (metis distinct_card strict_sorted_iff)

end

section \<open>The model satisfies the interface\<close>

lemma bt_get_insert: "bt_inv m \<Longrightarrow> bt_get (bt_insert k v m) a = (if a = k then Some v else bt_get m a)"
  by (induction m) (auto simp: bt_inv_def bt_get_def)

lemma fst_bt_insert: "set (map fst (bt_insert k v m)) = insert k (set (map fst m))"
  by (induction m) auto

lemma bt_inv_insert: "bt_inv m \<Longrightarrow> bt_inv (bt_insert k v m)"
proof (induction m)
  case Nil
  then show ?case by (simp add: bt_inv_def)
next
  case (Cons e m)
  then have "bt_inv (bt_insert k v m)" by (simp add: bt_inv_def)
  with Cons.prems show ?case
    using fst_bt_insert [of k v m] by (auto simp: bt_inv_def not_less order_less_le)
qed

lemma bt_inv_filter: "bt_inv m \<Longrightarrow> bt_inv (filter Q m)"
  by (induction m) (auto simp: bt_inv_def)

lemma bt_get_filter: "bt_get (filter (\<lambda>e. P (fst e)) m) a = (if P a then bt_get m a else None)"
  by (induction m) (auto simp: bt_get_def)

lemma bt_get_iff_entry: "bt_inv m \<Longrightarrow> bt_get m k = Some v \<longleftrightarrow> (k, v) \<in> set m"
  by (auto simp: bt_get_def bt_inv_def strict_sorted_iff)

interpretation btree: ordered_map bt_get bt_insert bt_remove bt_retain bt_keys bt_values bt_inv
proof unfold_locales
  fix m :: "('k::linorder, 'v) btree" and k P v a
  assume wf: "bt_inv m"
  show "bt_get (bt_insert k v m) a = (if a = k then Some v else bt_get m a)"
    by (rule bt_get_insert [OF wf])
  show "bt_get (bt_remove k m) a = (if a = k then None else bt_get m a)"
    using bt_get_filter [of "\<lambda>x. x \<noteq> k" m a] by (simp add: bt_remove_def)
  show "bt_get (bt_retain P m) a = (if P a then bt_get m a else None)"
    by (simp add: bt_retain_def bt_get_filter)
  show "bt_inv (bt_insert k v m)" by (rule bt_inv_insert [OF wf])
  show "bt_inv (bt_remove k m)" "bt_inv (bt_retain P m)"
    by (simp_all add: bt_remove_def bt_retain_def bt_inv_filter wf)
  show "sorted_wrt (<) (bt_keys m)" using wf by (simp add: bt_inv_def bt_keys_def)
  show "k \<in> set (bt_keys m) \<longleftrightarrow> bt_get m k \<noteq> None"
    by (auto simp: bt_keys_def bt_get_def map_of_eq_None_iff image_iff)
  have "the (bt_get m (fst e)) = snd e" if "e \<in> set m" for e
    using bt_get_iff_entry [OF wf, of "fst e" "snd e"] that by simp
  then show "bt_values m = map (\<lambda>k. the (bt_get m k)) (bt_keys m)"
    by (simp add: bt_values_def bt_keys_def)
qed

lemmas btree_simps = btree.get_put btree.get_del btree.get_keep
lemmas btree_wf [intro] = btree.wf_put btree.wf_del btree.wf_keep

lemma bt_inv_empty [simp]: "bt_inv bt_empty"
  by (simp add: bt_inv_def bt_empty_def)

lemma bt_get_empty [simp]: "bt_get bt_empty k = None"
  by (simp add: bt_get_def bt_empty_def)

lemma length_bt_keys [simp]: "length (bt_keys m) = length m"
  by (simp add: bt_keys_def)

text \<open>\<open>last_key_value\<close> is the entry with the greatest key.\<close>

lemma bt_last_key:
  assumes "bt_inv m" and "bt_last_key_value m = Some (k, v)"
  shows "bt_get m k = Some v" and "\<And>a. bt_get m a \<noteq> None \<Longrightarrow> a \<le> k"
proof -
  from assms(2) have ne: "m \<noteq> []" and l: "last m = (k, v)"
    by (auto simp: bt_last_key_value_def split: if_splits)
  show "bt_get m k = Some v"
    using bt_get_iff_entry [OF assms(1)] last_in_set [OF ne] l by simp
  fix a assume "bt_get m a \<noteq> None"
  then have "a \<in> set (bt_keys m)" using btree.mem_keys [OF assms(1)] by blast
  moreover have "sorted (bt_keys m)" "bt_keys m \<noteq> []" "last (bt_keys m) = k"
    using assms(1) ne l by (auto simp: bt_inv_def bt_keys_def strict_sorted_iff last_map)
  ultimately show "a \<le> k"
    by (metis in_set_conv_nth last_conv_nth le_refl length_greater_0_conv less_Suc_eq_le
        Suc_pred' sorted_iff_nth_mono diff_less zero_less_one)
qed

lemma bt_last_key_None: "bt_last_key_value m = None \<longleftrightarrow> m = []"
  by (simp add: bt_last_key_value_def)

lemma bt_get_None_all_iff: "(\<forall>k. bt_get m k = None) \<longleftrightarrow> m = []"
  by (cases m) (auto simp: bt_get_def)

lemma sum_bt_values_insert:
  "bt_get m k = None \<Longrightarrow>
     sum_list (map f (bt_values (bt_insert k v m))) = f v + sum_list (map f (bt_values m))"
  for f :: "'v \<Rightarrow> nat"
  by (induction m) (auto simp: bt_get_def bt_values_def split: if_splits)

end
