(* ===== verification/Fragment.thy ===== *)
theory Fragment
  imports Limits Contracts Ordered_Map
begin

text \<open>
  Fragments of an instruction and their reassembly: \<open>src/fragment.rs\<close>.

  Shown here: the 14-byte header codec is a bijection between well-formed fragments and byte
  strings; the reassembler's bookkeeping (byte count, final number, key range) is an
  invariant that keeps it within its limits; and every message that is cut into fragments is
  delivered whole, once, when its last missing fragment arrives, whatever the order and
  however often fragments are repeated.
\<close>

section \<open>Constants and data\<close>

abbreviation (input) FRAGMENT_HEADER_BYTES :: nat where "FRAGMENT_HEADER_BYTES \<equiv> 2 + 2 + 8 + 2"
definition FINAL_FRAGMENT_BIT :: u16 where "FINAL_FRAGMENT_BIT = push_bit 15 1"
definition MAX_FRAGMENT_NUMBER :: u16 where "MAX_FRAGMENT_NUMBER = FINAL_FRAGMENT_BIT - 1"
abbreviation (input) NO_TIMESTAMP_REPLY :: u16 where "NO_TIMESTAMP_REPLY \<equiv> - 1"

datatype FragmentError = TooShort | BodyTooLarge | FragmentNumberOutOfRange | OutputTooSmall

datatype ReassemblyError =
    FragmentNumberOutOfRange
  | ConflictingFragment
  | InstructionTooLarge
  | TooManyIncompleteInstructions
  | TimeMovedBackwards
  | TimerExhausted

datatype ReassemblyOutcome = Pending | Duplicate | Complete bytes

record Fragment =
  fr_timestamp :: u16
  fr_timestamp_reply :: "u16 option"
  fr_identifier :: u64
  fr_number :: u16
  fr_is_final :: bool
  fr_body :: bytes

record StoredFragment =
  sf_body :: bytes
  sf_is_final :: bool

record IncompleteInstruction =
  ii_identifier :: u64
  ii_created_at_ms :: u64
  ii_stored_bytes :: nat
  ii_final_number :: "u16 option"
  ii_fragments :: "(u16, StoredFragment) btree"

datatype InsertKind = New | Duplicate

record FragmentReassembler =
  ra_incomplete :: "IncompleteInstruction option"
  ra_last_observed_ms :: u64

section \<open>Header codec\<close>

definition fragment_encode ::
    "u16 \<Rightarrow> u16 option \<Rightarrow> u64 \<Rightarrow> u16 \<Rightarrow> bool \<Rightarrow> bytes \<Rightarrow> bytes \<Rightarrow> (FragmentError, nat, bytes) outcome"
  where "fragment_encode timestamp timestamp_reply identifier number is_final body output =
    (if number > MAX_FRAGMENT_NUMBER then (Inl FragmentError.FragmentNumberOutOfRange, output)
     else if length body > MAX_FRAGMENT_BODY_BYTES then (Inl BodyTooLarge, output)
     else let encoded_len = FRAGMENT_HEADER_BYTES + length body in
       if length output < encoded_len then (Inl FragmentError.OutputTooSmall, output)
       else
         let output = copy_at 0 (to_be_bytes 2 timestamp) output;
             output = copy_at 2 (to_be_bytes 2 (case timestamp_reply of None \<Rightarrow> NO_TIMESTAMP_REPLY | Some r \<Rightarrow> r)) output;
             output = copy_at 4 (to_be_bytes 8 identifier) output;
             fragment_word = number OR (if is_final then FINAL_FRAGMENT_BIT else 0);
             output = copy_at 12 (to_be_bytes 2 fragment_word) output;
             output = copy_at FRAGMENT_HEADER_BYTES body output
         in (Inr encoded_len, output))"

definition fragment_decode :: "bytes \<Rightarrow> FragmentError + Fragment"
  where "fragment_decode plaintext =
    (if length plaintext < FRAGMENT_HEADER_BYTES then Inl TooShort
     else let body = drop FRAGMENT_HEADER_BYTES plaintext in
       if length body > MAX_FRAGMENT_BODY_BYTES then Inl BodyTooLarge
       else
         let timestamp = from_be_bytes (slice 0 2 plaintext);
             raw_reply = from_be_bytes (slice 2 4 plaintext);
             identifier = from_be_bytes (slice 4 12 plaintext);
             fragment_word = from_be_bytes (slice 12 14 plaintext)
         in Inr \<lparr>fr_timestamp = timestamp,
                 fr_timestamp_reply = (if raw_reply \<noteq> NO_TIMESTAMP_REPLY then Some raw_reply else None),
                 fr_identifier = identifier,
                 fr_number = fragment_word AND MAX_FRAGMENT_NUMBER,
                 fr_is_final = (fragment_word AND FINAL_FRAGMENT_BIT \<noteq> 0),
                 fr_body = body\<rparr>)"

section \<open>One incomplete instruction\<close>

definition IncompleteInstruction_new :: "u64 \<Rightarrow> u64 \<Rightarrow> IncompleteInstruction"
  where "IncompleteInstruction_new identifier created_at_ms =
    \<lparr>ii_identifier = identifier, ii_created_at_ms = created_at_ms, ii_stored_bytes = 0,
     ii_final_number = None, ii_fragments = bt_empty\<rparr>"

definition ii_classify :: "IncompleteInstruction \<Rightarrow> Fragment \<Rightarrow> ReassemblyError + InsertKind"
  where "ii_classify ii fragment =
    (case bt_get (ii_fragments ii) (fr_number fragment) of
       Some existing \<Rightarrow>
         if sf_body existing = fr_body fragment \<and> sf_is_final existing = fr_is_final fragment
         then Inr InsertKind.Duplicate
         else Inl ConflictingFragment
     | None \<Rightarrow>
         if (case ii_final_number ii of None \<Rightarrow> False | Some final_number \<Rightarrow> fr_number fragment > final_number)
            \<or> fr_is_final fragment
              \<and> (ii_final_number ii \<noteq> None
                 \<or> (case bt_last_key_value (ii_fragments ii) of None \<Rightarrow> False
                     | Some (number, _) \<Rightarrow> number > fr_number fragment))
         then Inl ConflictingFragment
         else Inr New)"

definition ii_insert :: "IncompleteInstruction \<Rightarrow> Fragment \<Rightarrow> IncompleteInstruction"
  where "ii_insert ii fragment =
    (let ii = (if fr_is_final fragment then ii\<lparr>ii_final_number := Some (fr_number fragment)\<rparr> else ii);
         ii = ii\<lparr>ii_stored_bytes := ii_stored_bytes ii + length (fr_body fragment)\<rparr>
     in ii\<lparr>ii_fragments := bt_insert (fr_number fragment)
            \<lparr>sf_body = fr_body fragment, sf_is_final = fr_is_final fragment\<rparr> (ii_fragments ii)\<rparr>)"

definition ii_is_complete :: "IncompleteInstruction \<Rightarrow> bool"
  where "ii_is_complete ii =
    (case ii_final_number ii of
       None \<Rightarrow> False
     | Some final_number \<Rightarrow>
         length (ii_fragments ii) = unat final_number + 1
         \<and> bt_keys (ii_fragments ii) = map of_nat [0..<Suc (unat final_number)])"

definition ii_assemble :: "IncompleteInstruction \<Rightarrow> bytes"
  where "ii_assemble ii = concat (map sf_body (bt_values (ii_fragments ii)))"

section \<open>The reassembler\<close>

definition FragmentReassembler_new :: "u64 \<Rightarrow> FragmentReassembler"
  where "FragmentReassembler_new started_at_ms =
    \<lparr>ra_incomplete = None, ra_last_observed_ms = started_at_ms\<rparr>"

definition ra_observe_time :: "FragmentReassembler \<Rightarrow> u64 \<Rightarrow> (ReassemblyError, unit, FragmentReassembler) outcome"
  where "ra_observe_time ra now_ms =
    (if now_ms < ra_last_observed_ms ra then (Inl ReassemblyError.TimeMovedBackwards, ra)
     else (Inr (), ra\<lparr>ra_last_observed_ms := now_ms\<rparr>))"

definition ra_expire_due :: "FragmentReassembler \<Rightarrow> u64 \<Rightarrow> (ReassemblyError, nat, FragmentReassembler) outcome"
  where "ra_expire_due ra now_ms =
    (let expired =
       (case ra_incomplete ra of
          None \<Rightarrow> Inr False
        | Some ii \<Rightarrow>
            (case checked_add (ii_created_at_ms ii) INCOMPLETE_INSTRUCTION_LIFETIME_MS of
               None \<Rightarrow> Inl ReassemblyError.TimerExhausted
             | Some deadline \<Rightarrow> Inr (deadline \<le> now_ms)))
     in case expired of
          Inl e \<Rightarrow> (Inl e, ra)
        | Inr True \<Rightarrow> (Inr 1, ra\<lparr>ra_incomplete := None\<rparr>)
        | Inr False \<Rightarrow> (Inr 0, ra))"

text \<open>The part of \<open>push\<close> for a fragment of an instruction other than the incomplete one, and the
  part for a further fragment of the incomplete instruction. The \<open>checked_add\<close> of the byte counts
  cannot fail on \<open>usize\<close> as \<open>nat\<close>.\<close>

definition ra_push_first :: "FragmentReassembler \<Rightarrow> u64 \<Rightarrow> Fragment \<Rightarrow> (ReassemblyError, ReassemblyOutcome, FragmentReassembler) outcome"
  where "ra_push_first ra now_ms fragment =
    (if fr_number fragment = 0 \<and> fr_is_final fragment then
       (if length (fr_body fragment) \<le> MAX_COMPRESSED_INSTRUCTION_BYTES
        then (Inr (Complete (fr_body fragment)), ra) else (Inl InstructionTooLarge, ra))
     else if ra_incomplete ra \<noteq> None then (Inl TooManyIncompleteInstructions, ra)
     else if length (fr_body fragment) > MAX_COMPRESSED_INSTRUCTION_BYTES
     then (Inl InstructionTooLarge, ra)
     else
       let instruction = ii_insert (IncompleteInstruction_new (fr_identifier fragment) now_ms) fragment
       in (Inr Pending, ra\<lparr>ra_incomplete := Some instruction\<rparr>))"

definition ra_push_next :: "FragmentReassembler \<Rightarrow> IncompleteInstruction \<Rightarrow> Fragment \<Rightarrow> (ReassemblyError, ReassemblyOutcome, FragmentReassembler) outcome"
  where "ra_push_next ra instruction fragment =
    (case ii_classify instruction fragment of
       Inl e \<Rightarrow> (Inl e, ra\<lparr>ra_incomplete := None\<rparr>)
     | Inr InsertKind.Duplicate \<Rightarrow> (Inr ReassemblyOutcome.Duplicate, ra)
     | Inr New \<Rightarrow>
         if ii_stored_bytes instruction + length (fr_body fragment) > MAX_COMPRESSED_INSTRUCTION_BYTES
         then (Inl InstructionTooLarge, ra)
         else
           let instruction = ii_insert instruction fragment in
           if \<not> ii_is_complete instruction
           then (Inr Pending, ra\<lparr>ra_incomplete := Some instruction\<rparr>)
           else (Inr (Complete (ii_assemble instruction)), ra\<lparr>ra_incomplete := None\<rparr>))"

definition ra_push :: "FragmentReassembler \<Rightarrow> u64 \<Rightarrow> Fragment \<Rightarrow> (ReassemblyError, ReassemblyOutcome, FragmentReassembler) outcome"
  where "ra_push ra now_ms fragment =
    and_then (ra_observe_time ra now_ms) (\<lambda>_ ra.
    and_then (ra_expire_due ra now_ms) (\<lambda>_ ra.
      if unat (fr_number fragment) \<ge> MAX_FRAGMENTS_PER_INSTRUCTION
      then (Inl ReassemblyError.FragmentNumberOutOfRange, ra)
      else
        (case ra_incomplete ra of
           Some instruction \<Rightarrow>
             if ii_identifier instruction = fr_identifier fragment
             then ra_push_next ra instruction fragment
             else ra_push_first ra now_ms fragment
         | None \<Rightarrow> ra_push_first ra now_ms fragment)))"

definition ra_expire :: "FragmentReassembler \<Rightarrow> u64 \<Rightarrow> (ReassemblyError, nat, FragmentReassembler) outcome"
  where "ra_expire ra now_ms =
    and_then (ra_observe_time ra now_ms) (\<lambda>_ ra. ra_expire_due ra now_ms)"

definition ra_clear :: "FragmentReassembler \<Rightarrow> nat \<times> FragmentReassembler"
  where "ra_clear ra = (of_bool (ra_incomplete ra \<noteq> None), ra\<lparr>ra_incomplete := None\<rparr>)"

definition ra_incomplete_count :: "FragmentReassembler \<Rightarrow> nat"
  where "ra_incomplete_count ra = of_bool (ra_incomplete ra \<noteq> None)"

definition ra_stored_bytes :: "FragmentReassembler \<Rightarrow> nat"
  where "ra_stored_bytes ra = (case ra_incomplete ra of None \<Rightarrow> 0 | Some ii \<Rightarrow> ii_stored_bytes ii)"


section \<open>The header codec is a bijection\<close>

lemma MAX_FRAGMENT_NUMBER_eq_mask: "MAX_FRAGMENT_NUMBER = mask 15"
  by (simp add: MAX_FRAGMENT_NUMBER_def FINAL_FRAGMENT_BIT_def mask_eq_exp_minus_1)

lemma bit_FINAL_FRAGMENT_BIT [simp]: "bit FINAL_FRAGMENT_BIT n \<longleftrightarrow> n = 15"
  unfolding FINAL_FRAGMENT_BIT_def by (subst bit_push_bit_iff) (auto simp: bit_1_iff)

lemma and_FINAL_FRAGMENT_BIT: "w AND FINAL_FRAGMENT_BIT \<noteq> 0 \<longleftrightarrow> bit w 15"
  by (auto simp: bit_eq_iff [where 'a = "16 word"] bit_simps)

definition fragment_word_of :: "u16 \<Rightarrow> bool \<Rightarrow> u16"
  where "fragment_word_of number is_final = number OR (if is_final then FINAL_FRAGMENT_BIT else 0)"

lemma fragment_word_number:
  assumes "number \<le> MAX_FRAGMENT_NUMBER"
  shows "fragment_word_of number is_final AND MAX_FRAGMENT_NUMBER = number"
proof -
  have n: "take_bit 15 number = number"
    using assms by (simp add: MAX_FRAGMENT_NUMBER_eq_mask le_mask_iff_take_bit)
  have "fragment_word_of number is_final AND mask 15 = take_bit 15 number"
    by (rule bit_eqI) (auto simp: bit_simps fragment_word_of_def)
  then show ?thesis by (simp only: MAX_FRAGMENT_NUMBER_eq_mask n)
qed

lemma fragment_word_final:
  assumes "number \<le> MAX_FRAGMENT_NUMBER"
  shows "fragment_word_of number is_final AND FINAL_FRAGMENT_BIT \<noteq> 0 \<longleftrightarrow> is_final"
proof -
  have n: "take_bit 15 number = number"
    using assms by (simp add: MAX_FRAGMENT_NUMBER_eq_mask le_mask_iff_take_bit)
  have "\<not> bit (take_bit 15 number) 15" by (simp add: bit_simps)
  then have "\<not> bit number 15" by (simp only: n not_False_eq_True)
  then show ?thesis by (simp add: and_FINAL_FRAGMENT_BIT fragment_word_of_def bit_simps)
qed

lemma fragment_word_split:
  "fragment_word_of (w AND MAX_FRAGMENT_NUMBER) (w AND FINAL_FRAGMENT_BIT \<noteq> 0) = w"
proof (rule bit_word_eqI)
  fix n :: nat assume "n < LENGTH(16)"
  then consider "n = 15" | "n < 15" by fastforce
  then show "bit (fragment_word_of (w AND MAX_FRAGMENT_NUMBER) (w AND FINAL_FRAGMENT_BIT \<noteq> 0)) n = bit w n"
    by cases (simp_all add: MAX_FRAGMENT_NUMBER_eq_mask fragment_word_of_def and_FINAL_FRAGMENT_BIT bit_simps)
qed

text \<open>What \<open>encode\<close> leaves in the buffer.\<close>

definition fragment_image :: "Fragment \<Rightarrow> bytes"
  where "fragment_image f =
    to_be_bytes 2 (fr_timestamp f)
    @ to_be_bytes 2 (case fr_timestamp_reply f of None \<Rightarrow> NO_TIMESTAMP_REPLY | Some r \<Rightarrow> r)
    @ to_be_bytes 8 (fr_identifier f)
    @ to_be_bytes 2 (fragment_word_of (fr_number f) (fr_is_final f)) @ fr_body f"

lemma length_fragment_image [simp]: "length (fragment_image f) = 14 + length (fr_body f)"
  by (simp add: fragment_image_def)

abbreviation fragment_encode_of :: "Fragment \<Rightarrow> bytes \<Rightarrow> (FragmentError, nat, bytes) outcome"
  where "fragment_encode_of f \<equiv>
    fragment_encode (fr_timestamp f) (fr_timestamp_reply f) (fr_identifier f) (fr_number f)
      (fr_is_final f) (fr_body f)"

lemma header_copies:
  assumes "length t = 2" "length r = 2" "length i = 8" "length w = 2"
  shows "copy_at 14 body (copy_at 12 w (copy_at 4 i (copy_at 2 r (copy_at 0 t out))))
    = t @ r @ i @ w @ body @ drop (14 + length body) out"
proof -
  have "copy_at 0 t out = t @ drop 2 out" using assms copy_at_append [of "[]" 0 t out] by simp
  moreover have "copy_at 2 r (t @ drop 2 out) = (t @ r) @ drop 4 out"
    using assms copy_at_append [of t 2] by simp
  moreover have "copy_at 4 i ((t @ r) @ drop 4 out) = (t @ r @ i) @ drop 12 out"
    using assms copy_at_append [of "t @ r" 4] by simp
  moreover have "copy_at 12 w ((t @ r @ i) @ drop 12 out) = (t @ r @ i @ w) @ drop 14 out"
    using assms copy_at_append [of "t @ r @ i" 12] by simp
  moreover have "copy_at 14 body ((t @ r @ i @ w) @ drop 14 out)
      = t @ r @ i @ w @ body @ drop (14 + length body) out"
    using assms copy_at_append [of "t @ r @ i @ w" 14] by (simp add: add.commute)
  ultimately show ?thesis by (simp only:)
qed

lemma fragment_encode_ok_iff:
  "fragment_encode_of f out = (Inr n, out') \<longleftrightarrow>
     fr_number f \<le> MAX_FRAGMENT_NUMBER \<and> length (fr_body f) \<le> MAX_FRAGMENT_BODY_BYTES
     \<and> n = length (fragment_image f) \<and> n \<le> length out \<and> out' = fragment_image f @ drop n out"
  by (auto simp: fragment_encode_def Let_def not_less fragment_image_def header_copies
      fragment_word_of_def [symmetric])

lemma fragment_decode_image:
  assumes "fr_number f \<le> MAX_FRAGMENT_NUMBER" and "length (fr_body f) \<le> MAX_FRAGMENT_BODY_BYTES"
    and "fr_timestamp_reply f \<noteq> Some NO_TIMESTAMP_REPLY"
  shows "fragment_decode (fragment_image f) = Inr f"
proof -
  let ?p = "fragment_image f"
  have "slice 0 2 ?p = to_be_bytes 2 (fr_timestamp f)"
    "slice 2 4 ?p = to_be_bytes 2 (case fr_timestamp_reply f of None \<Rightarrow> NO_TIMESTAMP_REPLY | Some r \<Rightarrow> r)"
    "slice 4 12 ?p = to_be_bytes 8 (fr_identifier f)"
    "slice 12 14 ?p = to_be_bytes 2 (fragment_word_of (fr_number f) (fr_is_final f))"
    "drop 14 ?p = fr_body f"
    by (simp_all add: slice_def fragment_image_def)
  then show ?thesis
    using assms
    by (cases f) (auto simp: fragment_decode_def Let_def from_to_be_bytes_id fragment_word_number
        fragment_word_final split: option.splits)
qed

lemma fragment_decode_okD:
  assumes "fragment_decode p = Inr f"
  shows "p = fragment_image f" and "fr_number f \<le> MAX_FRAGMENT_NUMBER"
    and "length (fr_body f) \<le> MAX_FRAGMENT_BODY_BYTES"
    and "fr_timestamp_reply f \<noteq> Some NO_TIMESTAMP_REPLY"
proof -
  from assms have l: "14 \<le> length p"
    by (auto simp: fragment_decode_def Let_def split: if_splits)
  have "p = slice 0 2 p @ slice 2 4 p @ slice 4 12 p @ slice 12 14 p @ drop 14 p"
  proof -
    have "take 14 p = slice 0 2 p @ slice 2 4 p @ slice 4 12 p @ slice 12 14 p"
      using l take_slice [of 14 p 12] take_slice [of 12 p 4] take_slice [of 4 p 2] take_slice [of 2 p 0]
      by simp
    then show ?thesis by (metis append.assoc append_take_drop_id)
  qed
  moreover have "to_be_bytes 2 (from_be_bytes (slice 0 2 p) :: u16) = slice 0 2 p"
    "to_be_bytes 2 (from_be_bytes (slice 2 4 p) :: u16) = slice 2 4 p"
    "to_be_bytes 8 (from_be_bytes (slice 4 12 p) :: u64) = slice 4 12 p"
    "to_be_bytes 2 (from_be_bytes (slice 12 14 p) :: u16) = slice 12 14 p"
    using l to_from_be_bytes [of "slice 0 2 p", where 'a = 16] to_from_be_bytes [of "slice 2 4 p", where 'a = 16]
      to_from_be_bytes [of "slice 4 12 p", where 'a = 64] to_from_be_bytes [of "slice 12 14 p", where 'a = 16]
    by simp_all
  ultimately show "p = fragment_image f"
    using assms l
    by (auto simp: fragment_decode_def Let_def fragment_image_def fragment_word_split split: if_splits)
  show "fr_number f \<le> MAX_FRAGMENT_NUMBER"
    using assms by (auto simp: fragment_decode_def Let_def word_and_le1 split: if_splits)
  show "length (fr_body f) \<le> MAX_FRAGMENT_BODY_BYTES" "fr_timestamp_reply f \<noteq> Some NO_TIMESTAMP_REPLY"
    using assms by (auto simp: fragment_decode_def Let_def split: if_splits)
qed

section \<open>The reassembler stays within its limits\<close>

interpretation reassembly_clock:
  monotone_clock ra_last_observed_ms ra_observe_time ReassemblyError.TimeMovedBackwards
  by unfold_locales (auto simp: ra_observe_time_def)

definition ii_bytes :: "IncompleteInstruction \<Rightarrow> nat"
  where "ii_bytes ii = sum_list (map (length \<circ> sf_body) (bt_values (ii_fragments ii)))"

text \<open>Well-formedness: the byte counter is exact and within the limit, every number is in range,
  the final number is the greatest one and the only one marked final, and the instruction is
  not complete yet (a complete one is handed out, never stored).\<close>

definition ii_wf :: "IncompleteInstruction \<Rightarrow> bool"
  where "ii_wf ii \<longleftrightarrow>
    bt_inv (ii_fragments ii) \<and> ii_fragments ii \<noteq> []
    \<and> ii_stored_bytes ii = ii_bytes ii \<and> ii_stored_bytes ii \<le> MAX_COMPRESSED_INSTRUCTION_BYTES
    \<and> (\<forall>k v. bt_get (ii_fragments ii) k = Some v \<longrightarrow>
          unat k < MAX_FRAGMENTS_PER_INSTRUCTION
          \<and> (sf_is_final v \<longleftrightarrow> ii_final_number ii = Some k)
          \<and> (case ii_final_number ii of None \<Rightarrow> True | Some m \<Rightarrow> k \<le> m))
    \<and> (case ii_final_number ii of None \<Rightarrow> True | Some m \<Rightarrow> bt_get (ii_fragments ii) m \<noteq> None)"

definition ra_wf :: "FragmentReassembler \<Rightarrow> bool"
  where "ra_wf ra \<longleftrightarrow>
    (case ra_incomplete ra of
       None \<Rightarrow> True
     | Some ii \<Rightarrow> ii_wf ii \<and> \<not> ii_is_complete ii \<and> ii_created_at_ms ii \<le> ra_last_observed_ms ra)"

lemma ii_classify_NewD:
  assumes "ii_classify ii f = Inr New" and "bt_inv (ii_fragments ii)"
  shows "bt_get (ii_fragments ii) (fr_number f) = None"
    and "ii_final_number ii = Some m \<Longrightarrow> fr_number f \<le> m \<and> \<not> fr_is_final f"
    and "fr_is_final f \<Longrightarrow> bt_get (ii_fragments ii) k \<noteq> None \<Longrightarrow> k \<le> fr_number f"
proof -
  show "bt_get (ii_fragments ii) (fr_number f) = None"
    using assms(1) by (auto simp: ii_classify_def split: option.splits if_splits)
  show "ii_final_number ii = Some m \<Longrightarrow> fr_number f \<le> m \<and> \<not> fr_is_final f"
    using assms(1) by (auto simp: ii_classify_def not_less split: option.splits if_splits)
  assume fin: "fr_is_final f" and k: "bt_get (ii_fragments ii) k \<noteq> None"
  then have ne: "ii_fragments ii \<noteq> []" by (auto simp: bt_get_def)
  then obtain l v where l: "bt_last_key_value (ii_fragments ii) = Some (l, v)"
    by (auto simp: bt_last_key_value_def prod_eq_iff)
  have "k \<le> l" by (rule bt_last_key(2) [OF assms(2) l k])
  also have "l \<le> fr_number f"
    using assms(1) fin l by (auto simp: ii_classify_def not_less split: option.splits if_splits)
  finally show "k \<le> fr_number f" .
qed

lemma ii_insert_simps [simp]:
  "ii_identifier (ii_insert ii f) = ii_identifier ii"
  "ii_created_at_ms (ii_insert ii f) = ii_created_at_ms ii"
  "ii_stored_bytes (ii_insert ii f) = ii_stored_bytes ii + length (fr_body f)"
  "ii_final_number (ii_insert ii f) = (if fr_is_final f then Some (fr_number f) else ii_final_number ii)"
  "ii_fragments (ii_insert ii f) =
     bt_insert (fr_number f) \<lparr>sf_body = fr_body f, sf_is_final = fr_is_final f\<rparr> (ii_fragments ii)"
  by (simp_all add: ii_insert_def Let_def)

lemma bt_insert_neq_Nil [simp]: "bt_insert k v m \<noteq> []"
  by (cases m) simp_all

text \<open>Inserting a fragment that \<open>classify\<close> calls new, or the first fragment of all, keeps an instruction
  well-formed.\<close>

lemma ii_wf_insert:
  assumes wf: "ii_wf ii \<or> ii = IncompleteInstruction_new ident t"
    and new: "ii_classify ii f = Inr New"
    and range: "unat (fr_number f) < MAX_FRAGMENTS_PER_INSTRUCTION"
    and bytes: "ii_stored_bytes ii + length (fr_body f) \<le> MAX_COMPRESSED_INSTRUCTION_BYTES"
  shows "ii_wf (ii_insert ii f)"
proof -
  from wf have inv: "bt_inv (ii_fragments ii)" and eq: "ii_stored_bytes ii = ii_bytes ii"
    and old: "bt_get (ii_fragments ii) k = Some v \<Longrightarrow> unat k < MAX_FRAGMENTS_PER_INSTRUCTION
          \<and> (sf_is_final v \<longleftrightarrow> ii_final_number ii = Some k)
          \<and> (case ii_final_number ii of None \<Rightarrow> True | Some m \<Rightarrow> k \<le> m)"
    and fin: "(case ii_final_number ii of None \<Rightarrow> True | Some m \<Rightarrow> bt_get (ii_fragments ii) m \<noteq> None)" for k v
    by (auto simp: ii_wf_def IncompleteInstruction_new_def ii_bytes_def bt_values_def bt_empty_def bt_inv_def bt_get_def)
  note new = ii_classify_NewD [OF new inv]
  have "ii_bytes (ii_insert ii f) = length (fr_body f) + ii_bytes ii"
    using sum_bt_values_insert [OF new(1)] by (simp add: ii_bytes_def)
  moreover have "unat k < MAX_FRAGMENTS_PER_INSTRUCTION
      \<and> (sf_is_final v \<longleftrightarrow> ii_final_number (ii_insert ii f) = Some k)
      \<and> (case ii_final_number (ii_insert ii f) of None \<Rightarrow> True | Some m \<Rightarrow> k \<le> m)"
    if k: "bt_get (ii_fragments (ii_insert ii f)) k = Some v" for k v
  proof (cases "k = fr_number f")
    case True
    then show ?thesis using k range new(1,2) fin
      by (cases "ii_final_number ii") (auto simp: btree_simps [OF inv])
  next
    case False
    with k have k: "bt_get (ii_fragments ii) k = Some v" by (simp add: btree_simps [OF inv])
    show ?thesis using old [OF k] False new(2,3) [of k] k by (cases "ii_final_number ii") auto
  qed
  moreover have "case ii_final_number (ii_insert ii f) of None \<Rightarrow> True
      | Some m \<Rightarrow> bt_get (ii_fragments (ii_insert ii f)) m \<noteq> None"
    using fin by (simp add: btree_simps [OF inv] split: option.splits)
  ultimately show ?thesis
    unfolding ii_wf_def using btree.wf_put [OF inv] eq bytes by simp
qed

text \<open>A well-formed instruction is complete exactly when every number up to the final one is there.\<close>

lemma u16_upto:
  "set (map of_nat [0..<Suc (unat m)]) = {k. k \<le> m}"
  "sorted_wrt (<) (map of_nat [0..<Suc (unat m)] :: u16 list)" for m :: u16
proof -
  have le: "unat m < 2 ^ LENGTH(16)" by (rule unsigned_less)
  have u: "unat (of_nat i :: u16) = i" if "i \<le> unat m" for i
    using le that by (intro of_nat_inverse [OF refl]) simp
  show "set (map of_nat [0..<Suc (unat m)]) = {k. k \<le> m}"
  proof (intro set_eqI iffI)
    fix k :: u16 assume "k \<in> set (map of_nat [0..<Suc (unat m)])"
    then show "k \<in> {k. k \<le> m}" by (auto simp: word_le_nat_alt u less_Suc_eq_le simp del: upt_Suc)
  next
    fix k :: u16 assume "k \<in> {k. k \<le> m}"
    then have "unat k \<in> {0..<Suc (unat m)}" by (simp add: word_le_nat_alt less_Suc_eq_le)
    then show "k \<in> set (map of_nat [0..<Suc (unat m)])"
      using image_eqI [of k of_nat "unat k" "{0..<Suc (unat m)}"] by (simp del: upt_Suc)
  qed
  show "sorted_wrt (<) (map of_nat [0..<Suc (unat m)] :: u16 list)"
    unfolding sorted_wrt_map
    by (rule sorted_wrt_mono_rel [OF _ sorted_wrt_upt])
      (auto simp: word_less_nat_alt u less_Suc_eq_le simp del: upt_Suc)
qed

lemma ii_is_complete_iff:
  assumes "bt_inv (ii_fragments ii)" and "ii_final_number ii = Some m"
  shows "ii_is_complete ii \<longleftrightarrow> dom (bt_get (ii_fragments ii)) = {k. k \<le> m}"
proof
  assume "ii_is_complete ii"
  then have "bt_keys (ii_fragments ii) = map of_nat [0..<Suc (unat m)]"
    using assms(2) by (simp add: ii_is_complete_def del: upt_Suc)
  then show "dom (bt_get (ii_fragments ii)) = {k. k \<le> m}"
    using btree.set_keys [OF assms(1)] u16_upto(1) [of m] by simp
next
  assume "dom (bt_get (ii_fragments ii)) = {k. k \<le> m}"
  then have eq: "bt_keys (ii_fragments ii) = map of_nat [0..<Suc (unat m)]"
    by (intro btree.keys_eqI) (use assms(1) u16_upto [of m] in \<open>simp_all del: upt_Suc\<close>)
  then have "length (ii_fragments ii) = Suc (unat m)"
    by (metis diff_zero length_bt_keys length_map length_upt)
  with eq show "ii_is_complete ii"
    using assms(2) by (simp add: ii_is_complete_def del: upt_Suc)
qed

lemma ii_classify_new: "ii_classify (IncompleteInstruction_new ident t) f = Inr New"
  by (simp add: ii_classify_def IncompleteInstruction_new_def bt_last_key_value_def bt_empty_def bt_get_def)

lemma first_fragment_incomplete:
  assumes "\<not> (fr_number f = 0 \<and> fr_is_final f)"
  shows "\<not> ii_is_complete (ii_insert (IncompleteInstruction_new ident t) f)"
proof (cases "fr_is_final f")
  case True
  with assms have "fr_number f \<noteq> 0" by simp
  then show ?thesis
    by (simp add: ii_is_complete_def IncompleteInstruction_new_def bt_empty_def unat_eq_0)
next
  case False
  then show ?thesis by (simp add: ii_is_complete_def IncompleteInstruction_new_def)
qed

lemma ra_wf_observe: "ra_wf ra \<Longrightarrow> ra_wf (snd (ra_observe_time ra now))"
  by (auto simp: ra_wf_def ra_observe_time_def split: option.splits intro: order_trans)

lemma ra_wf_expire_due: "ra_wf ra \<Longrightarrow> ra_wf (snd (ra_expire_due ra now))"
  by (auto simp: ra_wf_def ra_expire_due_def Let_def split: option.splits sum.splits bool.splits)

lemma ra_last_observed_expire_due [simp]:
  "ra_last_observed_ms (snd (ra_expire_due ra now)) = ra_last_observed_ms ra"
  by (auto simp: ra_expire_due_def Let_def split: option.splits sum.splits bool.splits)

lemma ra_wf_push_first:
  assumes "ra_wf ra" and "ra_last_observed_ms ra = now"
    and "unat (fr_number f) < MAX_FRAGMENTS_PER_INSTRUCTION"
  shows "ra_wf (snd (ra_push_first ra now f))"
proof -
  let ?new = "IncompleteInstruction_new (fr_identifier f) now"
  have "ii_wf (ii_insert ?new f)" if "length (fr_body f) \<le> MAX_COMPRESSED_INSTRUCTION_BYTES"
    by (rule ii_wf_insert [OF disjI2 [OF refl] ii_classify_new assms(3)])
      (use that in \<open>simp add: IncompleteInstruction_new_def\<close>)
  then show ?thesis
    using assms first_fragment_incomplete [of f]
    by (auto simp: ra_push_first_def ra_wf_def Let_def IncompleteInstruction_new_def)
qed

lemma ra_wf_push_next:
  assumes "ra_wf ra" and "ra_incomplete ra = Some ii"
    and "unat (fr_number f) < MAX_FRAGMENTS_PER_INSTRUCTION"
  shows "ra_wf (snd (ra_push_next ra ii f))"
proof -
  have "ii_wf ii" using assms(1,2) by (simp add: ra_wf_def)
  note ins = ii_wf_insert [OF disjI1 [OF this] _ assms(3)]
  consider (err) e where "ii_classify ii f = Inl e" | (dup) "ii_classify ii f = Inr InsertKind.Duplicate"
    | (new) "ii_classify ii f = Inr New"
    by (metis InsertKind.exhaust sum.exhaust)
  then show ?thesis
  proof cases
    case new
    with assms ins [OF new] show ?thesis by (simp add: ra_push_next_def ra_wf_def Let_def)
  qed (use assms in \<open>simp_all add: ra_push_next_def ra_wf_def\<close>)
qed

lemma ra_wf_push:
  assumes "ra_wf ra"
  shows "ra_wf (snd (ra_push ra now f))"
  unfolding ra_push_def
proof (intro snd_and_then [where P = ra_wf] ra_wf_observe assms)
  fix x ra' assume obs: "ra_observe_time ra now = (Inr x, ra')" and wf': "ra_wf ra'"
  then show "ra_wf (snd (ra_expire_due ra' now))" by (intro ra_wf_expire_due)
  fix y ra'' assume ex: "ra_expire_due ra' now = (Inr y, ra'')" and wf'': "ra_wf ra''"
  have "ra_last_observed_ms ra'' = now"
    using reassembly_clock.observe_okD [OF obs] ra_last_observed_expire_due [of ra' now] ex by simp
  then show "ra_wf (snd (if MAX_FRAGMENTS_PER_INSTRUCTION \<le> unat (fr_number f)
      then (Inl ReassemblyError.FragmentNumberOutOfRange, ra'')
      else case ra_incomplete ra'' of
          None \<Rightarrow> ra_push_first ra'' now f
        | Some ii \<Rightarrow> if ii_identifier ii = fr_identifier f then ra_push_next ra'' ii f
            else ra_push_first ra'' now f))"
    using wf'' ra_wf_push_first [OF wf''] ra_wf_push_next [OF wf'']
    by (auto split: option.splits)
qed

section \<open>Delivery of a message\<close>

text \<open>A message is a list of bodies; \<open>fragment_of\<close> says that a fragment is one of its pieces (the
  timestamps play no part), and \<open>ii_gathers\<close> that an incomplete instruction holds exactly the
  pieces with numbers in \<open>S\<close>.\<close>

definition message_ok :: "bytes list \<Rightarrow> bool"
  where "message_ok bodies \<longleftrightarrow>
    bodies \<noteq> [] \<and> length bodies \<le> MAX_FRAGMENTS_PER_INSTRUCTION
    \<and> sum_list (map length bodies) \<le> MAX_COMPRESSED_INSTRUCTION_BYTES"

definition fragment_of :: "u64 \<Rightarrow> bytes list \<Rightarrow> Fragment \<Rightarrow> bool"
  where "fragment_of ident bodies f \<longleftrightarrow>
    fr_identifier f = ident \<and> unat (fr_number f) < length bodies
    \<and> fr_body f = bodies ! unat (fr_number f)
    \<and> fr_is_final f = (Suc (unat (fr_number f)) = length bodies)"

definition ii_gathers :: "u64 \<Rightarrow> bytes list \<Rightarrow> u64 \<Rightarrow> nat set \<Rightarrow> IncompleteInstruction \<Rightarrow> bool"
  where "ii_gathers ident bodies t0 S ii \<longleftrightarrow>
    S \<subseteq> {..<length bodies} \<and> ii_identifier ii = ident \<and> ii_created_at_ms ii = t0
    \<and> bt_inv (ii_fragments ii)
    \<and> (\<forall>k. bt_get (ii_fragments ii) k =
          (if unat k \<in> S then Some \<lparr>sf_body = bodies ! unat k, sf_is_final = (Suc (unat k) = length bodies)\<rparr>
           else None))
    \<and> ii_stored_bytes ii = (\<Sum>i\<in>S. length (bodies ! i))
    \<and> ii_final_number ii =
        (if length bodies - 1 \<in> S then Some (of_nat (length bodies - 1)) else None)"

lemma ii_gathers_new: "ii_gathers ident bodies t0 {} (IncompleteInstruction_new ident t0)"
  by (simp add: ii_gathers_def IncompleteInstruction_new_def)

lemma unat_number_eq_iff:
  "message_ok bodies \<Longrightarrow> i < length bodies \<Longrightarrow> unat k = i \<longleftrightarrow> k = of_nat i" for k :: u16
  by (auto simp: message_ok_def intro!: of_nat_inverse)

lemma ii_gathers_insert:
  assumes ok: "message_ok bodies" and g: "ii_gathers ident bodies t0 S ii"
    and f: "fragment_of ident bodies f" and new: "unat (fr_number f) \<notin> S"
  shows "ii_gathers ident bodies t0 (insert (unat (fr_number f)) S) (ii_insert ii f)"
proof -
  have inv: "bt_inv (ii_fragments ii)" and fin: "finite S"
    using g finite_subset [of S "{..<length bodies}"] by (auto simp: ii_gathers_def)
  have last: "unat (fr_number f) = length bodies - 1 \<longleftrightarrow> fr_number f = of_nat (length bodies - 1)"
    using ok by (intro unat_number_eq_iff) (auto simp: message_ok_def)
  have "fr_is_final f \<longleftrightarrow> unat (fr_number f) = length bodies - 1"
    using f ok by (auto simp: fragment_of_def message_ok_def)
  then show ?thesis
    using f g new fin last
    by (auto simp: ii_gathers_def fragment_of_def btree_simps [OF inv] btree.wf_put [OF inv]
        word_unat_eq_iff)
qed

lemma ii_gathers_classify:
  assumes ok: "message_ok bodies" and g: "ii_gathers ident bodies t0 S ii"
    and f: "fragment_of ident bodies f"
  shows "ii_classify ii f = Inr (if unat (fr_number f) \<in> S then InsertKind.Duplicate else New)"
proof (cases "unat (fr_number f) \<in> S")
  case True
  then show ?thesis using f g by (simp add: ii_classify_def ii_gathers_def fragment_of_def)
next
  case False
  let ?n = "length bodies"
  have lt: "unat (of_nat (?n - 1) :: u16) = ?n - 1"
    using ok by (intro of_nat_inverse [OF refl]) (auto simp: message_ok_def)
  have "\<not> fr_number f > of_nat (?n - 1)"
    using f unfolding fragment_of_def word_less_nat_alt lt by linarith
  moreover have "\<not> l > fr_number f"
    if "bt_last_key_value (ii_fragments ii) = Some (l, v)" and "fr_is_final f" for l v
  proof -
    have "unat l \<in> S"
      using bt_last_key(1) [OF _ that(1)] g by (auto simp: ii_gathers_def split: if_splits)
    then have "unat l < ?n" using g by (auto simp: ii_gathers_def)
    then show ?thesis using that(2) f by (auto simp: word_less_nat_alt fragment_of_def)
  qed
  moreover have "ii_final_number ii = None" if "fr_is_final f"
  proof -
    have "?n - 1 = unat (fr_number f)" using that f by (auto simp: fragment_of_def)
    with False g show ?thesis by (simp add: ii_gathers_def)
  qed
  ultimately show ?thesis
    using False f g by (auto simp: ii_classify_def ii_gathers_def split: option.splits)
qed

lemma ii_gathers_complete:
  assumes ok: "message_ok bodies" and g: "ii_gathers ident bodies t0 S ii"
  shows "ii_is_complete ii \<longleftrightarrow> S = {..<length bodies}"
    and "S = {..<length bodies} \<Longrightarrow> ii_assemble ii = concat bodies"
proof -
  let ?n = "length bodies"
  have inv: "bt_inv (ii_fragments ii)" using g by (simp add: ii_gathers_def)
  have n: "0 < ?n" "?n \<le> 749" using ok by (auto simp: message_ok_def)
  have u: "unat (of_nat i :: u16) = i" if "i < ?n" for i
    using n that by (intro of_nat_inverse [OF refl]) simp
  have dom: "dom (bt_get (ii_fragments ii)) = {k. unat k \<in> S}"
    using g by (auto simp: ii_gathers_def split: if_splits)
  show iff: "ii_is_complete ii \<longleftrightarrow> S = {..<?n}"
  proof (cases "?n - 1 \<in> S")
    case True
    then have f: "ii_final_number ii = Some (of_nat (?n - 1))" using g by (simp add: ii_gathers_def)
    have "{k. unat k \<in> S} = {k. k \<le> (of_nat (?n - 1) :: u16)} \<longleftrightarrow> S = {..<?n}"
    proof
      assume eq: "{k. unat k \<in> S} = {k. k \<le> (of_nat (?n - 1) :: u16)}"
      have "i \<in> S" if i: "i < ?n" for i
      proof -
        have "(of_nat i :: u16) \<in> {k. k \<le> of_nat (?n - 1)}"
          unfolding mem_Collect_eq word_le_nat_alt using u [OF i] u [of "?n - 1"] n i by linarith
        then show ?thesis unfolding eq [symmetric] mem_Collect_eq u [OF i] .
      qed
      then show "S = {..<?n}" using g by (auto simp: ii_gathers_def)
    qed (use n u [of "?n - 1"] in \<open>auto simp: word_le_nat_alt Suc_le_eq [symmetric]\<close>)
    then show ?thesis by (simp add: ii_is_complete_iff [OF inv f] dom)
  next
    case False
    moreover have "?n - 1 \<in> {..<?n}" using n by simp
    ultimately show ?thesis using g by (auto simp: ii_is_complete_def ii_gathers_def)
  qed
  assume S: "S = {..<?n}"
  then have f: "ii_final_number ii = Some (of_nat (?n - 1))" using g n by (simp add: ii_gathers_def)
  have "bt_keys (ii_fragments ii) = map of_nat [0..<?n]"
    using iff S f u [of "?n - 1"] n by (simp add: ii_is_complete_def del: upt_Suc)
  then have "bt_values (ii_fragments ii) = map (\<lambda>i. the (bt_get (ii_fragments ii) (of_nat i))) [0..<?n]"
    by (simp add: btree.vals_eq [OF inv])
  also have "map sf_body \<dots> = map ((!) bodies) [0..<?n]"
    using g S u by (auto simp: ii_gathers_def)
  finally show "ii_assemble ii = concat bodies" by (simp add: ii_assemble_def map_nth)
qed

text \<open>The reassembler between fragments of a message: nothing stored yet, or the pieces in \<open>S\<close>.\<close>

definition ra_gathers :: "u64 \<Rightarrow> bytes list \<Rightarrow> u64 \<Rightarrow> nat set \<Rightarrow> FragmentReassembler \<Rightarrow> bool"
  where "ra_gathers ident bodies t0 S ra \<longleftrightarrow>
    S \<subset> {..<length bodies}
    \<and> (case ra_incomplete ra of
         None \<Rightarrow> S = {}
       | Some ii \<Rightarrow> S \<noteq> {} \<and> ii_gathers ident bodies t0 S ii)"

abbreviation push_at :: "FragmentReassembler \<Rightarrow> u64 \<times> Fragment \<Rightarrow> (ReassemblyError, ReassemblyOutcome, FragmentReassembler) outcome"
  where "push_at ra p \<equiv> ra_push ra (fst p) (snd p)"

lemma ra_push_in_time:
  assumes g: "ra_gathers ident bodies t0 S ra" and now: "ra_last_observed_ms ra \<le> now"
    and life: "unat now < unat t0 + 10000" "unat t0 + 10000 < 2 ^ 64"
    and n: "unat (fr_number f) < MAX_FRAGMENTS_PER_INSTRUCTION"
  shows "ra_push ra now f =
    (let ra = ra\<lparr>ra_last_observed_ms := now\<rparr> in
     case ra_incomplete ra of
       Some ii \<Rightarrow> if ii_identifier ii = fr_identifier f then ra_push_next ra ii f else ra_push_first ra now f
     | None \<Rightarrow> ra_push_first ra now f)"
proof -
  have obs: "ra_observe_time ra now = (Inr (), ra\<lparr>ra_last_observed_ms := now\<rparr>)"
    using now by (simp add: ra_observe_time_def)
  have ch: "checked_add t0 10000 = Some (t0 + 10000)" and "\<not> t0 + 10000 \<le> now"
    using life unat_add_no_overflow [of t0 10000] by (auto simp: checked_add_def word_le_nat_alt)
  then have "ra_expire_due (ra\<lparr>ra_last_observed_ms := now\<rparr>) now = (Inr 0, ra\<lparr>ra_last_observed_ms := now\<rparr>)"
    using g by (auto simp: ra_expire_due_def ra_gathers_def ii_gathers_def split: option.splits)
  then show ?thesis using n by (simp add: ra_push_def obs Let_def)
qed

text \<open>One push of a piece: a piece already held is a duplicate, the last missing one completes the
  message, any other is stored.\<close>

definition gather_outcome :: "bytes list \<Rightarrow> nat set \<Rightarrow> nat \<Rightarrow> ReassemblyOutcome"
  where "gather_outcome bodies S i =
    (if i \<in> S then ReassemblyOutcome.Duplicate
     else if insert i S = {..<length bodies} then Complete (concat bodies) else Pending)"

definition gathered :: "u64 \<Rightarrow> bytes list \<Rightarrow> u64 \<Rightarrow> nat set \<Rightarrow> FragmentReassembler \<Rightarrow> bool"
  where "gathered ident bodies t0 S ra \<longleftrightarrow>
    (if S = {..<length bodies} then ra_incomplete ra = None else ra_gathers ident bodies t0 S ra)"

lemma gather_bytes:
  assumes ok: "message_ok bodies" and f: "fragment_of ident bodies f"
    and S: "S \<subseteq> {..<length bodies}" and new: "unat (fr_number f) \<notin> S"
  shows "(\<Sum>j\<in>S. length (bodies ! j)) + length (fr_body f) \<le> MAX_COMPRESSED_INSTRUCTION_BYTES"
proof -
  let ?i = "unat (fr_number f)"
  have sub: "insert ?i S \<subseteq> {..<length bodies}" using S f by (auto simp: fragment_of_def)
  have "(\<Sum>j\<in>S. length (bodies ! j)) + length (fr_body f) = (\<Sum>j\<in>insert ?i S. length (bodies ! j))"
    using new f finite_subset [OF S] by (simp add: fragment_of_def)
  also have "\<dots> \<le> (\<Sum>j<length bodies. length (bodies ! j))"
    by (rule sum_mono2) (use sub in auto)
  also have "\<dots> \<le> MAX_COMPRESSED_INSTRUCTION_BYTES"
    using ok by (simp add: message_ok_def sum_list_sum_nth atLeast0LessThan)
  finally show ?thesis .
qed

lemma gather_first:
  assumes ok: "message_ok bodies" and none: "ra_incomplete ra = None" and f: "fragment_of ident bodies f"
    and obs: "ra_last_observed_ms ra = t0"
  shows "\<exists>ra'. ra_push_first ra t0 f = (Inr (gather_outcome bodies {} (unat (fr_number f))), ra')
      \<and> gathered ident bodies t0 {unat (fr_number f)} ra' \<and> ra_last_observed_ms ra' = t0"
proof -
  let ?i = "unat (fr_number f)"
  have new: "ii_gathers ident bodies t0 {?i} (ii_insert (IncompleteInstruction_new ident t0) f)"
    using ii_gathers_insert [OF ok ii_gathers_new f] by simp
  have len: "length (fr_body f) \<le> MAX_COMPRESSED_INSTRUCTION_BYTES"
    using gather_bytes [OF ok f, of "{}"] by simp
  have single: "{?i} = {..<length bodies} \<longleftrightarrow> fr_number f = 0 \<and> fr_is_final f"
  proof
    assume eq: "{?i} = {..<length bodies}"
    have "card {?i} = card {..<length bodies}" by (simp only: eq)
    then have "length bodies = 1" by simp
    then show "fr_number f = 0 \<and> fr_is_final f" using f by (simp add: fragment_of_def unat_eq_0)
  qed (use f in \<open>auto simp: fragment_of_def\<close>)
  show ?thesis
  proof (cases "fr_number f = 0 \<and> fr_is_final f")
    case True
    then have "length bodies = 1" using f by (simp add: fragment_of_def)
    then have "concat bodies = fr_body f" and "{..<length bodies} = {0}"
      using f True by (auto simp: fragment_of_def length_Suc_conv)
    with True none len obs show ?thesis
      by (simp add: ra_push_first_def gather_outcome_def gathered_def)
  next
    case False
    with single have "{?i} \<noteq> {..<length bodies}" by blast
    moreover have "{?i} \<subseteq> {..<length bodies}" using f by (simp add: fragment_of_def)
    moreover have "fr_identifier f = ident" using f by (simp add: fragment_of_def)
    ultimately show ?thesis
      using False none len obs new
      by (simp add: ra_push_first_def gather_outcome_def gathered_def ra_gathers_def psubset_eq Let_def)
  qed
qed

lemma gather_next:
  assumes ok: "message_ok bodies" and some: "ra_incomplete ra = Some ii" and f: "fragment_of ident bodies f"
    and g: "ii_gathers ident bodies t0 S ii" and S: "S \<subset> {..<length bodies}" "S \<noteq> {}"
  shows "\<exists>ra'. ra_push_next ra ii f = (Inr (gather_outcome bodies S (unat (fr_number f))), ra')
      \<and> gathered ident bodies t0 (insert (unat (fr_number f)) S) ra'
      \<and> ra_last_observed_ms ra' = ra_last_observed_ms ra"
proof (cases "unat (fr_number f) \<in> S")
  case True
  then show ?thesis
    using S some g ii_gathers_classify [OF ok g f]
    by (auto simp: ra_push_next_def gather_outcome_def gathered_def ra_gathers_def insert_absorb)
next
  case False
  let ?S = "insert (unat (fr_number f)) S"
  have ins: "ii_gathers ident bodies t0 ?S (ii_insert ii f)"
    by (rule ii_gathers_insert [OF ok g f False])
  have "?S \<subseteq> {..<length bodies}" using S f by (auto simp: fragment_of_def)
  moreover have "\<not> ii_stored_bytes ii + length (fr_body f) > MAX_COMPRESSED_INSTRUCTION_BYTES"
    using gather_bytes [OF ok f _ False] S g by (simp add: ii_gathers_def)
  ultimately show ?thesis
    using False ii_gathers_classify [OF ok g f] ins ii_gathers_complete [OF ok ins]
    by (simp add: ra_push_next_def gather_outcome_def gathered_def ra_gathers_def Let_def psubset_eq)
qed

lemma gather_push:
  assumes ok: "message_ok bodies" and g: "ra_gathers ident bodies t0 S ra" and f: "fragment_of ident bodies f"
    and now: "ra_last_observed_ms ra \<le> now" "S = {} \<Longrightarrow> now = t0"
    and life: "unat now < unat t0 + 10000" "unat t0 + 10000 < 2 ^ 64"
  shows "\<exists>ra'. ra_push ra now f = (Inr (gather_outcome bodies S (unat (fr_number f))), ra')
      \<and> gathered ident bodies t0 (insert (unat (fr_number f)) S) ra' \<and> ra_last_observed_ms ra' = now"
proof -
  have n: "unat (fr_number f) < MAX_FRAGMENTS_PER_INSTRUCTION"
    using f ok by (auto simp: fragment_of_def message_ok_def)
  note push = ra_push_in_time [OF g now(1) life n]
  show ?thesis
  proof (cases "ra_incomplete ra")
    case None
    with g have "S = {}" by (simp add: ra_gathers_def)
    with None now(2) show ?thesis
      unfolding push using gather_first [OF ok _ f, of "ra\<lparr>ra_last_observed_ms := now\<rparr>" now] by simp
  next
    case (Some ii)
    with g have gi: "S \<subset> {..<length bodies}" "S \<noteq> {}" "ii_gathers ident bodies t0 S ii"
      by (simp_all add: ra_gathers_def)
    then have "ii_identifier ii = fr_identifier f" using f by (simp add: ii_gathers_def fragment_of_def)
    then show ?thesis
      using gather_next [OF ok _ f gi(3,1,2), of "ra\<lparr>ra_last_observed_ms := now\<rparr>"] Some
      by (simp add: push)
  qed
qed

text \<open>A sequence of pushes, none of which completes the message.\<close>

abbreviation numbers :: "(u64 \<times> Fragment) list \<Rightarrow> nat set"
  where "numbers ps \<equiv> (\<lambda>p. unat (fr_number (snd p))) ` set ps"

lemma gather_run:
  assumes ok: "message_ok bodies" and life: "unat t0 + 10000 < 2 ^ 64"
  shows "ra_gathers ident bodies t0 S ra \<Longrightarrow> (S = {} \<and> ps \<noteq> [] \<Longrightarrow> fst (hd ps) = t0) \<Longrightarrow>
    sorted (ra_last_observed_ms ra # map fst ps) \<Longrightarrow>
    \<forall>p \<in> set ps. fragment_of ident bodies (snd p) \<and> unat (fst p) < unat t0 + 10000 \<Longrightarrow>
    S \<union> numbers ps \<noteq> {..<length bodies} \<Longrightarrow>
    \<exists>outs ra'. run_all push_at ra ps = (Inr outs, ra') \<and> set outs \<subseteq> {Pending, ReassemblyOutcome.Duplicate}
      \<and> ra_gathers ident bodies t0 (S \<union> numbers ps) ra'
      \<and> ra_last_observed_ms ra' = last (ra_last_observed_ms ra # map fst ps)"
proof (induction ps arbitrary: S ra)
  case Nil
  then show ?case by simp
next
  case (Cons p ps)
  let ?i = "unat (fr_number (snd p))"
  have "insert ?i S \<noteq> {..<length bodies}"
  proof
    assume eq: "insert ?i S = {..<length bodies}"
    have "S \<union> numbers (p # ps) \<subseteq> {..<length bodies}"
      using Cons.prems(1,4) by (auto simp: ra_gathers_def fragment_of_def)
    with eq Cons.prems(5) show False by auto
  qed
  moreover obtain ra' where ra': "push_at ra p = (Inr (gather_outcome bodies S ?i), ra')"
      "gathered ident bodies t0 (insert ?i S) ra'" "ra_last_observed_ms ra' = fst p"
    using gather_push [OF ok Cons.prems(1), of "snd p" "fst p"] Cons.prems(2-4) life by auto
  ultimately have g: "ra_gathers ident bodies t0 (insert ?i S) ra'" by (simp add: gathered_def)
  have "\<exists>outs ra''. run_all push_at ra' ps = (Inr outs, ra'') \<and> set outs \<subseteq> {Pending, ReassemblyOutcome.Duplicate}
      \<and> ra_gathers ident bodies t0 (insert ?i S \<union> numbers ps) ra''
      \<and> ra_last_observed_ms ra'' = last (ra_last_observed_ms ra' # map fst ps)"
    by (rule Cons.IH [OF g]) (use Cons.prems(3-5) ra'(3) in auto)
  then obtain outs ra'' where run: "run_all push_at ra' ps = (Inr outs, ra'')"
      and outs: "set outs \<subseteq> {Pending, ReassemblyOutcome.Duplicate}"
      and g'': "ra_gathers ident bodies t0 (insert ?i S \<union> numbers ps) ra''"
      and obs: "ra_last_observed_ms ra'' = last (ra_last_observed_ms ra' # map fst ps)"
    by blast
  have "gather_outcome bodies S ?i \<in> {Pending, ReassemblyOutcome.Duplicate}"
    using \<open>insert ?i S \<noteq> {..<length bodies}\<close> by (simp add: gather_outcome_def)
  then show ?case
    using run outs g'' obs ra' by (intro exI [of _ "gather_outcome bodies S ?i # outs"]) auto
qed

text \<open>All pieces in, whole message out.\<close>

lemma gather_delivers:
  fixes bodies :: "bytes list" and ps :: "(u64 \<times> Fragment) list" and p :: "u64 \<times> Fragment"
  assumes "message_ok bodies" and "ra_incomplete ra = None"
    and "sorted (ra_last_observed_ms ra # map fst (ps @ [p]))"
    and "\<forall>q \<in> set (ps @ [p]). fragment_of ident bodies (snd q)
           \<and> unat (fst q) < unat (fst (hd (ps @ [p]))) + 10000"
    and "unat (fst (hd (ps @ [p]))) + 10000 < 2 ^ 64"
    and "numbers ps \<noteq> {..<length bodies}" and "numbers (ps @ [p]) = {..<length bodies}"
  shows "\<exists>outs ra'. run_all push_at ra ps = (Inr outs, ra')
      \<and> set outs \<subseteq> {Pending, ReassemblyOutcome.Duplicate}
      \<and> fst (push_at ra' p) = Inr (Complete (concat bodies))
      \<and> ra_incomplete (snd (push_at ra' p)) = None"
proof -
  let ?t0 = "fst (hd (ps @ [p]))" and ?i = "unat (fr_number (snd p))"
  have start: "ra_gathers ident bodies ?t0 {} ra"
    using assms(1,2) by (auto simp: ra_gathers_def message_ok_def)
  have "\<exists>outs ra'. run_all push_at ra ps = (Inr outs, ra') \<and> set outs \<subseteq> {Pending, ReassemblyOutcome.Duplicate}
      \<and> ra_gathers ident bodies ?t0 ({} \<union> numbers ps) ra'
      \<and> ra_last_observed_ms ra' = last (ra_last_observed_ms ra # map fst ps)"
    by (rule gather_run [OF assms(1,5) start])
      (use assms(3,4,6) in \<open>auto simp: sorted_append hd_append\<close>)
  then obtain outs ra' where run: "run_all push_at ra ps = (Inr outs, ra')"
      "set outs \<subseteq> {Pending, ReassemblyOutcome.Duplicate}"
    and g: "ra_gathers ident bodies ?t0 (numbers ps) ra'"
    and obs: "ra_last_observed_ms ra' = last (ra_last_observed_ms ra # map fst ps)" by auto
  have le: "ra_last_observed_ms ra' \<le> fst p"
    using assms(3) obs by (auto simp: sorted_append last_map)
  have all: "insert ?i (numbers ps) = {..<length bodies}" using assms(7) by simp
  with assms(6) have new: "?i \<notin> numbers ps" by (metis insert_absorb)
  have t0: "numbers ps = {} \<Longrightarrow> fst p = ?t0" by (cases ps) auto
  have f: "fragment_of ident bodies (snd p)" "unat (fst p) < unat ?t0 + 10000" using assms(4) by auto
  obtain ra2 where "push_at ra' p = (Inr (gather_outcome bodies (numbers ps) ?i), ra2)"
    "gathered ident bodies ?t0 (insert ?i (numbers ps)) ra2"
    using gather_push [OF assms(1) g f(1) le t0 f(2) assms(5)] by blast
  with all new run show ?thesis by (simp add: gather_outcome_def gathered_def)
qed

text \<open>C4: A message cut into fragments is delivered whole exactly when its last missing fragment
  arrives. Starting with nothing stored, every sequence of pushes of its fragments, in any order and
  with any repetitions, within the ten-second lifetime and under a clock that does not go back,
  answers only Pending and Duplicate as long as some fragment is missing; the push that supplies the
  last missing one answers Complete with the concatenation of the bodies in order, and leaves nothing
  behind.\<close>

theorem reassembly_delivers:
  fixes bodies :: "bytes list" and ps :: "(u64 \<times> Fragment) list" and p :: "u64 \<times> Fragment"
  assumes "message_ok bodies" and "ra_incomplete ra = None"
    and "sorted (ra_last_observed_ms ra # map fst (ps @ [p]))"
    and "\<forall>q \<in> set (ps @ [p]). fragment_of ident bodies (snd q)
           \<and> unat (fst q) < unat (fst (hd (ps @ [p]))) + 10000"
    and "unat (fst (hd (ps @ [p]))) + 10000 < 2 ^ 64"
    and "numbers ps \<noteq> {..<length bodies}" and "numbers (ps @ [p]) = {..<length bodies}"
  shows "\<exists>outs ra'. run_all push_at ra ps = (Inr outs, ra')
      \<and> set outs \<subseteq> {Pending, ReassemblyOutcome.Duplicate}
      \<and> fst (push_at ra' p) = Inr (Complete (concat bodies))
      \<and> ra_incomplete (snd (push_at ra' p)) = None"
  by (rule gather_delivers [OF assms])

definition demo_piece :: "u16 \<Rightarrow> bool \<Rightarrow> bytes \<Rightarrow> Fragment"
  where "demo_piece number is_final body =
    \<lparr>fr_timestamp = 0, fr_timestamp_reply = None, fr_identifier = 9, fr_number = number,
     fr_is_final = is_final, fr_body = body\<rparr>"

lemma demo_numbers: "{..<Suc (Suc 0)} = {1, 0}"
  by auto

theorem reassembly_delivers_witness:
  "\<exists>outs ra'. run_all push_at (FragmentReassembler_new 5)
       [(5, demo_piece 1 True [3]), (6, demo_piece 1 True [3])] = (Inr outs, ra')
     \<and> set outs \<subseteq> {Pending, ReassemblyOutcome.Duplicate}
     \<and> fst (ra_push ra' 7 (demo_piece 0 False [1, 2])) = Inr (Complete [1, 2, 3])
     \<and> ra_incomplete (snd (ra_push ra' 7 (demo_piece 0 False [1, 2]))) = None"
  using reassembly_delivers
    [of "[[1, 2], [3]]" "FragmentReassembler_new 5"
        "[(5, demo_piece 1 True [3]), (6, demo_piece 1 True [3])]" "(7, demo_piece 0 False [1, 2])" 9]
  by (simp add: message_ok_def FragmentReassembler_new_def fragment_of_def demo_piece_def demo_numbers)

section \<open>Where assembled bytes come from\<close>

text \<open>\<open>messages\<close> gives the pieces of the message of every identifier. What the reassembler holds are pieces of the message
  of its identifier.\<close>

definition ii_from :: "bytes list \<Rightarrow> IncompleteInstruction \<Rightarrow> bool"
  where "ii_from bodies ii \<longleftrightarrow>
    bt_inv (ii_fragments ii)
    \<and> (\<forall>k sf. bt_get (ii_fragments ii) k = Some sf \<longrightarrow> unat k < length bodies \<and> sf_body sf = bodies ! unat k)
    \<and> (\<forall>k. ii_final_number ii = Some k \<longrightarrow> Suc (unat k) = length bodies)"

definition ra_from :: "(u64 \<Rightarrow> bytes list) \<Rightarrow> FragmentReassembler \<Rightarrow> bool"
  where "ra_from messages ra \<longleftrightarrow>
    (case ra_incomplete ra of None \<Rightarrow> True | Some ii \<Rightarrow> ii_from (messages (ii_identifier ii)) ii)"

lemma ii_from_insert:
  assumes "ii_from bodies ii" and "fragment_of ident bodies f"
  shows "ii_from bodies (ii_insert ii f)"
proof -
  have inv: "bt_inv (ii_fragments ii)" using assms(1) by (simp add: ii_from_def)
  show ?thesis
    using assms by (auto simp: ii_from_def fragment_of_def btree_simps [OF inv] btree.wf_put [OF inv] split: if_splits)
qed

lemma ii_from_assemble:
  assumes "ii_from bodies ii" and "ii_is_complete ii"
  shows "ii_assemble ii = concat bodies"
proof -
  obtain m where m: "ii_final_number ii = Some m" using assms(2) by (auto simp: ii_is_complete_def split: option.splits)
  have inv: "bt_inv (ii_fragments ii)" and n: "length bodies = Suc (unat m)" using assms(1) m by (auto simp: ii_from_def)
  have u: "unat (of_nat i :: u16) = i" if "i < length bodies" for i
    using n that unsigned_less [of m, where ?'a = nat] by (intro of_nat_inverse [OF refl]) simp
  have keys: "bt_keys (ii_fragments ii) = map of_nat [0..<length bodies]"
    using assms(2) m n by (simp add: ii_is_complete_def del: upt_Suc)
  have got: "sf_body (the (bt_get (ii_fragments ii) (of_nat i))) = bodies ! i" if i: "i < length bodies" for i
  proof -
    have "(of_nat i :: u16) \<in> dom (bt_get (ii_fragments ii))"
      using btree.set_keys [OF inv] keys i by auto
    then show ?thesis using assms(1) u [OF i] by (auto simp: ii_from_def)
  qed
  have "map sf_body (bt_values (ii_fragments ii)) = map ((!) bodies) [0..<length bodies]"
    by (simp add: btree.vals_eq [OF inv] keys got)
  then show ?thesis by (simp add: ii_assemble_def map_nth)
qed

lemma ra_from_new: "ra_from messages (FragmentReassembler_new t)"
  by (simp add: ra_from_def FragmentReassembler_new_def)

lemma ra_from_expire_due: "ra_from messages ra \<Longrightarrow> ra_from messages (snd (ra_expire_due ra now))"
  by (simp add: ra_from_def ra_expire_due_def Let_def split: sum.split bool.split)

lemma ra_from_expire: "ra_from messages ra \<Longrightarrow> ra_from messages (snd (ra_expire ra now))"
  using ra_from_expire_due [of messages "ra\<lparr>ra_last_observed_ms := now\<rparr>"]
  by (auto simp: ra_expire_def ra_observe_time_def ra_from_def)

text \<open>One push: what is stored stays a part of the messages, and a completed message is one of them.\<close>

definition pushed_from :: "(u64 \<Rightarrow> bytes list) \<Rightarrow> Fragment \<Rightarrow> (ReassemblyError, ReassemblyOutcome, FragmentReassembler) outcome \<Rightarrow> bool"
  where "pushed_from messages f r \<longleftrightarrow>
    ra_from messages (snd r) \<and> (\<forall>whole. fst r = Inr (Complete whole) \<longrightarrow> whole = concat (messages (fr_identifier f)))"

lemma push_first_from:
  assumes "ra_from messages ra" and f: "fragment_of (fr_identifier f) (messages (fr_identifier f)) f"
  shows "pushed_from messages f (ra_push_first ra now f)"
proof -
  have "ii_from bodies (IncompleteInstruction_new ident t)" for bodies ident t
    by (simp add: ii_from_def IncompleteInstruction_new_def)
  from ii_from_insert [OF this f] have "ii_from (messages (fr_identifier f)) (ii_insert (IncompleteInstruction_new (fr_identifier f) now) f)" .
  moreover have "concat (messages (fr_identifier f)) = fr_body f" if "fr_number f = 0" "fr_is_final f"
    using that f by (cases "messages (fr_identifier f)") (auto simp: fragment_of_def)
  ultimately show ?thesis
    using assms(1) by (auto simp: pushed_from_def ra_push_first_def ra_from_def Let_def IncompleteInstruction_new_def)
qed

lemma push_next_from:
  assumes "ii_from (messages (fr_identifier f)) ii" and "ii_identifier ii = fr_identifier f" and "ra_incomplete ra = Some ii"
    and f: "fragment_of (fr_identifier f) (messages (fr_identifier f)) f"
  shows "pushed_from messages f (ra_push_next ra ii f)"
  using ii_from_insert [OF assms(1) f] ii_from_assemble [OF ii_from_insert [OF assms(1) f]] assms(1-3)
  by (auto simp: pushed_from_def ra_push_next_def ra_from_def Let_def split: sum.split InsertKind.split)

lemma push_from:
  assumes "ra_from messages ra" and f: "fragment_of (fr_identifier f) (messages (fr_identifier f)) f"
  shows "pushed_from messages f (ra_push ra now f)"
proof -
  have ra1: "ra_from messages (ra\<lparr>ra_last_observed_ms := now\<rparr>)" using assms(1) by (simp add: ra_from_def)
  obtain r ra2 where r: "ra_expire_due (ra\<lparr>ra_last_observed_ms := now\<rparr>) now = (r, ra2)" by (rule prod.exhaust)
  have ra2: "ra_from messages ra2" using ra_from_expire_due [OF ra1, of now] r by simp
  have raised: "pushed_from messages f (Inl e, ra')" if "ra_from messages ra'" for e ra' using that by (simp add: pushed_from_def)
  have again: "pushed_from messages f (ra_push_next ra2 ii f)"
    if "ra_incomplete ra2 = Some ii" "ii_identifier ii = fr_identifier f" for ii
    using that ra2 f by (intro push_next_from) (simp_all add: ra_from_def)
  show ?thesis
    using assms(1) ra2 push_first_from [OF ra2 f, of now] again
    by (cases r) (auto simp: ra_push_def ra_observe_time_def r raised split: option.split)
qed

section \<open>Properties of the codec and of the limits\<close>

text \<open>C13: What the encoder writes, the decoder reads back: after a successful encode into a buffer, the
  written prefix decodes to the same fragment, and the rest of the buffer is untouched. The
  timestamp reply 0xFFFF is excluded because it is the wire's code for no reply.\<close>

theorem fragment_encode_decode:
  assumes "fragment_encode timestamp timestamp_reply identifier number is_final body out = (Inr n, out')"
    and "timestamp_reply \<noteq> Some NO_TIMESTAMP_REPLY"
  shows "fragment_decode (take n out') =
      Inr \<lparr>fr_timestamp = timestamp, fr_timestamp_reply = timestamp_reply, fr_identifier = identifier,
           fr_number = number, fr_is_final = is_final, fr_body = body\<rparr>
    \<and> drop n out' = drop n out \<and> length out' = length out"
  using assms fragment_encode_ok_iff [of "\<lparr>fr_timestamp = timestamp, fr_timestamp_reply = timestamp_reply,
      fr_identifier = identifier, fr_number = number, fr_is_final = is_final, fr_body = body\<rparr>" out n out']
  by (simp add: fragment_decode_image)

theorem fragment_encode_decode_witness:
  "fragment_decode (take 15 (snd (fragment_encode 7 (Some 8) 9 3 True [1] (replicate 20 0)))) =
      Inr \<lparr>fr_timestamp = 7, fr_timestamp_reply = Some 8, fr_identifier = 9, fr_number = 3,
           fr_is_final = True, fr_body = [1]\<rparr>"
proof -
  let ?r = "fragment_encode 7 (Some 8) 9 3 True [1] (replicate 20 0)"
  have "fst ?r = Inr 15"
    by (simp add: fragment_encode_def Let_def MAX_FRAGMENT_NUMBER_def FINAL_FRAGMENT_BIT_def)
  then have "?r = (Inr 15, snd ?r)" by (simp add: prod_eq_iff)
  from fragment_encode_decode [OF this] show ?thesis by simp
qed

text \<open>C14: Every datagram plaintext that decodes is the encoding of the fragment it decodes to: the wire
  format has no second spelling.\<close>

theorem fragment_decode_encode:
  assumes "fragment_decode p = Inr f" and "length p \<le> length out"
  shows "fragment_encode (fr_timestamp f) (fr_timestamp_reply f) (fr_identifier f) (fr_number f)
      (fr_is_final f) (fr_body f) out = (Inr (length p), p @ drop (length p) out)"
  using fragment_decode_okD [OF assms(1)] assms(2) by (simp add: fragment_encode_ok_iff)

theorem fragment_decode_encode_witness:
  "\<exists>f. fragment_decode (replicate 16 0) = Inr f \<and>
     fragment_encode (fr_timestamp f) (fr_timestamp_reply f) (fr_identifier f) (fr_number f)
      (fr_is_final f) (fr_body f) (replicate 20 1) = (Inr 16, replicate 16 0 @ replicate 4 1)"
proof -
  obtain f where f: "fragment_decode (replicate 16 0) = Inr f"
    by (simp add: fragment_decode_def Let_def)
  show ?thesis using f fragment_decode_encode [OF f, of "replicate 20 1"] by simp
qed

text \<open>The states a reassembler can be in: everything its operations lead to.\<close>

inductive ra_reachable :: "FragmentReassembler \<Rightarrow> bool"
  where
    reach_new: "ra_reachable (FragmentReassembler_new started_at_ms)"
  | reach_push: "ra_reachable ra \<Longrightarrow> ra_reachable (snd (ra_push ra now_ms f))"
  | reach_expire: "ra_reachable ra \<Longrightarrow> ra_reachable (snd (ra_expire ra now_ms))"
  | reach_clear: "ra_reachable ra \<Longrightarrow> ra_reachable (snd (ra_clear ra))"

lemma ra_reachable_wf: "ra_reachable ra \<Longrightarrow> ra_wf ra"
proof (induction rule: ra_reachable.induct)
  case (reach_expire ra now_ms)
  then show ?case
    unfolding ra_expire_def
    by (intro snd_and_then [where P = ra_wf] ra_wf_observe ra_wf_expire_due)
next
  case (reach_push ra now_ms f)
  then show ?case by (intro ra_wf_push)
qed (simp_all add: FragmentReassembler_new_def ra_wf_def ra_clear_def)

lemma ii_wf_length: "ii_wf ii \<Longrightarrow> length (ii_fragments ii) \<le> MAX_FRAGMENTS_PER_INSTRUCTION"
proof -
  assume wf: "ii_wf ii"
  then have inv: "bt_inv (ii_fragments ii)"
    and lt: "unat ` dom (bt_get (ii_fragments ii)) \<subseteq> {..<749}"
    by (auto simp: ii_wf_def)
  have "length (ii_fragments ii) = card (dom (bt_get (ii_fragments ii)))"
    using btree.length_keys [OF inv] by simp
  also have "\<dots> = card (unat ` dom (bt_get (ii_fragments ii)))"
    by (rule card_image [symmetric]) (simp add: inj_on_def word_unat_eq_iff)
  also have "\<dots> \<le> card {..<749::nat}" by (rule card_mono [OF _ lt]) simp
  finally show ?thesis by simp
qed

text \<open>C12: The reassembler never holds more than its limits allow. In every state its operations can
  reach there is at most one incomplete instruction; its byte counter is exactly the number of
  body bytes held and at most 1 MiB; it holds at most 749 fragments, all with numbers below 749 and
  none above the announced final one; and it is really incomplete.\<close>

theorem reassembler_within_limits:
  assumes "ra_reachable ra"
  shows "ra_stored_bytes ra \<le> MAX_COMPRESSED_INSTRUCTION_BYTES \<and>
    (case ra_incomplete ra of
       None \<Rightarrow> ra_stored_bytes ra = 0
     | Some ii \<Rightarrow>
         ra_stored_bytes ra = sum_list (map (length \<circ> sf_body) (bt_values (ii_fragments ii)))
         \<and> length (ii_fragments ii) \<le> MAX_FRAGMENTS_PER_INSTRUCTION
         \<and> (\<forall>k v. bt_get (ii_fragments ii) k = Some v \<longrightarrow>
               unat k < MAX_FRAGMENTS_PER_INSTRUCTION
               \<and> (case ii_final_number ii of None \<Rightarrow> True | Some m \<Rightarrow> k \<le> m))
         \<and> \<not> ii_is_complete ii)"
  using ra_reachable_wf [OF assms] ii_wf_length
  by (auto simp: ra_wf_def ii_wf_def ra_stored_bytes_def ii_bytes_def split: option.splits)

theorem reassembler_within_limits_witness:
  "ra_stored_bytes (snd (ra_push (FragmentReassembler_new 5) 5 (demo_piece 1 True [3])))
     \<le> MAX_COMPRESSED_INSTRUCTION_BYTES"
  using reassembler_within_limits [OF reach_push [OF reach_new]] by blast

text \<open>C28: An incomplete instruction does not outlive ten seconds. When \<open>expire\<close> succeeds at a
  time, an instruction begun ten seconds before or earlier is gone and reported as dropped, and a
  younger one is kept as it is.\<close>

theorem reassembly_expires:
  assumes "ra_expire ra now = (Inr dropped, ra')"
  shows "(case ra_incomplete ra of
       None \<Rightarrow> ra_incomplete ra' = None \<and> dropped = 0
     | Some ii \<Rightarrow>
         if unat (ii_created_at_ms ii) + 10000 \<le> unat now then ra_incomplete ra' = None \<and> dropped = 1
         else ra_incomplete ra' = Some ii \<and> dropped = 0)
    \<and> ra_last_observed_ms ra' = now"
  using assms
  by (auto simp: ra_expire_def ra_observe_time_def ra_expire_due_def Let_def checked_add_def
      word_le_nat_alt unat_add_no_overflow split: option.splits if_splits sum.splits bool.splits)

theorem reassembly_expires_witness:
  "ra_incomplete (snd (ra_expire (snd (ra_push (FragmentReassembler_new 5) 5 (demo_piece 1 True [3]))) 10005)) = None"
proof -
  let ?ra = "snd (ra_push (FragmentReassembler_new 5) 5 (demo_piece 1 True [3]))"
  have ra: "\<exists>ii. ra_incomplete ?ra = Some ii \<and> ii_created_at_ms ii = 5" and t: "ra_last_observed_ms ?ra = 5"
    by (simp_all add: ra_push_def FragmentReassembler_new_def ra_observe_time_def ra_expire_due_def
        demo_piece_def ra_push_first_def IncompleteInstruction_new_def)
  have "\<exists>d ra'. ra_expire ?ra 10005 = (Inr d, ra')"
    using ra t by (auto simp: ra_expire_def ra_observe_time_def ra_expire_due_def checked_add_def)
  then obtain d ra' where e: "ra_expire ?ra 10005 = (Inr d, ra')" by blast
  from reassembly_expires [OF e] ra e show ?thesis by auto
qed

end
