(* ===== verification/Instruction.thy ===== *)
theory Instruction
  imports Limits
begin

text \<open>
  Transport instructions and their wire form: \<open>src/instruction.rs\<close>.

  The protobuf codec (\<open>prost\<close>) and the zlib codec (\<open>miniz_oxide\<close>) are third-party code; they are
  parameters, records of the functions the source calls. What the code relies on is stated by
  \<open>prost_lawful\<close> (an encoded message decodes to itself and has the announced length),
  \<open>inflate_bounded\<close> (a call stays within the buffers it is given) and \<open>zlib_lawful\<close> (compressed
  data streams back, in pieces of any size).

  Shown here: decompression always returns, within its memory bound; an instruction that was
  encoded decodes to itself; and the client difference is encoded exactly when every operation
  and the whole are within the limits.
\<close>

section \<open>Third-party codecs\<close>

record 'm prost =
  pb_encode_to_vec :: "'m \<Rightarrow> bytes"
  pb_encoded_len :: "'m \<Rightarrow> nat"
  pb_decode :: "bytes \<Rightarrow> 'm option"

definition prost_lawful :: "'m prost \<Rightarrow> bool"
  where "prost_lawful pb \<longleftrightarrow>
    (\<forall>m. pb_encoded_len pb m = length (pb_encode_to_vec pb m)
         \<and> pb_decode pb (pb_encode_to_vec pb m) = Some m)"

datatype MZStatus = MZOk | StreamEnd | NeedDict

text \<open>The result of one call of \<open>inflate\<close>: the bytes consumed, the bytes written to the front of the
  output buffer, and the status (\<open>None\<close> is an \<open>MZError\<close>).\<close>

record StreamResult =
  bytes_consumed :: nat
  written :: bytes
  status :: "MZStatus option"

record 's zlib =
  compress_to_vec_zlib :: "bytes \<Rightarrow> u8 \<Rightarrow> bytes"
  inflate_new :: 's
  inflate :: "'s \<Rightarrow> bytes \<Rightarrow> nat \<Rightarrow> StreamResult \<times> 's"

definition inflate_bounded :: "'s zlib \<Rightarrow> bool"
  where "inflate_bounded z \<longleftrightarrow>
    (\<forall>s input room. bytes_consumed (fst (inflate z s input room)) \<le> length input
        \<and> length (written (fst (inflate z s input room))) \<le> room)"

text \<open>\<open>holds s input output\<close> says that a decompressor in state \<open>s\<close>, fed \<open>input\<close>, has \<open>output\<close> still to
  produce.\<close>

definition zlib_lawful :: "'s zlib \<Rightarrow> ('s \<Rightarrow> bytes \<Rightarrow> bytes \<Rightarrow> bool) \<Rightarrow> bool"
  where "zlib_lawful z holds \<longleftrightarrow>
    (\<forall>level output. holds (inflate_new z) (compress_to_vec_zlib z output level) output)
    \<and> (\<forall>s input output room. holds s input output \<and> 0 < room \<longrightarrow>
        (let (r, s') = inflate z s input room; n = length (written r) in
           bytes_consumed r \<le> length input \<and> n \<le> room \<and> written r = take n output
           \<and> (status r = Some StreamEnd \<and> bytes_consumed r = length input \<and> written r = output
              \<or> status r = Some MZOk \<and> (bytes_consumed r \<noteq> 0 \<or> n \<noteq> 0)
                \<and> holds s' (drop (bytes_consumed r) input) (drop n output))))"

section \<open>Data\<close>

abbreviation (input) PROTOCOL_VERSION :: u32 where "PROTOCOL_VERSION \<equiv> 2"
definition SHUTDOWN_STATE :: u64 where "SHUTDOWN_STATE = - 1"
abbreviation (input) ZLIB_LEVEL :: u8 where "ZLIB_LEVEL \<equiv> 6"
abbreviation (input) DECOMPRESSION_CHUNK_BYTES :: nat where "DECOMPRESSION_CHUNK_BYTES \<equiv> 16 * 1024"

datatype InstructionError =
    InvalidTerminalSize
  | DecodedTooLarge
  | CompressedTooLarge
  | InvalidCompression
  | TrailingCompressedData
  | InvalidMessage
  | IncompatibleVersion
  | InputTooLarge
  | TooManyClientOperations
  | StateDifferenceTooLarge

datatype ClientOperation = Input bytes | Resize u32 u32

record TransportInstruction =
  ti_protocol_version :: u32
  ti_base_state :: u64
  ti_new_state :: u64
  ti_acknowledged_state :: u64
  ti_discard_before_state :: u64
  ti_state_difference :: bytes
  ti_chaff :: bytes

record TerminalBytes =
  tb_bytes :: bytes

record TerminalSize =
  ts_columns :: u32
  ts_rows :: u32

record TerminalOperation =
  to_bytes_operation :: "TerminalBytes option"
  to_initial_size :: "TerminalSize option"

record TerminalDifference =
  td_operations :: "TerminalOperation list"

section \<open>Operations\<close>

definition is_shutdown :: "TransportInstruction \<Rightarrow> bool"
  where "is_shutdown i \<longleftrightarrow> ti_new_state i = SHUTDOWN_STATE"

definition wire_operation :: "ClientOperation \<Rightarrow> InstructionError + TerminalOperation"
  where "wire_operation operation =
    (case operation of
       Input bytes \<Rightarrow>
         if length bytes > MAX_INPUT_COMMAND_BYTES then Inl InputTooLarge
         else Inr \<lparr>to_bytes_operation = Some \<lparr>tb_bytes = bytes\<rparr>, to_initial_size = None\<rparr>
     | Resize columns rows \<Rightarrow>
         if columns = 0 \<or> columns > MAX_TERMINAL_COLUMNS \<or> rows = 0 \<or> rows > MAX_TERMINAL_ROWS
         then Inl InvalidTerminalSize
         else Inr \<lparr>to_bytes_operation = None,
                   to_initial_size = Some \<lparr>ts_columns = columns, ts_rows = rows\<rparr>\<rparr>)"

text \<open>The loop over the operations, which returns at the first error; \<open>wire\<close> is \<open>wire_operations\<close>.\<close>

fun wire_operations :: "ClientOperation list \<Rightarrow> TerminalOperation list \<Rightarrow> InstructionError + TerminalOperation list"
  where
    "wire_operations [] wire = Inr wire"
  | "wire_operations (operation # operations) wire =
       (case wire_operation operation of
          Inl e \<Rightarrow> Inl e
        | Inr w \<Rightarrow> wire_operations operations (wire @ [w]))"

definition encode_client_difference :: "TerminalDifference prost \<Rightarrow> ClientOperation list \<Rightarrow> InstructionError + bytes"
  where "encode_client_difference pb operations =
    (if length operations > MAX_CLIENT_OPERATIONS_AFTER_ACK then Inl TooManyClientOperations
     else case wire_operations operations [] of
       Inl e \<Rightarrow> Inl e
     | Inr wire \<Rightarrow>
         let difference = \<lparr>td_operations = wire\<rparr> in
         if pb_encoded_len pb difference > MAX_STATE_DIFFERENCE_BYTES then Inl StateDifferenceTooLarge
         else Inr (pb_encode_to_vec pb difference))"

definition initial_instruction :: "TerminalDifference prost \<Rightarrow> u32 \<Rightarrow> u32 \<Rightarrow> bytes \<Rightarrow> InstructionError + TransportInstruction"
  where "initial_instruction pb columns rows chaff =
    (if columns = 0 \<or> columns > MAX_TERMINAL_COLUMNS \<or> rows = 0 \<or> rows > MAX_TERMINAL_ROWS
     then Inl InvalidTerminalSize
     else case encode_client_difference pb [Resize columns rows] of
       Inl e \<Rightarrow> Inl e
     | Inr difference \<Rightarrow>
         Inr \<lparr>ti_protocol_version = PROTOCOL_VERSION, ti_base_state = 0, ti_new_state = 1,
              ti_acknowledged_state = 0, ti_discard_before_state = 0,
              ti_state_difference = difference, ti_chaff = chaff\<rparr>)"

definition encode_zlib :: "'s zlib \<Rightarrow> TransportInstruction prost \<Rightarrow> TransportInstruction \<Rightarrow> InstructionError + bytes"
  where "encode_zlib z pb i =
    (if pb_encoded_len pb i > MAX_DECOMPRESSED_INSTRUCTION_BYTES then Inl DecodedTooLarge
     else let compressed = compress_to_vec_zlib z (pb_encode_to_vec pb i) ZLIB_LEVEL in
       if length compressed > MAX_COMPRESSED_INSTRUCTION_BYTES then Inl CompressedTooLarge
       else Inr compressed)"

text \<open>The decompression loop. \<open>None\<close> is the panic of \<open>&compressed[consumed..]\<close> or
  \<open>&chunk[..bytes_written]\<close> out of range. The first conjunct of the guard repeats what the loop keeps
  true (\<open>output\<close> never exceeds the limit, so the subtraction does not underflow).\<close>

function decompress_loop :: "'s zlib \<Rightarrow> bytes \<Rightarrow> 's \<Rightarrow> nat \<Rightarrow> bytes \<Rightarrow> (InstructionError + bytes) option"
  where "decompress_loop z compressed state consumed output =
    (if length output > MAX_DECOMPRESSED_INSTRUCTION_BYTES \<or> consumed > length compressed then None
     else
       let remaining = MAX_DECOMPRESSED_INSTRUCTION_BYTES - length output;
           writable = clamp 1 DECOMPRESSION_CHUNK_BYTES remaining;
           (result, state') = inflate z state (drop consumed compressed) writable;
           consumed' = consumed + bytes_consumed result
       in if length (written result) > remaining then Some (Inl DecodedTooLarge)
          else if length (written result) > DECOMPRESSION_CHUNK_BYTES then None
          else
            let output' = output @ written result in
            case status result of
              Some StreamEnd \<Rightarrow>
                if consumed' \<noteq> length compressed then Some (Inl TrailingCompressedData)
                else Some (Inr output')
            | Some MZOk \<Rightarrow>
                if bytes_consumed result \<noteq> 0 \<or> length (written result) \<noteq> 0
                then decompress_loop z compressed state' consumed' output'
                else Some (Inl InvalidCompression)
            | Some NeedDict \<Rightarrow> Some (Inl InvalidCompression)
            | None \<Rightarrow> Some (Inl InvalidCompression))"
  by pat_completeness auto

lemma decompress_progress:
  "c \<le> l \<Longrightarrow> n \<le> m \<Longrightarrow> w \<le> m - n \<Longrightarrow> k \<noteq> 0 \<or> w \<noteq> 0 \<Longrightarrow>
     Suc l - (c + k) + (m - (n + w)) < Suc l - c + (m - n)" for c k l m n w :: nat
  by arith

termination decompress_loop
  apply (relation "measure (\<lambda>(z, compressed, state, consumed, output).
      (Suc (length compressed) - consumed) + (MAX_DECOMPRESSED_INSTRUCTION_BYTES - length output))")
   apply simp
  apply (simp only: in_measure prod.case length_append)
  apply (rule decompress_progress; simp add: not_less)
  done

declare decompress_loop.simps [simp del]

definition decompress_exact_zlib :: "'s zlib \<Rightarrow> bytes \<Rightarrow> (InstructionError + bytes) option"
  where "decompress_exact_zlib z compressed = decompress_loop z compressed (inflate_new z) 0 []"

definition decode_zlib :: "'s zlib \<Rightarrow> TransportInstruction prost \<Rightarrow> bytes \<Rightarrow> (InstructionError + TransportInstruction) option"
  where "decode_zlib z pb compressed =
    (if length compressed > MAX_COMPRESSED_INSTRUCTION_BYTES then Some (Inl CompressedTooLarge)
     else case decompress_exact_zlib z compressed of
       None \<Rightarrow> None
     | Some (Inl e) \<Rightarrow> Some (Inl e)
     | Some (Inr decoded) \<Rightarrow>
         (case pb_decode pb decoded of
            None \<Rightarrow> Some (Inl InvalidMessage)
          | Some instruction \<Rightarrow>
              if ti_protocol_version instruction \<noteq> PROTOCOL_VERSION then Some (Inl IncompatibleVersion)
              else Some (Inr instruction)))"

section \<open>Decompression\<close>

lemma decompress_loop_bounded:
  "inflate_bounded z \<Longrightarrow> length acc \<le> MAX_DECOMPRESSED_INSTRUCTION_BYTES \<Longrightarrow> consumed \<le> length compressed \<Longrightarrow>
    \<exists>r. decompress_loop z compressed state consumed acc = Some r
      \<and> (\<forall>out. r = Inr out \<longrightarrow> length out \<le> MAX_DECOMPRESSED_INSTRUCTION_BYTES)"
proof (induction z compressed state consumed acc rule: decompress_loop.induct)
  case (1 z compressed state consumed acc)
  let ?remaining = "MAX_DECOMPRESSED_INSTRUCTION_BYTES - length acc"
  let ?room = "clamp 1 DECOMPRESSION_CHUNK_BYTES ?remaining"
  obtain r s' where r: "inflate z state (drop consumed compressed) ?room = (r, s')" by fastforce
  have "?room \<le> DECOMPRESSION_CHUNK_BYTES" by (simp add: clamp_def)
  moreover have "bytes_consumed r \<le> length compressed - consumed" "length (written r) \<le> ?room"
    using "1.prems"(1) r unfolding inflate_bounded_def by (metis fst_conv length_drop)+
  ultimately have b: "consumed + bytes_consumed r \<le> length compressed"
    "\<not> length (written r) > DECOMPRESSION_CHUNK_BYTES"
    using "1.prems" by auto
  have IH: "\<exists>q. decompress_loop z compressed s' (consumed + bytes_consumed r) (acc @ written r) = Some q
      \<and> (\<forall>out. q = Inr out \<longrightarrow> length out \<le> MAX_DECOMPRESSED_INSTRUCTION_BYTES)"
    if "\<not> length (written r) > ?remaining" "status r = Some MZOk"
      "bytes_consumed r \<noteq> 0 \<or> length (written r) \<noteq> 0"
    by (rule "1.IH" [OF _ refl refl refl r [symmetric] refl _ _ refl that(2) refl that(3)])
      (use that b "1.prems" in auto)
  show ?case
    using "1.prems"(2,3) b IH r
    by (subst decompress_loop.simps) (auto simp: Let_def split: option.splits MZStatus.splits)
qed

lemma decompress_loop_errors:
  "decompress_loop z compressed state consumed acc = Some (Inl e) \<Longrightarrow>
     e \<in> {DecodedTooLarge, InvalidCompression, TrailingCompressedData}"
proof (induction z compressed state consumed acc rule: decompress_loop.induct)
  case (1 z compressed state consumed acc)
  show ?case
    using "1.prems" "1.IH" [OF _ refl refl refl _ refl _ _ refl _ refl]
    by (subst (asm) decompress_loop.simps)
      (auto simp: Let_def split: if_splits prod.splits option.splits MZStatus.splits)
qed

lemma zlib_lawful_step:
  assumes "zlib_lawful z holds" and "holds s input rest" and "0 < room" and "inflate z s input room = (r, s')"
  shows "bytes_consumed r \<le> length input \<and> length (written r) \<le> room \<and> written r = take (length (written r)) rest
    \<and> (status r = Some StreamEnd \<and> bytes_consumed r = length input \<and> written r = rest
       \<or> status r = Some MZOk \<and> (bytes_consumed r \<noteq> 0 \<or> length (written r) \<noteq> 0)
         \<and> holds s' (drop (bytes_consumed r) input) (drop (length (written r)) rest))"
proof -
  have "let (r, s') = inflate z s input room; n = length (written r) in
      bytes_consumed r \<le> length input \<and> n \<le> room \<and> written r = take n rest
      \<and> (status r = Some StreamEnd \<and> bytes_consumed r = length input \<and> written r = rest
         \<or> status r = Some MZOk \<and> (bytes_consumed r \<noteq> 0 \<or> n \<noteq> 0)
           \<and> holds s' (drop (bytes_consumed r) input) (drop n rest))"
    using assms(1-3) unfolding zlib_lawful_def by blast
  then show ?thesis by (simp add: assms(4) Let_def)
qed

lemma decompress_loop_streams:
  "zlib_lawful z holds \<Longrightarrow> holds state (drop consumed compressed) rest \<Longrightarrow> consumed \<le> length compressed \<Longrightarrow>
    length acc + length rest \<le> MAX_DECOMPRESSED_INSTRUCTION_BYTES \<Longrightarrow>
    decompress_loop z compressed state consumed acc = Some (Inr (acc @ rest))"
proof (induction z compressed state consumed acc arbitrary: rest rule: decompress_loop.induct)
  case (1 z compressed state consumed acc)
  let ?remaining = "MAX_DECOMPRESSED_INSTRUCTION_BYTES - length acc"
  let ?room = "clamp 1 DECOMPRESSION_CHUNK_BYTES ?remaining"
  obtain r s' where r: "inflate z state (drop consumed compressed) ?room = (r, s')" by fastforce
  let ?n = "length (written r)"
  have room: "0 < ?room" "?room \<le> DECOMPRESSION_CHUNK_BYTES" by (auto simp: clamp_def)
  have step: "bytes_consumed r \<le> length compressed - consumed \<and> ?n \<le> ?room \<and> written r = take ?n rest
      \<and> (status r = Some StreamEnd \<and> bytes_consumed r = length compressed - consumed \<and> written r = rest
         \<or> status r = Some MZOk \<and> (bytes_consumed r \<noteq> 0 \<or> ?n \<noteq> 0)
           \<and> holds s' (drop (bytes_consumed r) (drop consumed compressed)) (drop ?n rest))"
    using zlib_lawful_step [OF "1.prems"(1,2) room(1) r] by simp
  then have "?n \<le> length rest" by (metis length_take min.cobounded1)
  then have n: "\<not> ?n > ?remaining" "\<not> ?n > DECOMPRESSION_CHUNK_BYTES"
    using "1.prems"(4) step room by auto
  have guard: "\<not> (length acc > MAX_DECOMPRESSED_INSTRUCTION_BYTES \<or> consumed > length compressed)"
    using "1.prems"(3,4) by auto
  from step consider (ended) "status r = Some StreamEnd" "bytes_consumed r = length compressed - consumed" "written r = rest"
    | (more) "status r = Some MZOk" "bytes_consumed r \<noteq> 0 \<or> ?n \<noteq> 0"
      "holds s' (drop (bytes_consumed r) (drop consumed compressed)) (drop ?n rest)" by blast
  then show ?case
  proof cases
    case ended
    with guard n r "1.prems"(3) show ?thesis by (subst decompress_loop.simps) (simp add: Let_def)
  next
    case more
    have "decompress_loop z compressed s' (consumed + bytes_consumed r) (acc @ written r)
        = Some (Inr ((acc @ written r) @ drop ?n rest))"
      by (rule "1.IH" [OF guard refl refl refl r [symmetric] refl n refl more(1) refl more(2)])
        (use more(3) step guard n "1.prems"(1,3,4) \<open>?n \<le> length rest\<close> in \<open>auto simp: add.commute\<close>)
    moreover have "written r @ drop ?n rest = rest" using step by (metis append_take_drop_id)
    ultimately show ?thesis using more guard n r by (subst decompress_loop.simps) (simp add: Let_def)
  qed
qed

lemma decode_encode_zlib:
  assumes "prost_lawful pb" and "zlib_lawful z holds"
    and "encode_zlib z pb i = Inr compressed" and "ti_protocol_version i = PROTOCOL_VERSION"
  shows "decode_zlib z pb compressed = Some (Inr i)"
proof -
  let ?plain = "pb_encode_to_vec pb i"
  have len: "length ?plain \<le> MAX_DECOMPRESSED_INSTRUCTION_BYTES"
    and c: "compressed = compress_to_vec_zlib z ?plain 6" "length compressed \<le> MAX_COMPRESSED_INSTRUCTION_BYTES"
    using assms(1,3) by (auto simp: encode_zlib_def prost_lawful_def Let_def not_less split: if_splits)
  have "holds (inflate_new z) (drop 0 compressed) ?plain"
    using assms(2) by (simp add: c(1) zlib_lawful_def)
  then have "decompress_exact_zlib z compressed = Some (Inr ?plain)"
    unfolding decompress_exact_zlib_def
    using decompress_loop_streams [OF assms(2), of "inflate_new z" 0 compressed ?plain "[]"] len by simp
  then show ?thesis using c(2) assms(1,4) by (simp add: decode_zlib_def prost_lawful_def)
qed

text \<open>C15: An instruction that the client encodes is read back unchanged: whenever \<open>encode_zlib\<close> produces a
  compressed form of a version 2 instruction, \<open>decode_zlib\<close> accepts it and returns that instruction,
  whatever the sizes of the pieces in which the decompressor hands out the data.\<close>

theorem instruction_roundtrip:
  assumes "prost_lawful pb" and "zlib_lawful z holds"
    and "encode_zlib z pb i = Inr compressed" and "ti_protocol_version i = PROTOCOL_VERSION"
  shows "decode_zlib z pb compressed = Some (Inr i)"
  by (rule decode_encode_zlib [OF assms])

text \<open>Codecs that satisfy the laws: messages as tagged bytes, and stored (uncompressed) data.\<close>

fun demo_untag :: "bytes \<Rightarrow> bytes \<times> bytes"
  where
    "demo_untag (t # b # bs) = (let (xs, ys) = demo_untag bs in if t = 0 then (b # xs, ys) else (xs, b # ys))"
  | "demo_untag _ = ([], [])"

definition demo_prost :: "TransportInstruction prost"
  where "demo_prost =
    (let encode = (\<lambda>i. to_be_bytes 4 (ti_protocol_version i) @ to_be_bytes 8 (ti_base_state i)
           @ to_be_bytes 8 (ti_new_state i) @ to_be_bytes 8 (ti_acknowledged_state i)
           @ to_be_bytes 8 (ti_discard_before_state i)
           @ concat (map (\<lambda>b. [0, b]) (ti_state_difference i)) @ concat (map (\<lambda>b. [1, b]) (ti_chaff i)))
     in \<lparr>pb_encode_to_vec = encode, pb_encoded_len = (\<lambda>i. length (encode i)),
         pb_decode = (\<lambda>bs. let (difference, chaff) = demo_untag (drop 36 bs) in
           Some \<lparr>ti_protocol_version = from_be_bytes (slice 0 4 bs), ti_base_state = from_be_bytes (slice 4 12 bs),
             ti_new_state = from_be_bytes (slice 12 20 bs), ti_acknowledged_state = from_be_bytes (slice 20 28 bs),
             ti_discard_before_state = from_be_bytes (slice 28 36 bs),
             ti_state_difference = difference, ti_chaff = chaff\<rparr>)\<rparr>)"

definition demo_zlib :: "unit zlib"
  where "demo_zlib =
    \<lparr>compress_to_vec_zlib = (\<lambda>bs level. bs), inflate_new = (),
     inflate = (\<lambda>s input room. (\<lparr>bytes_consumed = min room (length input), written = take room input,
       status = Some (if length input \<le> room then StreamEnd else MZOk)\<rparr>, ()))\<rparr>"

lemma demo_untag_tag:
  "demo_untag (concat (map (\<lambda>b. [0, b]) xs) @ concat (map (\<lambda>b. [1, b]) ys)) = (xs, ys)"
proof -
  have "demo_untag (concat (map (\<lambda>b. [1, b]) ys)) = ([], ys)" by (induction ys) auto
  then show ?thesis by (induction xs) auto
qed

lemma demo_prost_lawful: "prost_lawful demo_prost"
  by (auto simp: prost_lawful_def demo_prost_def slice_def demo_untag_tag from_to_be_bytes_id)

lemma demo_zlib_lawful: "zlib_lawful demo_zlib (\<lambda>s input output. input = output)" "inflate_bounded demo_zlib"
  by (auto simp: zlib_lawful_def inflate_bounded_def demo_zlib_def min_def)

definition demo_instruction :: TransportInstruction
  where "demo_instruction =
    \<lparr>ti_protocol_version = 2, ti_base_state = 0, ti_new_state = 1, ti_acknowledged_state = 0,
     ti_discard_before_state = 0, ti_state_difference = [7, 8], ti_chaff = [9]\<rparr>"

theorem instruction_roundtrip_witness:
  "\<exists>compressed. encode_zlib demo_zlib demo_prost demo_instruction = Inr compressed
     \<and> decode_zlib demo_zlib demo_prost compressed = Some (Inr demo_instruction)"
proof -
  obtain c where c: "encode_zlib demo_zlib demo_prost demo_instruction = Inr c"
    by (simp add: encode_zlib_def demo_prost_def demo_zlib_def demo_instruction_def)
  show ?thesis
    using instruction_roundtrip [OF demo_prost_lawful demo_zlib_lawful(1) c] c
    by (simp add: demo_instruction_def)
qed

text \<open>C16: Decoding a compressed instruction always returns, whatever the peer sent: no index is out of
  range and the loop ends. A success had at most 1 MiB of input and at most 2 MiB of decompressed
  data, and the instruction is of protocol version 2.\<close>

theorem decode_zlib_total:
  assumes "inflate_bounded z"
  shows "\<exists>r. decode_zlib z pb compressed = Some r \<and>
    (case r of
       Inl e \<Rightarrow> e \<in> {CompressedTooLarge, DecodedTooLarge, InvalidCompression, TrailingCompressedData,
                     InvalidMessage, IncompatibleVersion}
     | Inr i \<Rightarrow> length compressed \<le> MAX_COMPRESSED_INSTRUCTION_BYTES
         \<and> ti_protocol_version i = PROTOCOL_VERSION
         \<and> (\<exists>decoded. decompress_exact_zlib z compressed = Some (Inr decoded)
              \<and> length decoded \<le> MAX_DECOMPRESSED_INSTRUCTION_BYTES \<and> pb_decode pb decoded = Some i))"
proof -
  obtain r where r: "decompress_exact_zlib z compressed = Some r"
    "\<forall>out. r = Inr out \<longrightarrow> length out \<le> MAX_DECOMPRESSED_INSTRUCTION_BYTES"
    using decompress_loop_bounded [OF assms, of "[]" 0 compressed "inflate_new z"]
    by (auto simp: decompress_exact_zlib_def)
  have "e \<in> {DecodedTooLarge, InvalidCompression, TrailingCompressedData}" if "r = Inl e" for e
    using decompress_loop_errors [of z compressed "inflate_new z" 0 "[]" e] r(1) that
    by (auto simp: decompress_exact_zlib_def)
  with r show ?thesis
    by (cases r) (auto simp: decode_zlib_def not_less split: option.splits)
qed

theorem decode_zlib_total_witness:
  "\<exists>r. decode_zlib demo_zlib demo_prost [1, 2, 3] = Some r"
  using decode_zlib_total [OF demo_zlib_lawful(2), of demo_prost "[1, 2, 3]"] by blast

section \<open>Client differences\<close>

text \<open>What the encoder accepts of one operation, and its wire form.\<close>

definition operation_ok :: "ClientOperation \<Rightarrow> bool"
  where "operation_ok operation \<longleftrightarrow>
    (case operation of
       Input bytes \<Rightarrow> length bytes \<le> MAX_INPUT_COMMAND_BYTES
     | Resize columns rows \<Rightarrow> 0 < columns \<and> columns \<le> MAX_TERMINAL_COLUMNS \<and> 0 < rows \<and> rows \<le> MAX_TERMINAL_ROWS)"

definition wire_form :: "ClientOperation \<Rightarrow> TerminalOperation"
  where "wire_form operation =
    (case operation of
       Input bytes \<Rightarrow> \<lparr>to_bytes_operation = Some \<lparr>tb_bytes = bytes\<rparr>, to_initial_size = None\<rparr>
     | Resize columns rows \<Rightarrow>
         \<lparr>to_bytes_operation = None, to_initial_size = Some \<lparr>ts_columns = columns, ts_rows = rows\<rparr>\<rparr>)"

definition operation_error :: "ClientOperation \<Rightarrow> InstructionError"
  where "operation_error operation = (case operation of Input _ \<Rightarrow> InputTooLarge | Resize _ _ \<Rightarrow> InvalidTerminalSize)"

lemma wire_operation_eq:
  "wire_operation operation =
     (if operation_ok operation then Inr (wire_form operation) else Inl (operation_error operation))"
  by (auto simp: wire_operation_def operation_ok_def wire_form_def operation_error_def not_less word_gt_0
      split: ClientOperation.splits)

lemma wire_operations_eq:
  "wire_operations operations wire =
     (case filter (\<lambda>operation. \<not> operation_ok operation) operations of
        [] \<Rightarrow> Inr (wire @ map wire_form operations)
      | bad # _ \<Rightarrow> Inl (operation_error bad))"
  by (induction operations arbitrary: wire) (auto simp: wire_operation_eq split: list.splits)

lemma wire_form_inject: "wire_form a = wire_form b \<longleftrightarrow> a = b"
  by (auto simp: wire_form_def split: ClientOperation.splits)

text \<open>C17: A client difference is encoded exactly when it has at most 4096 operations, every input is
  at most 64 KiB, every size is within 1 to 500 columns and 1 to 200 rows, and the encoding is at
  most 2 MiB; the bytes are then the protobuf encoding of the operations in order. Otherwise the
  error is the one of the first limit that is broken.\<close>

theorem encode_client_difference_eq:
  "encode_client_difference pb operations =
     (if length operations > MAX_CLIENT_OPERATIONS_AFTER_ACK then Inl TooManyClientOperations
      else case filter (\<lambda>operation. \<not> operation_ok operation) operations of
          bad # _ \<Rightarrow> Inl (operation_error bad)
        | [] \<Rightarrow>
            if pb_encoded_len pb \<lparr>td_operations = map wire_form operations\<rparr> > MAX_STATE_DIFFERENCE_BYTES
            then Inl StateDifferenceTooLarge
            else Inr (pb_encode_to_vec pb \<lparr>td_operations = map wire_form operations\<rparr>))"
  by (auto simp: encode_client_difference_def wire_operations_eq Let_def split: list.splits)

lemma encode_client_difference_okD:
  assumes "encode_client_difference pb operations = Inr bytes"
  shows "length operations \<le> MAX_CLIENT_OPERATIONS_AFTER_ACK \<and> list_all operation_ok operations
    \<and> bytes = pb_encode_to_vec pb \<lparr>td_operations = map wire_form operations\<rparr>
    \<and> pb_encoded_len pb \<lparr>td_operations = map wire_form operations\<rparr> \<le> MAX_STATE_DIFFERENCE_BYTES"
proof -
  have "list_all operation_ok operations" if "filter (\<lambda>operation. \<not> operation_ok operation) operations = []"
    using that by (auto simp: filter_empty_conv list_all_iff)
  then show ?thesis
    using assms
    by (auto simp: encode_client_difference_def wire_operations_eq Let_def not_less split: list.splits if_splits)
qed

text \<open>Different histories have different encodings: two lists of client operations that are both
  encoded to the same bytes are equal, so the server can tell every keystroke and every resize.\<close>

lemma encode_client_difference_injective:
  assumes "prost_lawful pb"
    and "encode_client_difference pb xs = Inr bytes" and "encode_client_difference pb ys = Inr bytes"
  shows "xs = ys"
proof -
  have "pb_encode_to_vec pb \<lparr>td_operations = map wire_form xs\<rparr> = pb_encode_to_vec pb \<lparr>td_operations = map wire_form ys\<rparr>"
    using encode_client_difference_okD [OF assms(2)] encode_client_difference_okD [OF assms(3)] by simp
  then have "Some \<lparr>td_operations = map wire_form xs\<rparr> = Some \<lparr>td_operations = map wire_form ys\<rparr>"
    using assms(1) unfolding prost_lawful_def by metis
  then have "map wire_form xs = map wire_form ys" by simp
  then show ?thesis by (simp add: inj_map_eq_map inj_def wire_form_inject)
qed

end
