(* ===== verification/Synchronization.thy ===== *)
theory Synchronization
  imports Instruction Contracts
begin

text \<open>
  State synchronization with the server: \<open>src/synchronization.rs\<close>.

  The sender numbers the client's states, remembers which it has sent after the last one the
  server acknowledged, and plans the next difference against a base the server can be assumed to
  have. The receiver keeps the server states that may still serve as a base. Both sides hand out
  plans that are stamped with a generation and committed later.

  Shown here: the bookkeeping of both sides is an invariant, also when plans are committed late
  or not at all; a plan is used at most once, and a fresh one never fails; acknowledgements only
  move forward and only to states that were sent; and what a committed plan leaves among the
  reference states, exactly.
\<close>

section \<open>Data\<close>

datatype SynchronizationError =
    StateNumberExhausted
  | InvalidAcknowledgement
  | IncompatibleVersion
  | InvalidStateTransition
  | InvalidThrowaway
  | InvalidRetransmissionTimeout
  | TimeMovedBackwards
  | NoNewState
  | StalePlan
  | GenerationExhausted

datatype AcknowledgementDisposition = Advanced u64 u64 | Current | Stale | Unknown

record SendPlan =
  sp_generation :: u64
  sp_base_state :: u64
  sp_target_state :: u64
  sp_acknowledged_state :: u64
  sp_throwaway_state :: u64
  sp_planned_at_ms :: u64

record SendCommit =
  sc_capacity_evicted_state :: "u64 option"

record ApplyPlan =
  ap_generation :: u64
  ap_base_state :: u64
  ap_target_state :: u64
  ap_throwaway_state :: u64
  ap_difference :: bytes
  ap_becomes_latest :: bool

datatype RemoteStateDisposition =
    Apply ApplyPlan
  | AlreadyConstructed
  | MissingReference
  | BelowThrowawayFloor
  | BelowRetentionWindow

record ReceiveTransition =
  rt_acknowledgement :: AcknowledgementDisposition
  rt_remote_state :: RemoteStateDisposition

record ShutdownTransition =
  st_base_state :: u64
  st_difference :: bytes

record ReceiveCommit =
  rc_discard_before_state :: u64
  rc_capacity_evicted_state :: "u64 option"

record SentState =
  ss_number :: u64
  ss_sent_at_ms :: u64

record SynchronizationState =
  sy_local_latest :: u64
  sy_known_receiver_state :: u64
  sy_sent_states :: "SentState list"
  sy_sender_generation :: u64
  sy_remote_latest :: u64
  sy_remote_throwaway_floor :: u64
  sy_received_states :: "u64 list"
  sy_receiver_generation :: u64

section \<open>Deques\<close>

text \<open>\<open>Iterator::position\<close>, \<open>VecDeque::insert\<close> and \<open>VecDeque::remove\<close>.\<close>

fun position :: "('a \<Rightarrow> bool) \<Rightarrow> 'a list \<Rightarrow> nat option"
  where
    "position P [] = None"
  | "position P (x # xs) = (if P x then Some 0 else map_option Suc (position P xs))"

definition insert_at :: "nat \<Rightarrow> 'a \<Rightarrow> 'a list \<Rightarrow> 'a list"
  where "insert_at i x xs = take i xs @ x # drop i xs"

definition remove_at :: "nat \<Rightarrow> 'a list \<Rightarrow> 'a option \<times> 'a list"
  where "remove_at i xs = (if i < length xs then (Some (xs ! i), take i xs @ drop (Suc i) xs) else (None, xs))"

section \<open>The sending side\<close>

definition SynchronizationState_new :: SynchronizationState
  where "SynchronizationState_new =
    \<lparr>sy_local_latest = 0, sy_known_receiver_state = 0, sy_sent_states = [], sy_sender_generation = 0,
     sy_remote_latest = 0, sy_remote_throwaway_floor = 0, sy_received_states = [0], sy_receiver_generation = 0\<rparr>"

definition latest_unacknowledged_sent_at_ms :: "SynchronizationState \<Rightarrow> u64 option"
  where "latest_unacknowledged_sent_at_ms sy =
    (if sy_sent_states sy = [] then None else Some (ss_sent_at_ms (last (sy_sent_states sy))))"

definition sent_state_sent_at_ms :: "SynchronizationState \<Rightarrow> u64 \<Rightarrow> u64 option"
  where "sent_state_sent_at_ms sy number =
    map_option ss_sent_at_ms (find (\<lambda>s. ss_number s = number) (sy_sent_states sy))"

definition advance_local :: "SynchronizationState \<Rightarrow> (SynchronizationError, u64, SynchronizationState) outcome"
  where "advance_local sy =
    (case checked_add (sy_local_latest sy) 1 of
       None \<Rightarrow> (Inl StateNumberExhausted, sy)
     | Some next_state \<Rightarrow>
         (case checked_add (sy_sender_generation sy) 1 of
            None \<Rightarrow> (Inl GenerationExhausted, sy)
          | Some next_generation \<Rightarrow>
              (Inr next_state, sy\<lparr>sy_local_latest := next_state, sy_sender_generation := next_generation\<rparr>)))"

text \<open>The loop of \<open>plan_send\<close> over the sent states, newest first.\<close>

fun plan_base :: "u64 \<Rightarrow> u64 \<Rightarrow> u64 \<Rightarrow> SentState list \<Rightarrow> SynchronizationError + u64"
  where
    "plan_base now_ms rto base_state [] = Inr base_state"
  | "plan_base now_ms rto base_state (sent # rest) =
       (case checked_sub now_ms (ss_sent_at_ms sent) of
          None \<Rightarrow> Inl TimeMovedBackwards
        | Some elapsed \<Rightarrow>
            if elapsed < rto then Inr (ss_number sent) else plan_base now_ms rto base_state rest)"

definition plan_send :: "SynchronizationState \<Rightarrow> u64 \<Rightarrow> u64 \<Rightarrow> SynchronizationError + SendPlan"
  where "plan_send sy now_ms rto =
    (if \<not> (MIN_RETRANSMISSION_TIMEOUT_MS \<le> rto \<and> rto \<le> MAX_RETRANSMISSION_TIMEOUT_MS)
     then Inl InvalidRetransmissionTimeout
     else case plan_base now_ms rto (sy_known_receiver_state sy) (rev (sy_sent_states sy)) of
       Inl e \<Rightarrow> Inl e
     | Inr base_state \<Rightarrow>
         if sy_local_latest sy \<le> base_state then Inl NoNewState
         else Inr \<lparr>sp_generation = sy_sender_generation sy, sp_base_state = base_state,
                   sp_target_state = sy_local_latest sy, sp_acknowledged_state = sy_remote_latest sy,
                   sp_throwaway_state = sy_known_receiver_state sy, sp_planned_at_ms = now_ms\<rparr>)"

definition plan_instruction :: "SendPlan \<Rightarrow> bytes \<Rightarrow> bytes \<Rightarrow> TransportInstruction"
  where "plan_instruction plan state_difference chaff =
    \<lparr>ti_protocol_version = PROTOCOL_VERSION, ti_base_state = sp_base_state plan,
     ti_new_state = sp_target_state plan, ti_acknowledged_state = sp_acknowledged_state plan,
     ti_discard_before_state = sp_throwaway_state plan, ti_state_difference = state_difference,
     ti_chaff = chaff\<rparr>"

text \<open>\<open>iter_mut().find(..)\<close> and the assignment to what it found.\<close>

fun touch_sent :: "u64 \<Rightarrow> u64 \<Rightarrow> SentState list \<Rightarrow> SentState list"
  where
    "touch_sent number sent_at_ms [] = []"
  | "touch_sent number sent_at_ms (s # ss) =
       (if ss_number s = number then s\<lparr>ss_sent_at_ms := sent_at_ms\<rparr> # ss
        else s # touch_sent number sent_at_ms ss)"

definition commit_send :: "SynchronizationState \<Rightarrow> SendPlan \<Rightarrow> (SynchronizationError, SendCommit, SynchronizationState) outcome"
  where "commit_send sy plan =
    (if sp_generation plan \<noteq> sy_sender_generation sy
        \<or> sp_target_state plan \<noteq> sy_local_latest sy
        \<or> sp_acknowledged_state plan \<noteq> sy_remote_latest sy
        \<or> sp_throwaway_state plan \<noteq> sy_known_receiver_state sy
     then (Inl StalePlan, sy)
     else case checked_add (sy_sender_generation sy) 1 of
       None \<Rightarrow> (Inl GenerationExhausted, sy)
     | Some next_generation \<Rightarrow>
         let (capacity_evicted_state, sent_states) =
           (if sp_target_state plan > sy_known_receiver_state sy then
              (if find (\<lambda>s. ss_number s = sp_target_state plan) (sy_sent_states sy) \<noteq> None
               then (None, touch_sent (sp_target_state plan) (sp_planned_at_ms plan) (sy_sent_states sy))
               else
                 let (evicted, kept) =
                   (if length (sy_sent_states sy) = MAX_SENT_STATES_AFTER_ACK
                    then (case sy_sent_states sy of [] \<Rightarrow> (None, []) | s # ss \<Rightarrow> (Some (ss_number s), ss))
                    else (None, sy_sent_states sy))
                 in (evicted, kept @ [\<lparr>ss_number = sp_target_state plan, ss_sent_at_ms = sp_planned_at_ms plan\<rparr>]))
            else (None, sy_sent_states sy))
         in (Inr \<lparr>sc_capacity_evicted_state = capacity_evicted_state\<rparr>,
             sy\<lparr>sy_sent_states := sent_states, sy_sender_generation := next_generation\<rparr>))"

definition observe_acknowledgement ::
    "SynchronizationState \<Rightarrow> u64 \<Rightarrow> (SynchronizationError, AcknowledgementDisposition, SynchronizationState) outcome"
  where "observe_acknowledgement sy acknowledgement =
    (if acknowledgement < sy_known_receiver_state sy then (Inr Stale, sy)
     else if acknowledgement = sy_known_receiver_state sy then (Inr Current, sy)
     else if \<not> list_ex (\<lambda>s. ss_number s = acknowledgement) (sy_sent_states sy) then (Inr Unknown, sy)
     else case checked_add (sy_sender_generation sy) 1 of
       None \<Rightarrow> (Inl GenerationExhausted, sy)
     | Some next_generation \<Rightarrow>
         (Inr (Advanced (sy_known_receiver_state sy) acknowledgement),
          sy\<lparr>sy_known_receiver_state := acknowledgement,
             sy_sent_states := filter (\<lambda>s. ss_number s > acknowledgement) (sy_sent_states sy),
             sy_sender_generation := next_generation\<rparr>))"

section \<open>The receiving side\<close>

definition validate_instruction :: "SynchronizationState \<Rightarrow> TransportInstruction \<Rightarrow> SynchronizationError option"
  where "validate_instruction sy i =
    (if ti_protocol_version i \<noteq> PROTOCOL_VERSION then Some SynchronizationError.IncompatibleVersion
     else if ti_acknowledged_state i > sy_local_latest sy then Some InvalidAcknowledgement
     else if ti_new_state i \<le> ti_base_state i then Some InvalidStateTransition
     else if ti_discard_before_state i > ti_base_state i then Some InvalidThrowaway
     else None)"

definition protected_floor :: "u64 list \<Rightarrow> u64 \<Rightarrow> bool"
  where "protected_floor received floor = (received \<noteq> [] \<and> hd received = floor)"

definition can_retain_received_state :: "SynchronizationState \<Rightarrow> u64 \<Rightarrow> bool"
  where "can_retain_received_state sy target_state =
    (if length (sy_received_states sy) < MAX_RECEIVED_REFERENCE_STATES then True
     else
       let first_evictable = of_bool (protected_floor (sy_received_states sy) (sy_remote_throwaway_floor sy))
       in first_evictable < length (sy_received_states sy) \<and> target_state > sy_received_states sy ! first_evictable)"

definition begin_receive ::
    "SynchronizationState \<Rightarrow> TransportInstruction \<Rightarrow> (SynchronizationError, ReceiveTransition, SynchronizationState) outcome"
  where "begin_receive sy i =
    (case validate_instruction sy i of
       Some e \<Rightarrow> (Inl e, sy)
     | None \<Rightarrow>
         and_then (observe_acknowledgement sy (ti_acknowledged_state i)) (\<lambda>acknowledgement sy.
           let remote_state =
             (if ti_new_state i < sy_remote_throwaway_floor sy \<or> ti_base_state i < sy_remote_throwaway_floor sy
              then BelowThrowawayFloor
              else if ti_new_state i \<in> set (sy_received_states sy) then AlreadyConstructed
              else if ti_base_state i \<notin> set (sy_received_states sy) then MissingReference
              else if \<not> can_retain_received_state sy (ti_new_state i) then BelowRetentionWindow
              else Apply \<lparr>ap_generation = sy_receiver_generation sy, ap_base_state = ti_base_state i,
                          ap_target_state = ti_new_state i, ap_throwaway_state = ti_discard_before_state i,
                          ap_difference = ti_state_difference i,
                          ap_becomes_latest = (ti_new_state i > sy_remote_latest sy)\<rparr>)
           in (Inr \<lparr>rt_acknowledgement = acknowledgement, rt_remote_state = remote_state\<rparr>, sy)))"

definition begin_shutdown_receive ::
    "SynchronizationState \<Rightarrow> TransportInstruction \<Rightarrow> (SynchronizationError, ShutdownTransition, SynchronizationState) outcome"
  where "begin_shutdown_receive sy i =
    (if ti_protocol_version i \<noteq> PROTOCOL_VERSION
        \<or> ti_new_state i \<noteq> SHUTDOWN_STATE
        \<or> ti_acknowledged_state i > sy_local_latest sy
        \<or> ti_discard_before_state i > ti_base_state i
        \<or> ti_base_state i < sy_remote_throwaway_floor sy
        \<or> ti_base_state i \<notin> set (sy_received_states sy)
     then (Inl InvalidStateTransition, sy)
     else and_then (observe_acknowledgement sy (ti_acknowledged_state i)) (\<lambda>_ sy.
       (Inr \<lparr>st_base_state = ti_base_state i, st_difference = ti_state_difference i\<rparr>, sy)))"

definition commit_receive :: "SynchronizationState \<Rightarrow> ApplyPlan \<Rightarrow> (SynchronizationError, ReceiveCommit, SynchronizationState) outcome"
  where "commit_receive sy plan =
    (if ap_generation plan \<noteq> sy_receiver_generation sy
        \<or> ap_base_state plan \<notin> set (sy_received_states sy)
        \<or> ap_target_state plan \<in> set (sy_received_states sy)
     then (Inl StalePlan, sy)
     else case checked_add (sy_receiver_generation sy) 1 of
       None \<Rightarrow> (Inl GenerationExhausted, sy)
     | Some next_generation \<Rightarrow>
         let sy =
               (if ap_becomes_latest plan then
                  let floor = max (sy_remote_throwaway_floor sy) (ap_throwaway_state plan)
                  in sy\<lparr>sy_remote_latest := ap_target_state plan, sy_remote_throwaway_floor := floor,
                        sy_received_states := filter (\<lambda>number. number \<ge> floor) (sy_received_states sy)\<rparr>
                else sy);
             (capacity_evicted_state, received) =
               (if length (sy_received_states sy) = MAX_RECEIVED_REFERENCE_STATES
                then remove_at (of_bool (protected_floor (sy_received_states sy) (sy_remote_throwaway_floor sy)))
                       (sy_received_states sy)
                else (None, sy_received_states sy));
             insertion_index =
               (case position (\<lambda>number. number > ap_target_state plan) received of
                  None \<Rightarrow> length received | Some k \<Rightarrow> k)
         in (Inr \<lparr>rc_discard_before_state = sy_remote_throwaway_floor sy,
                  rc_capacity_evicted_state = capacity_evicted_state\<rparr>,
             sy\<lparr>sy_received_states := insert_at insertion_index (ap_target_state plan) received,
                sy_receiver_generation := next_generation\<rparr>))"

section \<open>Ordered deques\<close>

definition insertion_index :: "'a::linorder \<Rightarrow> 'a list \<Rightarrow> nat"
  where "insertion_index x xs = (case position (\<lambda>y. y > x) xs of None \<Rightarrow> length xs | Some k \<Rightarrow> k)"

lemma insert_at_Cons [simp]:
  "insert_at 0 x xs = x # xs" "insert_at (Suc k) x (y # ys) = y # insert_at k x ys"
  by (simp_all add: insert_at_def)

lemma insertion_index_Cons [simp]:
  "insertion_index x [] = 0"
  "insertion_index x (y # ys) = (if x < y then 0 else Suc (insertion_index x ys))"
  by (auto simp: insertion_index_def split: option.splits)

lemma insert_ordered:
  assumes "sorted_wrt (<) xs" and "x \<notin> set xs"
  shows "set (insert_at (insertion_index x xs) x xs) = insert x (set xs)"
    and "length (insert_at (insertion_index x xs) x xs) = Suc (length xs)"
    and "sorted_wrt (<) (insert_at (insertion_index x xs) x xs)"
    and "last (insert_at (insertion_index x xs) x xs) = (if xs = [] then x else max x (last xs))"
proof -
  show set: "set (insert_at (insertion_index x xs) x xs) = insert x (set xs)" for xs
    by (induction xs) auto
  show "length (insert_at (insertion_index x xs) x xs) = Suc (length xs)"
    by (induction xs) auto
  show "sorted_wrt (<) (insert_at (insertion_index x xs) x xs)"
    using assms by (induction xs) (auto simp: set not_less order_less_le)
  show "last (insert_at (insertion_index x xs) x xs) = (if xs = [] then x else max x (last xs))"
    using assms
  proof (induction xs)
    case (Cons y ys)
    have "insert_at (insertion_index x ys) x ys \<noteq> []" using set [of ys] by auto
    moreover have "x < y \<Longrightarrow> ys \<noteq> [] \<Longrightarrow> x < last ys" using Cons.prems by (auto intro: order.strict_trans)
    ultimately show ?case using Cons by (auto simp: max_def)
  qed simp
qed

lemma remove_at_ordered:
  fixes xs :: "'a::linorder list"
  assumes "sorted_wrt (<) xs" and "i < length xs"
  shows "set (take i xs @ drop (Suc i) xs) = set xs - {xs ! i}"
    and "sorted_wrt (<) (take i xs @ drop (Suc i) xs)"
    and "Suc i < length xs \<Longrightarrow> last (take i xs @ drop (Suc i) xs) = last xs"
proof -
  have xs: "xs = take i xs @ xs ! i # drop (Suc i) xs" using assms(2) by (rule id_take_nth_drop)
  then have "distinct (take i xs @ xs ! i # drop (Suc i) xs)" "sorted_wrt (<) (take i xs @ xs ! i # drop (Suc i) xs)"
    using assms(1) by (simp_all add: strict_sorted_iff)
  moreover have "set xs = set (take i xs @ xs ! i # drop (Suc i) xs)" using xs by simp
  ultimately show "set (take i xs @ drop (Suc i) xs) = set xs - {xs ! i}"
    "sorted_wrt (<) (take i xs @ drop (Suc i) xs)"
    by (auto simp: sorted_wrt_append)
  show "Suc i < length xs \<Longrightarrow> last (take i xs @ drop (Suc i) xs) = last xs" by simp
qed

section \<open>The invariant\<close>

definition send_inv :: "SynchronizationState \<Rightarrow> bool"
  where "send_inv sy \<longleftrightarrow>
    sorted_wrt (<) (map ss_number (sy_sent_states sy))
    \<and> (\<forall>n \<in> ss_number ` set (sy_sent_states sy). sy_known_receiver_state sy < n \<and> n \<le> sy_local_latest sy)
    \<and> sy_known_receiver_state sy \<le> sy_local_latest sy
    \<and> length (sy_sent_states sy) \<le> MAX_SENT_STATES_AFTER_ACK"

definition receive_inv :: "SynchronizationState \<Rightarrow> bool"
  where "receive_inv sy \<longleftrightarrow>
    sorted_wrt (<) (sy_received_states sy) \<and> sy_received_states sy \<noteq> []
    \<and> length (sy_received_states sy) \<le> MAX_RECEIVED_REFERENCE_STATES
    \<and> last (sy_received_states sy) = sy_remote_latest sy
    \<and> (\<forall>n \<in> set (sy_received_states sy). sy_remote_throwaway_floor sy \<le> n)"

text \<open>What \<open>begin_receive\<close> has checked about the plan it hands out.\<close>

definition plan_fits :: "SynchronizationState \<Rightarrow> ApplyPlan \<Rightarrow> bool"
  where "plan_fits sy plan \<longleftrightarrow>
    ap_base_state plan \<in> set (sy_received_states sy) \<and> ap_target_state plan \<notin> set (sy_received_states sy)
    \<and> ap_base_state plan < ap_target_state plan \<and> ap_throwaway_state plan \<le> ap_base_state plan
    \<and> (ap_becomes_latest plan \<longleftrightarrow> ap_target_state plan > sy_remote_latest sy)
    \<and> can_retain_received_state sy (ap_target_state plan)"

lemmas sync_inv_defs = send_inv_def receive_inv_def

lemma sync_inv_new: "send_inv SynchronizationState_new" "receive_inv SynchronizationState_new"
  by (simp_all add: sync_inv_defs SynchronizationState_new_def)

lemma send_inv_cong:
  assumes "sy_sent_states sy' = sy_sent_states sy" "sy_known_receiver_state sy' = sy_known_receiver_state sy"
    "sy_local_latest sy' = sy_local_latest sy"
  shows "send_inv sy' = send_inv sy"
  using assms by (simp add: send_inv_def)

lemma send_inv_advance: "send_inv sy \<Longrightarrow> send_inv (snd (advance_local sy))"
  by (auto simp: send_inv_def advance_local_def split: option.splits
      dest!: checked_add_one_less intro: order.strict_implies_order order.trans)

lemma touch_sent_numbers [simp]: "map ss_number (touch_sent n t ss) = map ss_number ss"
  by (induction ss) auto

lemma touch_sent_set [simp]: "ss_number ` set (touch_sent n t ss) = ss_number ` set ss"
  by (metis list.set_map touch_sent_numbers)

lemma length_touch_sent [simp]: "length (touch_sent n t ss) = length ss"
  by (metis length_map touch_sent_numbers)

lemma find_None_numbers: "find (\<lambda>s. ss_number s = n) ss = None \<longleftrightarrow> n \<notin> ss_number ` set ss"
  by (auto simp: find_None_iff)

lemma commit_send_frame [simp]:
  "sy_local_latest (snd (commit_send sy plan)) = sy_local_latest sy"
  "sy_known_receiver_state (snd (commit_send sy plan)) = sy_known_receiver_state sy"
  "sy_remote_latest (snd (commit_send sy plan)) = sy_remote_latest sy"
  "sy_remote_throwaway_floor (snd (commit_send sy plan)) = sy_remote_throwaway_floor sy"
  "sy_received_states (snd (commit_send sy plan)) = sy_received_states sy"
  "sy_receiver_generation (snd (commit_send sy plan)) = sy_receiver_generation sy"
  by (auto simp: commit_send_def split: option.splits prod.splits)

lemma commit_send_errD: "commit_send sy plan = (Inl e, sy') \<Longrightarrow> sy' = sy"
  by (auto simp: commit_send_def split: option.splits prod.splits if_splits)

text \<open>What a successful \<open>commit_send\<close> does to the sent states.\<close>

text \<open>The four ways a commit succeeds: nothing new, a state sent again, a new state, and a new
  state that evicts the oldest.\<close>

lemma commit_send_cases:
  assumes inv: "send_inv sy" and ok: "commit_send sy plan = (Inr r, sy')"
  obtains (same) g where "sy_known_receiver_state sy = sy_local_latest sy" "r = \<lparr>sc_capacity_evicted_state = None\<rparr>"
      "sy' = sy\<lparr>sy_sender_generation := g\<rparr>" "sy_sender_generation sy < g"
    | (again) g where "sy_known_receiver_state sy < sy_local_latest sy" "sy_local_latest sy \<in> ss_number ` set (sy_sent_states sy)"
      "r = \<lparr>sc_capacity_evicted_state = None\<rparr>" "sy_sender_generation sy < g"
      "sy' = sy\<lparr>sy_sent_states := touch_sent (sy_local_latest sy) (sp_planned_at_ms plan) (sy_sent_states sy), sy_sender_generation := g\<rparr>"
    | (room) g where "sy_known_receiver_state sy < sy_local_latest sy" "sy_local_latest sy \<notin> ss_number ` set (sy_sent_states sy)"
      "length (sy_sent_states sy) \<noteq> 32" "r = \<lparr>sc_capacity_evicted_state = None\<rparr>" "sy_sender_generation sy < g"
      "sy' = sy\<lparr>sy_sent_states := sy_sent_states sy @ [\<lparr>ss_number = sy_local_latest sy, ss_sent_at_ms = sp_planned_at_ms plan\<rparr>],
         sy_sender_generation := g\<rparr>"
    | (full) g s ss where "sy_known_receiver_state sy < sy_local_latest sy" "sy_local_latest sy \<notin> ss_number ` set (sy_sent_states sy)"
      "sy_sent_states sy = s # ss" "length (sy_sent_states sy) = 32" "r = \<lparr>sc_capacity_evicted_state = Some (ss_number s)\<rparr>"
      "sy' = sy\<lparr>sy_sent_states := ss @ [\<lparr>ss_number = sy_local_latest sy, ss_sent_at_ms = sp_planned_at_ms plan\<rparr>],
         sy_sender_generation := g\<rparr>" "sy_sender_generation sy < g"
proof -
  let ?ss = "sy_sent_states sy" and ?t = "sy_local_latest sy" and ?k = "sy_known_receiver_state sy"
  have t: "sp_target_state plan = ?t" using ok by (auto simp: commit_send_def split: if_splits)
  obtain g where g: "checked_add (sy_sender_generation sy) 1 = Some g"
    using ok by (auto simp: commit_send_def split: option.splits if_splits)
  note gen = checked_add_one_less [OF g] and found = find_None_numbers [of ?t ?ss]
  consider "?k = ?t" | "?k < ?t" "?t \<in> ss_number ` set ?ss" | "?k < ?t" "?t \<notin> ss_number ` set ?ss" "length ?ss \<noteq> 32"
    | s ss where "?k < ?t" "?t \<notin> ss_number ` set ?ss" "?ss = s # ss" "length ?ss = 32"
    using inv by (cases ?ss) (auto simp: order_less_le send_inv_def)
  then show thesis
  proof cases
    case 1
    then show ?thesis using that(1) ok g gen by (auto simp: commit_send_def t split: if_splits)
  next
    case 2
    then show ?thesis using that(2) ok g gen found by (auto simp: commit_send_def t split: if_splits)
  next
    case 3
    then show ?thesis using that(3) ok g gen found by (auto simp: commit_send_def t split: if_splits)
  next
    case 4
    then show ?thesis using that(4) ok g gen found by (auto simp: commit_send_def t split: if_splits)
  qed
qed

lemma commit_send_okD:
  assumes inv: "send_inv sy" and ok: "commit_send sy plan = (Inr r, sy')"
  shows "sp_generation plan = sy_sender_generation sy \<and> sp_target_state plan = sy_local_latest sy
      \<and> sp_acknowledged_state plan = sy_remote_latest sy \<and> sp_throwaway_state plan = sy_known_receiver_state sy"
    and "sy_sender_generation sy < sy_sender_generation sy'"
    and "ss_number ` set (sy_sent_states sy') =
      (if sy_known_receiver_state sy < sy_local_latest sy
       then insert (sy_local_latest sy)
         (ss_number ` set (sy_sent_states sy) - (case sc_capacity_evicted_state r of None \<Rightarrow> {} | Some e \<Rightarrow> {e}))
       else ss_number ` set (sy_sent_states sy))"
    and "send_inv sy'"
    and "case sc_capacity_evicted_state r of None \<Rightarrow> True
       | Some e \<Rightarrow> e \<in> ss_number ` set (sy_sent_states sy) \<and> e < sy_local_latest sy"
proof -
  let ?ss = "sy_sent_states sy" and ?t = "sy_local_latest sy" and ?k = "sy_known_receiver_state sy"
  have bound: "\<forall>n \<in> ss_number ` set ?ss. ?k < n \<and> n \<le> ?t" and sorted: "sorted_wrt (<) (map ss_number ?ss)"
    and len: "length ?ss \<le> 32" and kt: "?k \<le> ?t"
    using inv by (simp_all add: send_inv_def)
  have lt: "\<forall>n \<in> ss_number ` set ?ss. n < ?t" if "?t \<notin> ss_number ` set ?ss" using bound that by (metis order_le_less)
  show "sp_generation plan = sy_sender_generation sy \<and> sp_target_state plan = ?t
      \<and> sp_acknowledged_state plan = sy_remote_latest sy \<and> sp_throwaway_state plan = ?k"
    using ok by (auto simp: commit_send_def split: if_splits)
  show "sy_sender_generation sy < sy_sender_generation sy'" by (rule commit_send_cases [OF inv ok]) simp_all
  show "send_inv sy'"
    by (rule commit_send_cases [OF inv ok])
       (use lt inv bound len sorted kt in \<open>auto simp: send_inv_def sorted_wrt_append\<close>)
  show "ss_number ` set (sy_sent_states sy') = (if ?k < ?t then insert ?t (ss_number ` set ?ss
         - (case sc_capacity_evicted_state r of None \<Rightarrow> {} | Some e \<Rightarrow> {e})) else ss_number ` set ?ss)"
    by (rule commit_send_cases [OF inv ok]) (use sorted in \<open>auto simp: insert_absorb\<close>)
  show "case sc_capacity_evicted_state r of None \<Rightarrow> True | Some e \<Rightarrow> e \<in> ss_number ` set ?ss \<and> e < ?t"
    by (rule commit_send_cases [OF inv ok]) (use lt in auto)
qed

text \<open>Acknowledgements move the known state forward, and only to a state that was sent.\<close>

lemma observe_acknowledgement_frame [simp]:
  "sy_local_latest (snd (observe_acknowledgement sy a)) = sy_local_latest sy"
  "sy_remote_latest (snd (observe_acknowledgement sy a)) = sy_remote_latest sy"
  "sy_remote_throwaway_floor (snd (observe_acknowledgement sy a)) = sy_remote_throwaway_floor sy"
  "sy_received_states (snd (observe_acknowledgement sy a)) = sy_received_states sy"
  "sy_receiver_generation (snd (observe_acknowledgement sy a)) = sy_receiver_generation sy"
  by (auto simp: observe_acknowledgement_def split: option.splits)

lemma observe_acknowledgement_cases:
  assumes "observe_acknowledgement sy a = (r, sy')"
  obtains (unchanged) "sy' = sy" "\<And>from to. r \<noteq> Inr (Advanced from to)"
  | (advanced) g where "r = Inr (Advanced (sy_known_receiver_state sy) a)"
      "sy_known_receiver_state sy < a" "a \<in> ss_number ` set (sy_sent_states sy)"
      "checked_add (sy_sender_generation sy) 1 = Some g"
      "sy' = sy\<lparr>sy_known_receiver_state := a, sy_sent_states := filter (\<lambda>s. ss_number s > a) (sy_sent_states sy),
                sy_sender_generation := g\<rparr>"
proof (cases "sy_known_receiver_state sy < a \<and> a \<in> ss_number ` set (sy_sent_states sy)")
  case False
  then have "sy' = sy \<and> (\<exists>d \<in> {Stale, Current, Unknown}. r = Inr d)"
    using assms by (auto simp: observe_acknowledgement_def list_ex_iff image_iff split: if_splits)
  then show thesis using unchanged by auto
next
  case True
  then have ex: "list_ex (\<lambda>s. ss_number s = a) (sy_sent_states sy)"
    and ne: "\<not> a < sy_known_receiver_state sy" "a \<noteq> sy_known_receiver_state sy"
    by (auto simp: list_ex_iff)
  show thesis
  proof (cases "checked_add (sy_sender_generation sy) 1")
    case None
    with ex ne assms have "r = Inl GenerationExhausted" "sy' = sy" by (auto simp: observe_acknowledgement_def)
    then show thesis using unchanged by simp
  next
    case (Some g)
    with ex ne assms have "r = Inr (Advanced (sy_known_receiver_state sy) a)"
      "sy' = sy\<lparr>sy_known_receiver_state := a, sy_sent_states := filter (\<lambda>s. ss_number s > a) (sy_sent_states sy),
                sy_sender_generation := g\<rparr>"
      by (auto simp: observe_acknowledgement_def)
    with True Some show thesis using advanced by blast
  qed
qed

lemma send_inv_acknowledge:
  assumes "send_inv sy"
  shows "send_inv (snd (observe_acknowledgement sy a))"
proof (cases "observe_acknowledgement sy a")
  case (Pair r sy')
  then show ?thesis
  proof (cases rule: observe_acknowledgement_cases)
    case (advanced g)
    have "length (filter (\<lambda>s. ss_number s > a) (sy_sent_states sy)) \<le> 32"
      by (rule order_trans [OF length_filter_le]) (use assms in \<open>simp add: send_inv_def\<close>)
    with advanced assms Pair show ?thesis
      by (auto simp: send_inv_def sorted_wrt_map intro: sorted_wrt_filter)
  qed (use Pair assms in simp)
qed

lemma begin_receive_state:
  "snd (begin_receive sy i) = sy \<or> snd (begin_receive sy i) = snd (observe_acknowledgement sy (ti_acknowledged_state i))"
  by (auto simp: begin_receive_def and_then_def Let_def split: option.splits prod.splits sum.splits)

lemma begin_receive_frame [simp]:
  "sy_local_latest (snd (begin_receive sy i)) = sy_local_latest sy"
  "sy_remote_latest (snd (begin_receive sy i)) = sy_remote_latest sy"
  "sy_remote_throwaway_floor (snd (begin_receive sy i)) = sy_remote_throwaway_floor sy"
  "sy_received_states (snd (begin_receive sy i)) = sy_received_states sy"
  "sy_receiver_generation (snd (begin_receive sy i)) = sy_receiver_generation sy"
  using begin_receive_state [of sy i] by (auto simp: eq_commute)

lemma begin_shutdown_receive_state:
  "snd (begin_shutdown_receive sy i) = sy
   \<or> snd (begin_shutdown_receive sy i) = snd (observe_acknowledgement sy (ti_acknowledged_state i))"
  by (auto simp: begin_shutdown_receive_def and_then_def split: prod.splits sum.splits)

lemma can_retain_cong:
  "sy_received_states sy' = sy_received_states sy \<Longrightarrow>
   sy_remote_throwaway_floor sy' = sy_remote_throwaway_floor sy \<Longrightarrow>
   can_retain_received_state sy' t = can_retain_received_state sy t"
  by (simp add: can_retain_received_state_def)

lemma plan_fits_cong:
  assumes "sy_received_states sy' = sy_received_states sy" "sy_remote_latest sy' = sy_remote_latest sy"
    "sy_remote_throwaway_floor sy' = sy_remote_throwaway_floor sy"
  shows "plan_fits sy' plan = plan_fits sy plan"
  using assms can_retain_cong [OF assms(1,3)] by (simp add: plan_fits_def)

lemma begin_receive_plan:
  assumes "begin_receive sy i = (Inr t, sy')" and "rt_remote_state t = Apply plan"
  shows "plan_fits sy' plan \<and> ap_generation plan = sy_receiver_generation sy'
    \<and> ap_base_state plan = ti_base_state i \<and> ap_target_state plan = ti_new_state i
    \<and> ap_throwaway_state plan = ti_discard_before_state i \<and> ap_difference plan = ti_state_difference i"
  using assms
  by (auto simp: begin_receive_def and_then_eq_Inr_iff Let_def validate_instruction_def plan_fits_def
      not_le not_less split: option.splits if_splits)

text \<open>What a committed plan leaves: the reference states at or above the new floor, without the one
  that had to make room, and with the new state.\<close>

definition floor_after :: "SynchronizationState \<Rightarrow> ApplyPlan \<Rightarrow> u64"
  where "floor_after sy plan =
    (if ap_becomes_latest plan then max (sy_remote_throwaway_floor sy) (ap_throwaway_state plan)
     else sy_remote_throwaway_floor sy)"

definition kept_after :: "SynchronizationState \<Rightarrow> ApplyPlan \<Rightarrow> u64 list"
  where "kept_after sy plan = filter (\<lambda>n. n \<ge> floor_after sy plan) (sy_received_states sy)"

lemma nth_le_last:
  fixes xs :: "'a::linorder list"
  assumes "sorted_wrt (<) xs" and "i < length xs"
  shows "xs ! i \<le> last xs"
proof -
  have "xs \<noteq> []" using assms(2) by auto
  then show ?thesis
    using assms sorted_nth_mono [of xs i "length xs - 1"] by (simp add: strict_sorted_iff last_conv_nth)
qed

lemma kept_after_facts:
  assumes inv: "receive_inv sy" and fits: "plan_fits sy plan"
  shows "sorted_wrt (<) (kept_after sy plan)" and "kept_after sy plan \<noteq> []"
    and "last (kept_after sy plan) = sy_remote_latest sy"
    and "length (kept_after sy plan) \<le> MAX_RECEIVED_REFERENCE_STATES"
    and "ap_base_state plan \<in> set (kept_after sy plan)"
    and "\<not> ap_becomes_latest plan \<Longrightarrow> kept_after sy plan = sy_received_states sy"
proof -
  let ?rs = "sy_received_states sy"
  have rs: "sorted_wrt (<) ?rs" "?rs \<noteq> []" "length ?rs \<le> 32" "last ?rs = sy_remote_latest sy"
    "\<forall>n \<in> set ?rs. sy_remote_throwaway_floor sy \<le> n"
    using inv by (simp_all add: receive_inv_def)
  have base: "floor_after sy plan \<le> ap_base_state plan" "ap_base_state plan \<in> set ?rs"
    using fits rs(5) by (auto simp: plan_fits_def floor_after_def)
  have "ap_base_state plan \<le> last ?rs"
    using base(2) nth_le_last [OF rs(1)] by (metis in_set_conv_nth)
  with base have top: "floor_after sy plan \<le> last ?rs" by simp
  have split: "?rs = butlast ?rs @ [last ?rs]" using rs(2) by simp
  show "sorted_wrt (<) (kept_after sy plan)" by (simp add: kept_after_def sorted_wrt_filter rs(1))
  show "ap_base_state plan \<in> set (kept_after sy plan)" using base by (simp add: kept_after_def)
  then show "kept_after sy plan \<noteq> []" by auto
  have "kept_after sy plan = filter (\<lambda>n. n \<ge> floor_after sy plan) (butlast ?rs @ [last ?rs])"
    unfolding kept_after_def using split by (rule arg_cong)
  then show "last (kept_after sy plan) = sy_remote_latest sy" using top rs(4) by simp
  show "length (kept_after sy plan) \<le> MAX_RECEIVED_REFERENCE_STATES"
    unfolding kept_after_def by (rule order_trans [OF length_filter_le rs(3)])
  show "\<not> ap_becomes_latest plan \<Longrightarrow> kept_after sy plan = ?rs"
    using rs(5) by (simp add: kept_after_def floor_after_def filter_True)
qed

text \<open>The state that makes room is older than the new one.\<close>

lemma evicted_older:
  assumes inv: "receive_inv sy" and fits: "plan_fits sy plan"
    and full: "length (kept_after sy plan) = MAX_RECEIVED_REFERENCE_STATES"
    and i: "i = of_bool (protected_floor (kept_after sy plan) (floor_after sy plan))"
  shows "kept_after sy plan ! i < ap_target_state plan"
proof -
  let ?rs = "sy_received_states sy" and ?kept = "kept_after sy plan"
  have rs: "length ?rs \<le> 32" "last ?rs = sy_remote_latest sy"
    using inv by (simp_all add: receive_inv_def)
  have kept: "?kept = ?rs"
  proof (rule ccontr)
    assume "?kept \<noteq> ?rs"
    then have "length ?kept < length ?rs"
      unfolding kept_after_def by (metis filter_True length_filter_less)
    with full rs(1) show False by simp
  qed
  have il: "i < length ?kept" using full i by simp
  show ?thesis
  proof (cases "ap_becomes_latest plan")
    case True
    have "?kept ! i \<le> last ?kept" by (rule nth_le_last [OF kept_after_facts(1) [OF inv fits] il])
    also have "\<dots> < ap_target_state plan" using kept rs(2) fits True by (simp add: plan_fits_def)
    finally show ?thesis .
  next
    case False
    have "can_retain_received_state sy (ap_target_state plan)" using fits by (simp add: plan_fits_def)
    with False full kept i show ?thesis
      by (simp add: can_retain_received_state_def floor_after_def Let_def)
  qed
qed

definition evict_index :: "u64 list \<Rightarrow> u64 \<Rightarrow> nat"
  where "evict_index received floor = of_bool (protected_floor received floor)"

lemma evict_index_le: "evict_index received floor \<le> 1"
  by (simp add: evict_index_def)

lemma evict_index_less: "length xs = 32 \<Longrightarrow> Suc (evict_index received floor) < length xs"
  using evict_index_le [of received floor] by simp

definition evicted_after :: "SynchronizationState \<Rightarrow> ApplyPlan \<Rightarrow> u64 option"
  where "evicted_after sy plan =
    (if length (kept_after sy plan) = MAX_RECEIVED_REFERENCE_STATES
     then Some (kept_after sy plan ! evict_index (kept_after sy plan) (floor_after sy plan))
     else None)"

definition room_after :: "SynchronizationState \<Rightarrow> ApplyPlan \<Rightarrow> u64 list"
  where "room_after sy plan = filter (\<lambda>n. evicted_after sy plan \<noteq> Some n) (kept_after sy plan)"

lemma filter_neq_nth:
  "distinct xs \<Longrightarrow> i < length xs \<Longrightarrow> filter (\<lambda>n. xs ! i \<noteq> n) xs = take i xs @ drop (Suc i) xs"
  by (induction xs arbitrary: i) (auto simp: less_Suc_eq_0_disj filter_id_conv nth_mem)

lemma commit_receive_eq:
  assumes inv: "receive_inv sy" and fits: "plan_fits sy plan"
    and gen: "ap_generation plan = sy_receiver_generation sy"
    and nxt: "checked_add (sy_receiver_generation sy) 1 = Some g"
  shows "commit_receive sy plan =
    (Inr \<lparr>rc_discard_before_state = floor_after sy plan, rc_capacity_evicted_state = evicted_after sy plan\<rparr>,
     sy\<lparr>sy_remote_latest := (if ap_becomes_latest plan then ap_target_state plan else sy_remote_latest sy),
        sy_remote_throwaway_floor := floor_after sy plan,
        sy_received_states :=
          insert_at (insertion_index (ap_target_state plan) (room_after sy plan)) (ap_target_state plan) (room_after sy plan),
        sy_receiver_generation := g\<rparr>)"
proof -
  note kept = kept_after_facts [OF inv fits]
  let ?i = "evict_index (kept_after sy plan) (floor_after sy plan)"
  have evict: "(if length (kept_after sy plan) = MAX_RECEIVED_REFERENCE_STATES
      then remove_at ?i (kept_after sy plan) else (None, kept_after sy plan)) = (evicted_after sy plan, room_after sy plan)"
    using filter_neq_nth [of "kept_after sy plan" ?i] kept(1)
      evict_index_less [of "kept_after sy plan" "kept_after sy plan" "floor_after sy plan"]
    by (auto simp: evicted_after_def room_after_def remove_at_def strict_sorted_iff)
  have ok: "\<not> (ap_generation plan \<noteq> sy_receiver_generation sy \<or> ap_base_state plan \<notin> set (sy_received_states sy)
      \<or> ap_target_state plan \<in> set (sy_received_states sy))"
    using gen fits by (simp add: plan_fits_def)
  have moved: "(if ap_becomes_latest plan then
        let floor = max (sy_remote_throwaway_floor sy) (ap_throwaway_state plan)
        in sy\<lparr>sy_remote_latest := ap_target_state plan, sy_remote_throwaway_floor := floor,
              sy_received_states := filter (\<lambda>number. number \<ge> floor) (sy_received_states sy)\<rparr>
      else sy)
    = sy\<lparr>sy_remote_latest := (if ap_becomes_latest plan then ap_target_state plan else sy_remote_latest sy),
         sy_remote_throwaway_floor := floor_after sy plan, sy_received_states := kept_after sy plan\<rparr>"
    using kept(6) by (cases "ap_becomes_latest plan") (simp_all add: floor_after_def kept_after_def Let_def del: max.bounded_iff)
  show ?thesis
    unfolding commit_receive_def moved evict_index_def [symmetric] if_not_P [OF ok] nxt option.case
      insertion_index_def
    by (simp add: Let_def evict cong: if_cong)
qed

lemma room_after_facts:
  assumes inv: "receive_inv sy" and fits: "plan_fits sy plan"
  shows "sorted_wrt (<) (room_after sy plan)" and "length (room_after sy plan) < MAX_RECEIVED_REFERENCE_STATES"
    and "room_after sy plan \<noteq> []" and "last (room_after sy plan) = sy_remote_latest sy"
    and "ap_target_state plan \<notin> set (room_after sy plan)"
proof -
  note kept = kept_after_facts [OF inv fits]
  let ?kept = "kept_after sy plan"
  let ?i = "evict_index ?kept (floor_after sy plan)"
  show "sorted_wrt (<) (room_after sy plan)" by (simp add: room_after_def sorted_wrt_filter kept(1))
  show "ap_target_state plan \<notin> set (room_after sy plan)"
    using fits by (auto simp: room_after_def kept_after_def plan_fits_def)
  have "length (room_after sy plan) < 32 \<and> room_after sy plan \<noteq> [] \<and> last (room_after sy plan) = last ?kept"
  proof (cases "length ?kept = 32")
    case True
    then have "room_after sy plan = take ?i ?kept @ drop (Suc ?i) ?kept"
      using filter_neq_nth [of ?kept ?i] kept(1) evict_index_less [OF True, of ?kept "floor_after sy plan"]
      by (simp add: room_after_def evicted_after_def strict_sorted_iff)
    moreover have "Suc ?i < length ?kept" by (rule evict_index_less [OF True])
    ultimately show ?thesis
      using remove_at_ordered(3) [OF kept(1), of ?i] True by auto
  next
    case False
    then show ?thesis using kept by (simp add: room_after_def evicted_after_def filter_True)
  qed
  then show "length (room_after sy plan) < MAX_RECEIVED_REFERENCE_STATES" "room_after sy plan \<noteq> []"
    "last (room_after sy plan) = sy_remote_latest sy"
    using kept(3) by simp_all
qed

lemma commit_receive_inv:
  assumes inv: "receive_inv sy" and fits: "plan_fits sy plan" and ok: "commit_receive sy plan = (Inr r, sy')"
  shows "receive_inv sy'"
    and "set (sy_received_states sy') = insert (ap_target_state plan) (set (room_after sy plan))"
    and "sy_receiver_generation sy < sy_receiver_generation sy'"
    and "rc_discard_before_state r = floor_after sy plan"
    and "rc_capacity_evicted_state r = evicted_after sy plan"
proof -
  have gen: "ap_generation plan = sy_receiver_generation sy"
    using ok by (auto simp: commit_receive_def split: if_splits)
  obtain g where g: "checked_add (sy_receiver_generation sy) 1 = Some g"
    using ok unfolding commit_receive_def by (cases "checked_add (sy_receiver_generation sy) 1") (simp_all split: if_splits)
  note eq = commit_receive_eq [OF inv fits gen g] and room = room_after_facts [OF inv fits]
  note ins = insert_ordered [OF room(1,5)]
  have res: "r = \<lparr>rc_discard_before_state = floor_after sy plan, rc_capacity_evicted_state = evicted_after sy plan\<rparr>"
    "sy_received_states sy' = insert_at (insertion_index (ap_target_state plan) (room_after sy plan))
        (ap_target_state plan) (room_after sy plan)"
    "sy_remote_throwaway_floor sy' = floor_after sy plan"
    "sy_remote_latest sy' = (if ap_becomes_latest plan then ap_target_state plan else sy_remote_latest sy)"
    "sy_receiver_generation sy' = g"
    using arg_cong [OF trans [OF eq [symmetric] ok], of snd] arg_cong [OF trans [OF eq [symmetric] ok], of fst]
    by auto
  show set: "set (sy_received_states sy') = insert (ap_target_state plan) (set (room_after sy plan))"
    using ins(1) by (simp add: res)
  have "floor_after sy plan \<le> ap_base_state plan"
    using kept_after_facts(5) [OF inv fits] by (simp add: kept_after_def)
  also have "ap_base_state plan < ap_target_state plan" using fits by (simp add: plan_fits_def)
  finally have floor: "\<forall>n \<in> set (sy_received_states sy'). floor_after sy plan \<le> n"
    unfolding set by (auto simp: room_after_def kept_after_def)
  have "last (sy_received_states sy') = sy_remote_latest sy'"
    using ins(4) room(3,4) fits unfolding res plan_fits_def by (auto simp: max_def)
  moreover have "sy_received_states sy' \<noteq> []" using set by auto
  ultimately show "receive_inv sy'"
    unfolding receive_inv_def using ins(2,3) room(2) floor by (simp add: res)
  show "sy_receiver_generation sy < sy_receiver_generation sy'"
    "rc_discard_before_state r = floor_after sy plan" "rc_capacity_evicted_state r = evicted_after sy plan"
    using checked_add_one_less [OF g] by (simp_all add: res)
qed

section \<open>Plans as one-time tokens\<close>

lemma commit_send_generation:
  assumes "commit_send sy plan = (Inr r, sy')"
  shows "sp_generation plan = sy_sender_generation sy \<and> sy_sender_generation sy < sy_sender_generation sy'"
proof -
  obtain g where g: "checked_add (sy_sender_generation sy) 1 = Some g" "sy_sender_generation sy' = g"
    "sp_generation plan = sy_sender_generation sy"
    using assms by (auto simp: commit_send_def split: if_splits option.splits prod.splits)
  then show ?thesis using checked_add_one_less [OF g(1)] by simp
qed

lemma commit_receive_generation:
  assumes "commit_receive sy plan = (Inr r, sy')"
  shows "ap_generation plan = sy_receiver_generation sy \<and> sy_receiver_generation sy < sy_receiver_generation sy'"
proof -
  obtain g where g: "checked_add (sy_receiver_generation sy) 1 = Some g" "ap_generation plan = sy_receiver_generation sy"
    using assms unfolding commit_receive_def
    by (cases "checked_add (sy_receiver_generation sy) 1") (simp_all split: if_splits)
  moreover have "sy_receiver_generation sy' = g"
    using assms g by (auto simp: commit_receive_def Let_def split: if_splits prod.splits)
  ultimately show ?thesis using checked_add_one_less [OF g(1)] by simp
qed

lemma commit_receive_sender_frame:
  "sy_sender_generation (snd (commit_receive sy plan)) = sy_sender_generation sy"
  "sy_local_latest (snd (commit_receive sy plan)) = sy_local_latest sy"
  "sy_known_receiver_state (snd (commit_receive sy plan)) = sy_known_receiver_state sy"
  "sy_sent_states (snd (commit_receive sy plan)) = sy_sent_states sy"
  by (auto simp: commit_receive_def Let_def split: option.splits prod.splits)

lemma commit_receive_errD: "commit_receive sy plan = (Inl e, sy') \<Longrightarrow> sy' = sy"
  by (auto simp: commit_receive_def Let_def split: option.splits prod.splits if_splits)

text \<open>The steps of the synchronization state, with the set of receive plans handed out so far: a
  plan may be committed at any later time, or never.\<close>

inductive sync_step :: "SynchronizationState \<times> ApplyPlan set \<Rightarrow> SynchronizationState \<times> ApplyPlan set \<Rightarrow> bool"
  where
    step_advance: "sync_step (sy, P) (snd (advance_local sy), P)"
  | step_commit_send: "sync_step (sy, P) (snd (commit_send sy plan), P)"
  | step_receive:
      "begin_receive sy i = (r, sy') \<Longrightarrow>
       sync_step (sy, P) (sy', P \<union> {plan. \<exists>t. r = Inr t \<and> rt_remote_state t = Apply plan})"
  | step_shutdown: "sync_step (sy, P) (snd (begin_shutdown_receive sy i), P)"
  | step_commit_receive: "plan \<in> P \<Longrightarrow> sync_step (sy, P) (snd (commit_receive sy plan), P)"

definition sync_reachable :: "SynchronizationState \<Rightarrow> ApplyPlan set \<Rightarrow> bool"
  where "sync_reachable sy P \<longleftrightarrow> sync_step\<^sup>*\<^sup>* (SynchronizationState_new, {}) (sy, P)"

definition sync_inv :: "SynchronizationState \<Rightarrow> ApplyPlan set \<Rightarrow> bool"
  where "sync_inv sy P \<longleftrightarrow> send_inv sy \<and> receive_inv sy
    \<and> (\<forall>plan \<in> P. ap_generation plan \<le> sy_receiver_generation sy
         \<and> (ap_generation plan = sy_receiver_generation sy \<longrightarrow> plan_fits sy plan))"

lemma sync_inv_cong_receiver:
  assumes "sync_inv sy P" and "send_inv sy'"
    and "sy_received_states sy' = sy_received_states sy" "sy_remote_latest sy' = sy_remote_latest sy"
      "sy_remote_throwaway_floor sy' = sy_remote_throwaway_floor sy"
      "sy_receiver_generation sy' = sy_receiver_generation sy"
  shows "sync_inv sy' P"
  using assms plan_fits_cong [OF assms(3,4,5)] by (simp add: sync_inv_def receive_inv_def)

lemma advance_local_frame [simp]:
  "sy_known_receiver_state (snd (advance_local sy)) = sy_known_receiver_state sy"
  "sy_sent_states (snd (advance_local sy)) = sy_sent_states sy"
  "sy_remote_latest (snd (advance_local sy)) = sy_remote_latest sy"
  "sy_remote_throwaway_floor (snd (advance_local sy)) = sy_remote_throwaway_floor sy"
  "sy_received_states (snd (advance_local sy)) = sy_received_states sy"
  "sy_receiver_generation (snd (advance_local sy)) = sy_receiver_generation sy"
  by (auto simp: advance_local_def split: option.splits)

lemma send_inv_commit_send: "send_inv sy \<Longrightarrow> send_inv (snd (commit_send sy plan))"
proof (cases "commit_send sy plan")
  case (Pair r sy')
  assume inv: "send_inv sy"
  show ?thesis
  proof (cases r)
    case (Inl e)
    then show ?thesis using commit_send_errD Pair inv by fastforce
  next
    case (Inr c)
    then show ?thesis using commit_send_okD(4) [OF inv, of plan c sy'] Pair by simp
  qed
qed

lemma sync_inv_commit_receive:
  assumes inv: "sync_inv sy P" and plan: "plan \<in> P"
  shows "sync_inv (snd (commit_receive sy plan)) P"
proof (cases "commit_receive sy plan")
  case (Pair r sy')
  show ?thesis
  proof (cases r)
    case (Inl e)
    then show ?thesis using commit_receive_errD [of sy plan e sy'] Pair inv by simp
  next
    case (Inr c)
    with Pair have ok: "commit_receive sy plan = (Inr c, sy')" by simp
    note gen = commit_receive_generation [OF ok]
    then have fits: "plan_fits sy plan" using inv plan by (simp add: sync_inv_def)
    have "receive_inv sy'" using commit_receive_inv(1) [OF _ fits ok] inv by (simp add: sync_inv_def)
    moreover have "send_inv sy'"
      using inv commit_receive_sender_frame [of sy plan] ok by (simp add: sync_inv_def send_inv_def)
    moreover have "ap_generation p < sy_receiver_generation sy'" if "p \<in> P" for p
      using inv gen that by (auto simp: sync_inv_def intro: order_le_less_trans)
    then have "ap_generation p \<le> sy_receiver_generation sy' \<and> ap_generation p \<noteq> sy_receiver_generation sy'"
      if "p \<in> P" for p
      using that by (simp add: order_less_le)
    ultimately show ?thesis using ok by (simp add: sync_inv_def)
  qed
qed

lemma sync_inv_begin_receive:
  assumes inv: "sync_inv sy P" and r: "begin_receive sy i = (r, sy')"
  shows "sync_inv sy' (P \<union> {plan. \<exists>t. r = Inr t \<and> rt_remote_state t = Apply plan})"
proof -
  have eqs: "sy_received_states sy' = sy_received_states sy" "sy_remote_latest sy' = sy_remote_latest sy"
    "sy_remote_throwaway_floor sy' = sy_remote_throwaway_floor sy" "sy_receiver_generation sy' = sy_receiver_generation sy"
    using begin_receive_frame [of sy i] r by simp_all
  have "send_inv sy" using inv by (simp add: sync_inv_def)
  then have "send_inv sy'"
    using begin_receive_state [of sy i] r send_inv_acknowledge [of sy "ti_acknowledged_state i"] by auto
  then have "sync_inv sy' P" by (rule sync_inv_cong_receiver [OF inv _ eqs])
  moreover have "ap_generation plan = sy_receiver_generation sy' \<and> plan_fits sy' plan"
    if "r = Inr t" "rt_remote_state t = Apply plan" for t plan
    using begin_receive_plan [of sy i t sy' plan] r that by simp
  ultimately show ?thesis by (auto simp: sync_inv_def)
qed

lemma sync_inv_begin_shutdown:
  assumes inv: "sync_inv sy P"
  shows "sync_inv (snd (begin_shutdown_receive sy i)) P"
proof -
  have "send_inv sy" using inv by (simp add: sync_inv_def)
  then have "sync_inv (snd (observe_acknowledgement sy (ti_acknowledged_state i))) P"
    by (intro sync_inv_cong_receiver [OF inv] send_inv_acknowledge) simp_all
  then show ?thesis using begin_shutdown_receive_state [of sy i] inv by metis
qed

lemma sync_inv_advance: "sync_inv sy P \<Longrightarrow> sync_inv (snd (advance_local sy)) P"
  by (rule sync_inv_cong_receiver) (simp_all add: sync_inv_def send_inv_advance)

lemma sync_inv_commit_send: "sync_inv sy P \<Longrightarrow> sync_inv (snd (commit_send sy plan)) P"
  by (rule sync_inv_cong_receiver) (simp_all add: sync_inv_def send_inv_commit_send)

lemma sync_step_inv: "sync_step s s' \<Longrightarrow> sync_inv (fst s) (snd s) \<Longrightarrow> sync_inv (fst s') (snd s')"
  by (induction rule: sync_step.induct)
    (simp_all add: sync_inv_advance sync_inv_commit_send sync_inv_begin_receive sync_inv_begin_shutdown
      sync_inv_commit_receive del: Un_iff)

lemma sync_reachable_inv:
  assumes "sync_reachable sy P"
  shows "sync_inv sy P"
proof -
  have "sync_step\<^sup>*\<^sup>* (SynchronizationState_new, {}) s \<Longrightarrow> sync_inv (fst s) (snd s)" for s
    by (induction rule: rtranclp_induct) (auto simp: sync_inv_def [of _ "{}"] sync_inv_new dest: sync_step_inv)
  from this [of "(sy, P)"] show ?thesis using assms by (simp add: sync_reachable_def)
qed

lemma commit_send_mono: "sy_sender_generation sy \<le> sy_sender_generation (snd (commit_send sy p))"
  using commit_send_generation [of sy p] commit_send_errD [of sy p]
  by (cases "commit_send sy p"; cases "fst (commit_send sy p)") auto

lemma commit_receive_mono: "sy_receiver_generation sy \<le> sy_receiver_generation (snd (commit_receive sy q))"
  using commit_receive_generation [of sy q] commit_receive_errD [of sy q]
  by (cases "commit_receive sy q"; cases "fst (commit_receive sy q)") auto

lemma acknowledge_generation: "sy_sender_generation sy \<le> sy_sender_generation (snd (observe_acknowledgement sy a))"
  by (auto simp: observe_acknowledgement_def split: option.splits dest: checked_add_one_less)

lemma advance_generation: "sy_sender_generation sy \<le> sy_sender_generation (snd (advance_local sy))"
  by (auto simp: advance_local_def split: option.splits dest!: checked_add_one_less)

lemma begin_generations:
  "sy_sender_generation sy \<le> sy_sender_generation (snd (begin_receive sy i))"
  "sy_sender_generation sy \<le> sy_sender_generation (snd (begin_shutdown_receive sy i))"
  "sy_receiver_generation (snd (begin_shutdown_receive sy i)) = sy_receiver_generation sy"
  using begin_receive_state [of sy i] begin_shutdown_receive_state [of sy i]
    acknowledge_generation [of sy "ti_acknowledged_state i"]
  by auto

lemma sync_step_generations:
  "sync_step s s' \<Longrightarrow> sy_sender_generation (fst s) \<le> sy_sender_generation (fst s')
     \<and> sy_receiver_generation (fst s) \<le> sy_receiver_generation (fst s')"
proof (induction rule: sync_step.induct)
  case (step_receive sy i r sy' P)
  then show ?case using begin_generations(1) [of sy i] begin_receive_frame(5) [of sy i] by simp
qed (simp_all add: commit_send_mono commit_receive_mono begin_generations advance_generation commit_receive_sender_frame)

definition sync_evolves :: "SynchronizationState \<Rightarrow> SynchronizationState \<Rightarrow> bool"
  where "sync_evolves s t \<longleftrightarrow> (\<exists>P Q. sync_step (s, P) (t, Q))"

interpretation send_plans: plan_commit sy_sender_generation sp_generation commit_send sync_evolves
  by unfold_locales (auto simp: sync_evolves_def dest: commit_send_generation sync_step_generations)

interpretation receive_plans: plan_commit sy_receiver_generation ap_generation commit_receive sync_evolves
  by unfold_locales (auto simp: sync_evolves_def dest: commit_receive_generation sync_step_generations)

lemma sync_steps_evolve: "sync_step\<^sup>*\<^sup>* s t \<Longrightarrow> sync_evolves\<^sup>*\<^sup>* (fst s) (fst t)"
proof (induction rule: rtranclp_induct)
  case (step t u)
  have "sync_evolves (fst t) (fst u)"
    using step(2) unfolding sync_evolves_def by (intro exI [of _ "snd t"] exI [of _ "snd u"]) simp
  with step(3) show ?case by (rule rtranclp.rtrancl_into_rtrancl)
qed simp

section \<open>Properties\<close>

text \<open>C18: The books of both sides are always in order. In every reachable state, with plans committed at
  any time or never: the states sent and not yet acknowledged are numbered strictly increasingly,
  after the acknowledged one and up to the latest local one, and are at most 32; the reference states
  of the server are strictly increasing, never empty, at most 32, end with the latest one, and none is
  below the throwaway floor.\<close>

theorem synchronization_invariant:
  assumes "sync_reachable sy P"
  shows "sorted_wrt (<) (map ss_number (sy_sent_states sy))
    \<and> ss_number ` set (sy_sent_states sy) \<subseteq> {sy_known_receiver_state sy<..sy_local_latest sy}
    \<and> sy_known_receiver_state sy \<le> sy_local_latest sy
    \<and> length (sy_sent_states sy) \<le> MAX_SENT_STATES_AFTER_ACK
    \<and> sorted_wrt (<) (sy_received_states sy) \<and> sy_received_states sy \<noteq> []
    \<and> length (sy_received_states sy) \<le> MAX_RECEIVED_REFERENCE_STATES
    \<and> last (sy_received_states sy) = sy_remote_latest sy
    \<and> set (sy_received_states sy) \<subseteq> {sy_remote_throwaway_floor sy..}"
  using sync_reachable_inv [OF assms] by (auto simp: sync_inv_def send_inv_def receive_inv_def)

lemma sync_reachable_advanced: "sync_reachable (snd (advance_local SynchronizationState_new)) {}"
  unfolding sync_reachable_def by (rule r_into_rtranclp) (rule step_advance)

theorem synchronization_invariant_witness:
  "last (sy_received_states (snd (advance_local SynchronizationState_new)))
     = sy_remote_latest (snd (advance_local SynchronizationState_new))"
  using synchronization_invariant [OF sync_reachable_advanced] by blast

text \<open>C22: A plan is good for one commit. Once a send plan or a receive plan has been committed, no
  later state of the synchronization accepts it again.\<close>

theorem sync_plans_used_once:
  "(commit_send s p = (Inr r, s') \<and> sync_step\<^sup>*\<^sup>* (s', P) (t, Q) \<longrightarrow> \<not> is_ok (commit_send t p))
   \<and> (commit_receive s q = (Inr c, s') \<and> sync_step\<^sup>*\<^sup>* (s', P) (t, Q) \<longrightarrow> \<not> is_ok (commit_receive t q))"
  using send_plans.committed_once [of s p r s' t] receive_plans.committed_once [of s q c s' t]
    sync_steps_evolve [of "(s', P)" "(t, Q)"]
  by auto

definition demo_receive :: TransportInstruction
  where "demo_receive =
    \<lparr>ti_protocol_version = 2, ti_base_state = 0, ti_new_state = 3, ti_acknowledged_state = 0,
     ti_discard_before_state = 0, ti_state_difference = [7], ti_chaff = []\<rparr>"

definition demo_plan :: ApplyPlan
  where "demo_plan = \<lparr>ap_generation = 0, ap_base_state = 0, ap_target_state = 3, ap_throwaway_state = 0,
    ap_difference = [7], ap_becomes_latest = True\<rparr>"

lemma demo_begin:
  "begin_receive SynchronizationState_new demo_receive =
     (Inr \<lparr>rt_acknowledgement = Current, rt_remote_state = Apply demo_plan\<rparr>, SynchronizationState_new)"
  by (simp add: begin_receive_def validate_instruction_def demo_receive_def demo_plan_def
      SynchronizationState_new_def observe_acknowledgement_def can_retain_received_state_def)

lemma demo_commit:
  "commit_receive SynchronizationState_new demo_plan =
     (Inr \<lparr>rc_discard_before_state = 0, rc_capacity_evicted_state = None\<rparr>,
      SynchronizationState_new\<lparr>sy_remote_latest := 3, sy_received_states := [0, 3], sy_receiver_generation := 1\<rparr>)"
  by (simp add: commit_receive_def demo_plan_def SynchronizationState_new_def checked_add_def insert_at_def)

theorem sync_plans_used_once_witness:
  "\<not> is_ok (commit_receive (snd (commit_receive SynchronizationState_new demo_plan)) demo_plan)"
  using sync_plans_used_once [THEN conjunct2, rule_format,
      OF conjI [OF demo_commit rtranclp.rtrancl_refl]]
  by (simp add: demo_commit)

text \<open>A second look at the same acknowledgement changes nothing.\<close>

lemma observe_acknowledgement_again:
  assumes "observe_acknowledgement sy a = (Inr d, sy')"
    and "sy_known_receiver_state sy'' = sy_known_receiver_state sy'" "sy_sent_states sy'' = sy_sent_states sy'"
  shows "\<exists>d'. observe_acknowledgement sy'' a = (Inr d', sy'')"
  using assms(1)
proof (cases rule: observe_acknowledgement_cases)
  case unchanged
  then have "\<not> (sy_known_receiver_state sy < a \<and> list_ex (\<lambda>s. ss_number s = a) (sy_sent_states sy))"
    using assms(1) by (auto simp: observe_acknowledgement_def split: if_splits option.splits)
  with unchanged assms(2,3) show ?thesis by (auto simp: observe_acknowledgement_def)
next
  case (advanced g)
  with assms(2,3) show ?thesis by (simp add: observe_acknowledgement_def)
qed

lemma begin_receive_ack:
  assumes "begin_receive sy i = (Inr t, sy')"
  shows "observe_acknowledgement sy (ti_acknowledged_state i) = (Inr (rt_acknowledgement t), sy')"
    and "validate_instruction sy i = None"
  using assms by (auto simp: begin_receive_def and_then_eq_Inr_iff Let_def split: option.splits)

text \<open>C19: A state of the server that the client decides to construct is really kept. From a reachable
  state, when \<open>begin_receive\<close> hands out a plan, committing it right away succeeds, as long as the
  generation counter is not exhausted. The reference states
  afterwards are exactly the new state and those old ones at or above the new throwaway floor, except
  the one that had to make room, which is older than the new state and leaves at most 32. The
  latest server state becomes the greater of the two, and the same instruction received again is
  recognised as already constructed.\<close>

theorem receive_commit_exact:
  assumes reach: "sync_reachable sy P" and start: "begin_receive sy i = (Inr t, sy1)"
    and plan: "rt_remote_state t = Apply plan" and gen: "sy_receiver_generation sy1 \<noteq> - 1"
  shows "\<exists>r sy2 d. commit_receive sy1 plan = (Inr r, sy2)
    \<and> set (sy_received_states sy2) = insert (ti_new_state i)
        ({n \<in> set (sy_received_states sy). rc_discard_before_state r \<le> n}
         - (case rc_capacity_evicted_state r of None \<Rightarrow> {} | Some e \<Rightarrow> {e}))
    \<and> (case rc_capacity_evicted_state r of None \<Rightarrow> True | Some e \<Rightarrow> e < ti_new_state i)
    \<and> length (sy_received_states sy2) \<le> MAX_RECEIVED_REFERENCE_STATES
    \<and> sy_remote_latest sy2 = max (sy_remote_latest sy) (ti_new_state i)
    \<and> begin_receive sy2 i =
        (Inr \<lparr>rt_acknowledgement = d, rt_remote_state = AlreadyConstructed\<rparr>, sy2)"
proof -
  have inv: "receive_inv sy1" and fits: "plan_fits sy1 plan" and pg: "ap_generation plan = sy_receiver_generation sy1"
    and target: "ap_target_state plan = ti_new_state i" "ap_base_state plan = ti_base_state i"
    using sync_inv_begin_receive [OF sync_reachable_inv [OF reach] start] begin_receive_plan [OF start plan]
    by (simp_all add: sync_inv_def)
  obtain g where g: "checked_add (sy_receiver_generation sy1) 1 = Some g"
    using gen checked_add_one_None_iff [of "sy_receiver_generation sy1"] by blast
  obtain r sy2 where c: "commit_receive sy1 plan = (Inr r, sy2)"
    using commit_receive_eq [OF inv fits pg g] by blast
  note com = commit_receive_inv [OF inv fits c]
  have same: "sy_received_states sy1 = sy_received_states sy" "sy_remote_latest sy1 = sy_remote_latest sy"
    "sy_local_latest sy1 = sy_local_latest sy"
    using begin_receive_frame [of sy i] start by simp_all
  have "set (room_after sy1 plan) = {n \<in> set (sy_received_states sy). rc_discard_before_state r \<le> n}
         - (case rc_capacity_evicted_state r of None \<Rightarrow> {} | Some e \<Rightarrow> {e})"
    by (auto simp: room_after_def kept_after_def com(4,5) same split: option.splits)
  moreover have "case rc_capacity_evicted_state r of None \<Rightarrow> True | Some e \<Rightarrow> e < ti_new_state i"
    using evicted_older [OF inv fits] unfolding com(5) target(1) [symmetric]
    by (simp add: evicted_after_def evict_index_def)
  moreover have floor: "sy_remote_throwaway_floor sy2 = floor_after sy1 plan"
      and latest: "sy_remote_latest sy2 = max (sy_remote_latest sy) (ti_new_state i)"
    using commit_receive_eq [OF inv fits pg g] c fits same target
    by (auto simp: plan_fits_def max_def)
  moreover have "floor_after sy1 plan \<le> ti_base_state i" "ti_base_state i < ti_new_state i"
    using kept_after_facts(5) [OF inv fits] fits target by (auto simp: kept_after_def plan_fits_def)
  moreover have "\<exists>d. observe_acknowledgement sy2 (ti_acknowledged_state i) = (Inr d, sy2)"
    using observe_acknowledgement_again [OF begin_receive_ack(1) [OF start]]
      commit_receive_sender_frame [of sy1 plan] c by simp
  moreover have "validate_instruction sy2 i = None"
    using begin_receive_ack(2) [OF start] commit_receive_sender_frame [of sy1 plan] c same
    by (simp add: validate_instruction_def split: if_splits)
  ultimately show ?thesis
    using c com(1,2) target unfolding receive_inv_def
    by (auto simp: begin_receive_def)
qed

lemma sync_reachable_new: "sync_reachable SynchronizationState_new {}"
  by (simp add: sync_reachable_def)

theorem receive_commit_exact_witness:
  "\<exists>r sy2. commit_receive SynchronizationState_new demo_plan = (Inr r, sy2)
     \<and> set (sy_received_states sy2) = {0, 3} \<and> sy_remote_latest sy2 = 3"
proof -
  have "sy_receiver_generation SynchronizationState_new \<noteq> - 1" by (simp add: SynchronizationState_new_def)
  from receive_commit_exact [OF sync_reachable_new demo_begin _ this, of demo_plan]
  have "\<exists>r sy2. commit_receive SynchronizationState_new demo_plan = (Inr r, sy2)
      \<and> sy_remote_latest sy2 = max 0 3"
    by (auto simp: demo_receive_def SynchronizationState_new_def)
  then show ?thesis by (auto simp: demo_commit)
qed

text \<open>C21: The server's acknowledgement is believed only for states that were sent, and never goes back.
  Receiving an instruction leaves the acknowledged state as it was, or moves it forward to the
  acknowledged number, which is one of the states sent and not yet acknowledged; the states
  waiting for acknowledgement are then exactly those after it. Nothing else about the sent states
  changes.\<close>

theorem acknowledgement_only_forward:
  assumes "snd (begin_receive sy i) = sy' \<or> snd (begin_shutdown_receive sy i) = sy'"
  shows "sy_local_latest sy' = sy_local_latest sy \<and>
    (sy_known_receiver_state sy' = sy_known_receiver_state sy \<and> sy_sent_states sy' = sy_sent_states sy
     \<or> sy_known_receiver_state sy < sy_known_receiver_state sy'
       \<and> sy_known_receiver_state sy' = ti_acknowledged_state i
       \<and> ti_acknowledged_state i \<in> ss_number ` set (sy_sent_states sy)
       \<and> sy_sent_states sy' = filter (\<lambda>s. ss_number s > ti_acknowledged_state i) (sy_sent_states sy))"
proof (cases "observe_acknowledgement sy (ti_acknowledged_state i)")
  case (Pair r sy1)
  have "sy' = sy \<or> sy' = sy1"
    using assms begin_receive_state [of sy i] begin_shutdown_receive_state [of sy i] Pair by auto
  with Pair show ?thesis
    by (cases rule: observe_acknowledgement_cases) auto
qed

definition demo_sent :: SynchronizationState
  where "demo_sent = SynchronizationState_new\<lparr>sy_local_latest := 4,
    sy_sent_states := [\<lparr>ss_number = 2, ss_sent_at_ms = 10\<rparr>, \<lparr>ss_number = 4, ss_sent_at_ms = 90\<rparr>]\<rparr>"

theorem acknowledgement_only_forward_witness:
  "sy_local_latest (snd (begin_receive demo_sent (demo_receive\<lparr>ti_acknowledged_state := 2\<rparr>))) = 4"
  using acknowledgement_only_forward [OF disjI1 [OF refl], of demo_sent "demo_receive\<lparr>ti_acknowledged_state := 2\<rparr>"]
  by (simp add: demo_sent_def)

text \<open>The base of a plan: the newest sent state that is younger than the timeout, else the
  acknowledged state.\<close>

lemma plan_base_cases:
  assumes "plan_base now rto base ss = Inr b"
  shows "(b = base \<and> (\<forall>s \<in> set ss. ss_sent_at_ms s \<le> now \<and> rto \<le> now - ss_sent_at_ms s))
    \<or> (\<exists>newer s older. ss = newer @ s # older \<and> b = ss_number s
         \<and> ss_sent_at_ms s \<le> now \<and> now - ss_sent_at_ms s < rto
         \<and> (\<forall>s' \<in> set newer. ss_sent_at_ms s' \<le> now \<and> rto \<le> now - ss_sent_at_ms s'))"
  using assms
proof (induction ss)
  case (Cons s ss)
  have le: "ss_sent_at_ms s \<le> now"
    using Cons.prems by (auto simp: checked_sub_def split: if_splits)
  show ?case
  proof (cases "now - ss_sent_at_ms s < rto")
    case True
    with Cons.prems le have "b = ss_number s" by (simp add: checked_sub_def)
    with True le show ?thesis by (intro disjI2 exI [of _ "[]"] exI [of _ s] exI [of _ ss]) simp
  next
    case False
    with Cons le have "(b = base \<and> (\<forall>s \<in> set ss. ss_sent_at_ms s \<le> now \<and> rto \<le> now - ss_sent_at_ms s))
      \<or> (\<exists>newer s older. ss = newer @ s # older \<and> b = ss_number s
         \<and> ss_sent_at_ms s \<le> now \<and> now - ss_sent_at_ms s < rto
         \<and> (\<forall>s' \<in> set newer. ss_sent_at_ms s' \<le> now \<and> rto \<le> now - ss_sent_at_ms s'))"
      by (simp add: checked_sub_def)
    then show ?thesis
    proof (elim disjE exE conjE)
      fix newer s1 older
      assume "ss = newer @ s1 # older" "b = ss_number s1" "ss_sent_at_ms s1 \<le> now" "now - ss_sent_at_ms s1 < rto"
        "\<forall>s' \<in> set newer. ss_sent_at_ms s' \<le> now \<and> rto \<le> now - ss_sent_at_ms s'"
      then show ?thesis
        using False le by (intro disjI2 exI [of _ "s # newer"] exI [of _ s1] exI [of _ older]) auto
    qed (use False le in auto)
  qed
qed simp

text \<open>C20: A send plan is built on a base the server may be assumed to have. From a reachable state, a
  plan targets the latest local state and starts strictly before it; its base is the acknowledged
  state, in which case every state sent since is at least one timeout old, or the newest sent
  state, among those not yet acknowledged, that is younger than the timeout. Committing it right away
  succeeds, as long as the generation counter is not exhausted, and the target is then among the sent states.\<close>

theorem send_plan_base:
  assumes reach: "sync_reachable sy P" and plan: "plan_send sy now rto = Inr plan"
    and gen: "sy_sender_generation sy \<noteq> - 1"
  shows "sp_target_state plan = sy_local_latest sy \<and> sp_base_state plan < sp_target_state plan
    \<and> (sp_base_state plan = sy_known_receiver_state sy
         \<and> (\<forall>s \<in> set (sy_sent_states sy). rto \<le> now - ss_sent_at_ms s)
       \<or> (\<exists>s \<in> set (sy_sent_states sy). sp_base_state plan = ss_number s \<and> now - ss_sent_at_ms s < rto
            \<and> (\<forall>s' \<in> set (sy_sent_states sy). ss_number s < ss_number s' \<longrightarrow> rto \<le> now - ss_sent_at_ms s')))
    \<and> (\<exists>r sy'. commit_send sy plan = (Inr r, sy')
         \<and> sy_local_latest sy \<in> ss_number ` set (sy_sent_states sy'))"
proof -
  have inv: "send_inv sy" using sync_reachable_inv [OF reach] by (simp add: sync_inv_def)
  obtain b where b: "plan_base now rto (sy_known_receiver_state sy) (rev (sy_sent_states sy)) = Inr b"
    and lt: "b < sy_local_latest sy"
    and p: "plan = \<lparr>sp_generation = sy_sender_generation sy, sp_base_state = b,
              sp_target_state = sy_local_latest sy, sp_acknowledged_state = sy_remote_latest sy,
              sp_throwaway_state = sy_known_receiver_state sy, sp_planned_at_ms = now\<rparr>"
    using plan by (auto simp: plan_send_def not_le split: if_splits sum.splits)
  have "b = sy_known_receiver_state sy \<and> (\<forall>s \<in> set (sy_sent_states sy). rto \<le> now - ss_sent_at_ms s)
      \<or> (\<exists>s \<in> set (sy_sent_states sy). b = ss_number s \<and> now - ss_sent_at_ms s < rto
            \<and> (\<forall>s' \<in> set (sy_sent_states sy). ss_number s < ss_number s' \<longrightarrow> rto \<le> now - ss_sent_at_ms s'))"
    using plan_base_cases [OF b]
  proof (elim disjE exE conjE)
    fix newer s older
    assume r: "rev (sy_sent_states sy) = newer @ s # older" "b = ss_number s" "now - ss_sent_at_ms s < rto"
      "\<forall>s' \<in> set newer. ss_sent_at_ms s' \<le> now \<and> rto \<le> now - ss_sent_at_ms s'"
    then have ss: "sy_sent_states sy = rev older @ s # rev newer"
      by (metis append.assoc append_Cons append_Nil rev.simps(2) rev_append rev_rev_ident)
    then have "\<forall>s' \<in> set older. ss_number s' < ss_number s"
      using inv by (auto simp: send_inv_def sorted_wrt_append)
    with r ss show ?thesis by (intro disjI2 bexI [of _ s]) (auto dest: order.asym)
  qed auto
  moreover obtain g where g: "checked_add (sy_sender_generation sy) 1 = Some g"
    using gen checked_add_one_None_iff [of "sy_sender_generation sy"] by blast
  have "\<exists>r sy'. commit_send sy plan = (Inr r, sy')"
    by (simp add: commit_send_def p g split: prod.splits)
  then obtain r sy' where c: "commit_send sy plan = (Inr r, sy')" by blast
  moreover have "sy_known_receiver_state sy < sy_local_latest sy"
    using calculation(1) lt inv by (auto simp: send_inv_def intro: order.strict_trans)
  ultimately show ?thesis using commit_send_okD(3) [OF inv c] lt by (simp add: p)
qed

theorem send_plan_base_witness:
  "\<exists>plan. plan_send (snd (advance_local SynchronizationState_new)) 100 1000 = Inr plan
     \<and> sp_base_state plan < sp_target_state plan \<and> sp_target_state plan = 1
     \<and> is_ok (commit_send (snd (advance_local SynchronizationState_new)) plan)"
proof -
  let ?sy = "snd (advance_local SynchronizationState_new)"
  have sy: "?sy = SynchronizationState_new\<lparr>sy_local_latest := 1, sy_sender_generation := 1\<rparr>"
    by (simp add: advance_local_def SynchronizationState_new_def checked_add_def)
  obtain plan where plan: "plan_send ?sy 100 1000 = Inr plan"
    unfolding sy by (simp add: plan_send_def SynchronizationState_new_def)
  have "sy_sender_generation ?sy \<noteq> - 1" by (simp add: sy)
  from send_plan_base [OF sync_reachable_advanced plan this] plan show ?thesis
    by (auto simp: sy)
qed

end
