(* ===== verification/Timing.thy ===== *)
theory Timing
  imports Limits Contracts
begin

text \<open>
  Round-trip timing and the send scheduler: \<open>src/timing.rs\<close>.

  Shown here: the integer RTT estimator computes the published smoothed RTT and variation
  without overflow, and its timeout stays within 50 to 5000 ms; a timestamp that the peer echoes gives
  back the true round-trip time across the wrap of the 16-bit wire clock; and the
  scheduler's wake-up times are exact: nothing becomes due before the announced time, and at that
  time something is due or explicitly deferred.
\<close>

section \<open>Round-trip time\<close>

abbreviation (input) CLOCK_GRANULARITY_MS :: u64 where "CLOCK_GRANULARITY_MS \<equiv> 1"
abbreviation (input) TIMESTAMP_MODULUS :: u64 where "TIMESTAMP_MODULUS \<equiv> 65536"
abbreviation (input) WIRE_NO_TIMESTAMP_REPLY :: u16 where "WIRE_NO_TIMESTAMP_REPLY \<equiv> - 1"

datatype TimingError = TimeMovedBackwards | TimerExhausted | InvalidRttSample | StalePlan | GenerationExhausted

record RttEstimator =
  re_smoothed_rtt_eighths :: "u64 option"
  re_rtt_variation_eighths :: u64
  re_retransmission_timeout_ms :: u64

definition RttEstimator_new :: RttEstimator
  where "RttEstimator_new =
    \<lparr>re_smoothed_rtt_eighths = None, re_rtt_variation_eighths = 0,
     re_retransmission_timeout_ms = INITIAL_RETRANSMISSION_TIMEOUT_MS\<rparr>"

definition smoothed_rtt_ms :: "RttEstimator \<Rightarrow> u64 option"
  where "smoothed_rtt_ms e = map_option (\<lambda>v. div_ceil v 8) (re_smoothed_rtt_eighths e)"

definition frame_interval_ms :: "RttEstimator \<Rightarrow> u64"
  where "frame_interval_ms e =
    clamp MIN_FRAME_INTERVAL_MS MAX_FRAME_INTERVAL_MS
      (case smoothed_rtt_ms e of None \<Rightarrow> MAX_FRAME_INTERVAL_MS | Some smoothed \<Rightarrow> div_ceil smoothed 2)"

text \<open>\<open>calculate_rto_ms\<close> is only called with an observed sample; the panic of its \<open>expect\<close> is \<open>None\<close>.\<close>

definition calculate_rto_ms :: "RttEstimator \<Rightarrow> (TimingError + u64) option"
  where "calculate_rto_ms e =
    (case re_smoothed_rtt_eighths e of
       None \<Rightarrow> None
     | Some smoothed \<Rightarrow>
         Some (case checked_mul (re_rtt_variation_eighths e) 4 of
             None \<Rightarrow> Inl TimerExhausted
           | Some variation \<Rightarrow>
               (case checked_add smoothed (max variation (CLOCK_GRANULARITY_MS * 8)) of
                  None \<Rightarrow> Inl TimerExhausted
                | Some timeout_eighths \<Rightarrow>
                    Inr (clamp MIN_RETRANSMISSION_TIMEOUT_MS MAX_RETRANSMISSION_TIMEOUT_MS
                      (div_ceil timeout_eighths 8)))))"

definition observe_sample :: "RttEstimator \<Rightarrow> u64 \<Rightarrow> (TimingError, unit, RttEstimator) outcome"
  where "observe_sample e sample_ms =
    (if sample_ms > MAX_RTT_SAMPLE_MS then (Inl InvalidRttSample, e)
     else case checked_mul sample_ms 8 of
       None \<Rightarrow> (Inl TimerExhausted, e)
     | Some sample_eighths \<Rightarrow>
         and_then
           (case re_smoothed_rtt_eighths e of
              None \<Rightarrow>
                let e = e\<lparr>re_smoothed_rtt_eighths := Some sample_eighths\<rparr> in
                (case checked_mul sample_ms 4 of
                   None \<Rightarrow> (Inl TimerExhausted, e)
                 | Some v \<Rightarrow> (Inr (), e\<lparr>re_rtt_variation_eighths := v\<rparr>))
            | Some smoothed \<Rightarrow>
                let deviation = abs_diff smoothed sample_eighths in
                (case Option.bind (checked_mul (re_rtt_variation_eighths e) 3) (\<lambda>weighted. checked_add weighted deviation) of
                   None \<Rightarrow> (Inl TimerExhausted, e)
                 | Some v \<Rightarrow>
                     let e = e\<lparr>re_rtt_variation_eighths := v div 4\<rparr> in
                     (case Option.bind (checked_mul smoothed 7) (\<lambda>weighted. checked_add weighted sample_eighths) of
                        None \<Rightarrow> (Inl TimerExhausted, e)
                      | Some w \<Rightarrow> (Inr (), e\<lparr>re_smoothed_rtt_eighths := Some (w div 8)\<rparr>))))
           (\<lambda>_ e. case the (calculate_rto_ms e) of
               Inl err \<Rightarrow> (Inl err, e)
             | Inr rto \<Rightarrow> (Inr (), e\<lparr>re_retransmission_timeout_ms := rto\<rparr>)))"

section \<open>Wire timestamps\<close>

record OutgoingTimestamps =
  ot_timestamp :: u16
  ot_timestamp_reply :: "u16 option"

datatype RttSampleDisposition = Updated u64 | NoReply | Reordered | Implausible

record DatagramTiming =
  dt_estimator :: RttEstimator
  dt_highest_received_sequence :: "u64 option"
  dt_last_received_timestamp :: "(u16 \<times> u64) option"
  dt_last_observed_ms :: u64

definition DatagramTiming_new :: "u64 \<Rightarrow> DatagramTiming"
  where "DatagramTiming_new started_at_ms =
    \<lparr>dt_estimator = RttEstimator_new, dt_highest_received_sequence = None,
     dt_last_received_timestamp = None, dt_last_observed_ms = started_at_ms\<rparr>"

definition wire_milliseconds :: "u64 \<Rightarrow> u16"
  where "wire_milliseconds now_ms = ucast (now_ms mod TIMESTAMP_MODULUS)"

definition dt_observe_time :: "DatagramTiming \<Rightarrow> u64 \<Rightarrow> (TimingError, unit, DatagramTiming) outcome"
  where "dt_observe_time dt now_ms =
    (if now_ms < dt_last_observed_ms dt then (Inl TimeMovedBackwards, dt)
     else (Inr (), dt\<lparr>dt_last_observed_ms := now_ms\<rparr>))"

text \<open>\<open>u16::try_from\<close> of a 64-bit value.\<close>

definition u16_try_from :: "u64 \<Rightarrow> u16 option"
  where "u16_try_from w = (if w < 65536 then Some (ucast w) else None)"

definition outgoing :: "DatagramTiming \<Rightarrow> u64 \<Rightarrow> (TimingError, OutgoingTimestamps, DatagramTiming) outcome"
  where "outgoing dt now_ms =
    and_then (dt_observe_time dt now_ms) (\<lambda>_ dt.
      let timestamp_reply =
        Option.bind (dt_last_received_timestamp dt) (\<lambda>(timestamp, received_at_ms).
        Option.bind (checked_sub now_ms received_at_ms) (\<lambda>age_ms.
          if age_ms > MAX_TIMESTAMP_REPLY_AGE_MS then None
          else Option.bind (u16_try_from age_ms) (\<lambda>age.
            let reply = timestamp + age in if reply \<noteq> WIRE_NO_TIMESTAMP_REPLY then Some reply else None)))
      in (Inr \<lparr>ot_timestamp = wire_milliseconds now_ms, ot_timestamp_reply = timestamp_reply\<rparr>, dt))"

definition observe_received ::
    "DatagramTiming \<Rightarrow> u64 \<Rightarrow> u16 \<Rightarrow> u16 option \<Rightarrow> u64 \<Rightarrow> (TimingError, RttSampleDisposition, DatagramTiming) outcome"
  where "observe_received dt sequence timestamp timestamp_reply now_ms =
    and_then (dt_observe_time dt now_ms) (\<lambda>_ dt.
      if (case dt_highest_received_sequence dt of None \<Rightarrow> False | Some highest \<Rightarrow> sequence \<le> highest)
      then (Inr Reordered, dt)
      else
        let dt = dt\<lparr>dt_highest_received_sequence := Some sequence,
                    dt_last_received_timestamp := Some (timestamp, now_ms)\<rparr>
        in case timestamp_reply of
             None \<Rightarrow> (Inr NoReply, dt)
           | Some reply \<Rightarrow>
               let sample_ms = ucast (wire_milliseconds now_ms - reply) in
               if sample_ms > MAX_RTT_SAMPLE_MS then (Inr Implausible, dt)
               else case observe_sample (dt_estimator dt) sample_ms of
                 (Inl err, e) \<Rightarrow> (Inl err, dt\<lparr>dt_estimator := e\<rparr>)
               | (Inr _, e) \<Rightarrow> (Inr (Updated sample_ms), dt\<lparr>dt_estimator := e\<rparr>))"

section \<open>The scheduler\<close>

type_synonym SendReasons = u8

definition STATE_CHANGE :: SendReasons where "STATE_CHANGE = 1"
definition RETRANSMISSION :: SendReasons where "RETRANSMISSION = 2"
definition ACKNOWLEDGEMENT :: SendReasons where "ACKNOWLEDGEMENT = 4"
definition HEARTBEAT :: SendReasons where "HEARTBEAT = 8"
definition ALL_REASONS :: SendReasons
  where "ALL_REASONS = STATE_CHANGE OR RETRANSMISSION OR ACKNOWLEDGEMENT OR HEARTBEAT"

definition reasons_contains :: "SendReasons \<Rightarrow> SendReasons \<Rightarrow> bool"
  where "reasons_contains reasons reason \<longleftrightarrow> reasons AND reason \<noteq> 0"

definition reasons_insert :: "SendReasons \<Rightarrow> SendReasons \<Rightarrow> SendReasons"
  where "reasons_insert reason reasons = reasons OR reason"

record WakePlan =
  wp_generation :: u64
  wp_planned_at_ms :: u64
  wp_reasons :: SendReasons

datatype SchedulerPoll = Pending u64 | Send WakePlan

record SendScheduler =
  sc_started_at_ms :: u64
  sc_last_observed_ms :: u64
  sc_last_send_ms :: "u64 option"
  sc_local_change_at_ms :: "u64 option"
  sc_acknowledgement_at_ms :: "u64 option"
  sc_send_not_before_ms :: "u64 option"
  sc_generation :: u64

definition SendScheduler_new :: "u64 \<Rightarrow> SendScheduler"
  where "SendScheduler_new started_at_ms =
    \<lparr>sc_started_at_ms = started_at_ms, sc_last_observed_ms = started_at_ms, sc_last_send_ms = None,
     sc_local_change_at_ms = None, sc_acknowledgement_at_ms = None, sc_send_not_before_ms = None,
     sc_generation = 0\<rparr>"

definition sc_observe_time :: "SendScheduler \<Rightarrow> u64 \<Rightarrow> (TimingError, unit, SendScheduler) outcome"
  where "sc_observe_time sc now_ms =
    (if now_ms < sc_last_observed_ms sc then (Inl TimeMovedBackwards, sc)
     else (Inr (), sc\<lparr>sc_last_observed_ms := now_ms\<rparr>))"

definition next_generation :: "SendScheduler \<Rightarrow> TimingError + u64"
  where "next_generation sc = ok_or GenerationExhausted (checked_add (sc_generation sc) 1)"

definition checked_deadline :: "u64 \<Rightarrow> u64 \<Rightarrow> TimingError + u64"
  where "checked_deadline start_ms delay_ms = ok_or TimerExhausted (checked_add start_ms delay_ms)"

text \<open>\<open>Option::transpose\<close> of Rust: an optional result as a result of an option.\<close>

definition transpose_result :: "('e + 'a) option \<Rightarrow> 'e + 'a option"
  where "transpose_result x =
    (case x of None \<Rightarrow> Inr None | Some (Inl e) \<Rightarrow> Inl e | Some (Inr y) \<Rightarrow> Inr (Some y))"

definition note_local_change :: "SendScheduler \<Rightarrow> u64 \<Rightarrow> (TimingError, unit, SendScheduler) outcome"
  where "note_local_change sc now_ms =
    and_then (sc_observe_time sc now_ms) (\<lambda>_ sc.
      if sc_local_change_at_ms sc = None then
        and_then (next_generation sc, sc) (\<lambda>g sc.
          (Inr (), sc\<lparr>sc_local_change_at_ms := Some now_ms, sc_generation := g\<rparr>))
      else (Inr (), sc))"

definition note_acknowledgement_needed :: "SendScheduler \<Rightarrow> u64 \<Rightarrow> (TimingError, unit, SendScheduler) outcome"
  where "note_acknowledgement_needed sc now_ms =
    and_then (sc_observe_time sc now_ms) (\<lambda>_ sc.
      if sc_acknowledgement_at_ms sc = None then
        and_then (next_generation sc, sc) (\<lambda>g sc.
          (Inr (), sc\<lparr>sc_acknowledgement_at_ms := Some now_ms, sc_generation := g\<rparr>))
      else (Inr (), sc))"

definition local_change_due :: "SendScheduler \<Rightarrow> u64 \<Rightarrow> TimingError + u64 option"
  where "local_change_due sc frame_interval =
    transpose_result (map_option (\<lambda>changed_at.
      case checked_deadline changed_at STATE_CHANGE_COLLECTION_MS of
        Inl e \<Rightarrow> Inl e
      | Inr collection_due \<Rightarrow>
          (case transpose_result (map_option (\<lambda>sent_at. checked_deadline sent_at frame_interval) (sc_last_send_ms sc)) of
             Inl e \<Rightarrow> Inl e
           | Inr frame \<Rightarrow>
               let frame_due = (case frame of None \<Rightarrow> collection_due | Some d \<Rightarrow> d)
               in Inr (max collection_due frame_due))) (sc_local_change_at_ms sc))"

definition passed :: "u64 option \<Rightarrow> u64 \<Rightarrow> bool"
  where "passed deadline now_ms = (case deadline of None \<Rightarrow> False | Some d \<Rightarrow> d \<le> now_ms)"

definition due_reasons :: "u64 \<Rightarrow> u64 option \<Rightarrow> u64 option \<Rightarrow> u64 option \<Rightarrow> u64 \<Rightarrow> SendReasons"
  where "due_reasons now_ms state_due retransmission_due acknowledgement_due heartbeat_due =
    (let reasons = 0;
         reasons = (if passed state_due now_ms then reasons_insert STATE_CHANGE reasons else reasons);
         reasons = (if passed retransmission_due now_ms then reasons_insert RETRANSMISSION reasons else reasons);
         reasons = (if passed acknowledgement_due now_ms then reasons_insert ACKNOWLEDGEMENT reasons else reasons)
     in if heartbeat_due \<le> now_ms then reasons_insert HEARTBEAT reasons else reasons)"

definition earliest :: "u64 option list \<Rightarrow> u64 \<Rightarrow> u64"
  where "earliest deadlines heartbeat_due =
    foldr (\<lambda>d m. case d of None \<Rightarrow> m | Some x \<Rightarrow> min x m) deadlines heartbeat_due"

definition poll :: "SendScheduler \<Rightarrow> u64 \<Rightarrow> RttEstimator \<Rightarrow> u64 option \<Rightarrow> (TimingError, SchedulerPoll, SendScheduler) outcome"
  where "poll sc now_ms timing latest_unacknowledged_sent_at_ms =
    and_then (sc_observe_time sc now_ms) (\<lambda>_ sc.
      if (case latest_unacknowledged_sent_at_ms of None \<Rightarrow> False | Some sent_at \<Rightarrow> sent_at > now_ms)
      then (Inl TimeMovedBackwards, sc)
      else
        and_then (local_change_due sc (frame_interval_ms timing), sc) (\<lambda>state_due sc.
        and_then (transpose_result (map_option (\<lambda>received_at.
            checked_deadline received_at MAX_ACKNOWLEDGEMENT_DELAY_MS) (sc_acknowledgement_at_ms sc)), sc)
          (\<lambda>acknowledgement_due sc.
        and_then (transpose_result (map_option (\<lambda>sent_at.
            checked_deadline sent_at (re_retransmission_timeout_ms timing)) latest_unacknowledged_sent_at_ms), sc)
          (\<lambda>retransmission_due sc.
        and_then (checked_deadline (case sc_last_send_ms sc of None \<Rightarrow> sc_started_at_ms sc | Some t \<Rightarrow> t)
            HEARTBEAT_INTERVAL_MS, sc)
          (\<lambda>heartbeat_due sc.
            let reasons = due_reasons now_ms state_due retransmission_due acknowledgement_due heartbeat_due in
            if reasons \<noteq> 0 then
              let plan = \<lparr>wp_generation = sc_generation sc, wp_planned_at_ms = now_ms, wp_reasons = reasons\<rparr> in
              (case sc_send_not_before_ms sc of
                 Some not_before \<Rightarrow>
                   if now_ms < not_before then (Inr (Pending not_before), sc) else (Inr (Send plan), sc)
               | None \<Rightarrow> (Inr (Send plan), sc))
            else (Inr (Pending (earliest [state_due, acknowledgement_due, retransmission_due] heartbeat_due)), sc))))))"

definition scheduler_commit_send :: "SendScheduler \<Rightarrow> WakePlan \<Rightarrow> (TimingError, unit, SendScheduler) outcome"
  where "scheduler_commit_send sc plan =
    (if wp_generation plan \<noteq> sc_generation sc \<or> wp_planned_at_ms plan \<noteq> sc_last_observed_ms sc
     then (Inl StalePlan, sc)
     else and_then (next_generation sc, sc) (\<lambda>g sc.
       (Inr (), sc\<lparr>sc_local_change_at_ms := None, sc_acknowledgement_at_ms := None,
                   sc_send_not_before_ms := None, sc_last_send_ms := Some (wp_planned_at_ms plan),
                   sc_generation := g\<rparr>)))"

definition defer_send :: "SendScheduler \<Rightarrow> u64 \<Rightarrow> u64 \<Rightarrow> (TimingError, unit, SendScheduler) outcome"
  where "defer_send sc now_ms delay_ms =
    and_then (checked_deadline now_ms delay_ms, sc) (\<lambda>not_before sc.
    and_then (sc_observe_time sc now_ms) (\<lambda>_ sc.
      (Inr (), sc\<lparr>sc_send_not_before_ms := Some not_before\<rparr>)))"

section \<open>The estimator computes the published formulas\<close>

text \<open>The reference, on natural numbers: smoothed RTT and variation in eighths of a millisecond, and the
  timeout in milliseconds.\<close>

fun rtt_step :: "(nat \<times> nat) option \<Rightarrow> nat \<Rightarrow> nat \<times> nat"
  where
    "rtt_step None x = (8 * x, 4 * x)"
  | "rtt_step (Some (s, v)) x = ((7 * s + 8 * x) div 8, (3 * v + ((s - 8 * x) + (8 * x - s))) div 4)"

fun rto_of :: "nat \<times> nat \<Rightarrow> nat"
  where "rto_of (s, v) = clamp 50 5000 ((s + max (4 * v) 8 + 7) div 8)"

definition rtt_abs :: "RttEstimator \<Rightarrow> (nat \<times> nat) option"
  where "rtt_abs e = map_option (\<lambda>s. (unat s, unat (re_rtt_variation_eighths e))) (re_smoothed_rtt_eighths e)"

definition rtt_inv :: "RttEstimator \<Rightarrow> bool"
  where "rtt_inv e \<longleftrightarrow>
    (case re_smoothed_rtt_eighths e of None \<Rightarrow> True | Some s \<Rightarrow> unat s \<le> 480000)
    \<and> unat (re_rtt_variation_eighths e) \<le> 480000
    \<and> MIN_RETRANSMISSION_TIMEOUT_MS \<le> re_retransmission_timeout_ms e
    \<and> re_retransmission_timeout_ms e \<le> MAX_RETRANSMISSION_TIMEOUT_MS"

lemma checked_mul_small:
  "unat a * unat b < 2 ^ 64 \<Longrightarrow> checked_mul a b = Some (a * b) \<and> unat (a * b) = unat a * unat b" for a b :: u64
  using checked_mul_unat [of a b "a * b"] by (simp add: checked_mul_def)

lemma checked_add_small:
  "unat a + unat b < 2 ^ 64 \<Longrightarrow> checked_add a b = Some (a + b) \<and> unat (a + b) = unat a + unat b" for a b :: u64
  using unat_add_no_overflow [of a b] by (simp add: checked_add_def)

lemma unat_clamp: "unat (clamp lo hi x) = clamp (unat lo) (unat hi) (unat x)" for lo hi x :: "'a::len word"
  by (simp add: clamp_def word_less_nat_alt)

lemma calculate_rto_small:
  assumes "re_smoothed_rtt_eighths e = Some s" and "unat s \<le> 480000" and "unat (re_rtt_variation_eighths e) \<le> 480000"
  shows "\<exists>rto. calculate_rto_ms e = Some (Inr rto)
    \<and> unat rto = rto_of (unat s, unat (re_rtt_variation_eighths e))"
proof -
  let ?v = "re_rtt_variation_eighths e"
  have v: "checked_mul ?v 4 = Some (?v * 4)" "unat (?v * 4) = unat ?v * 4"
    using checked_mul_small [of ?v 4] assms(3) by simp_all
  have m: "unat (max (?v * 4) 8) = max (unat ?v * 4) 8"
    using v(2) by (simp add: max_def word_le_nat_alt)
  have a: "checked_add s (max (?v * 4) 8) = Some (s + max (?v * 4) 8)"
    "unat (s + max (?v * 4) 8) = unat s + max (unat ?v * 4) 8"
    using checked_add_small [of s "max (?v * 4) 8"] assms(2,3) m by simp_all
  show ?thesis
    using assms(1) v(1) a
    by (simp add: calculate_rto_ms_def unat_clamp unat_div_ceil mult.commute) (simp add: add.commute)
qed

lemma rtt_step_bound:
  "(case st of None \<Rightarrow> True | Some (s, v) \<Rightarrow> s \<le> 480000 \<and> v \<le> 480000) \<Longrightarrow> x \<le> 60000 \<Longrightarrow>
     fst (rtt_step st x) \<le> 480000 \<and> snd (rtt_step st x) \<le> 480000"
  by (cases "(st, x)" rule: rtt_step.cases) auto

lemma observe_sample_values:
  assumes inv: "rtt_inv e" and x: "unat x \<le> 60000"
  shows "\<exists>s v e1. rtt_step (rtt_abs e) (unat x) = (unat s, unat v) \<and> re_retransmission_timeout_ms e1 = re_retransmission_timeout_ms e
    \<and> re_smoothed_rtt_eighths e1 = Some s \<and> re_rtt_variation_eighths e1 = v
    \<and> observe_sample e x = (case the (calculate_rto_ms e1) of Inl err \<Rightarrow> (Inl err, e1)
         | Inr rto \<Rightarrow> (Inr (), e1\<lparr>re_retransmission_timeout_ms := rto\<rparr>))"
proof -
  have ok: "\<not> x > MAX_RTT_SAMPLE_MS" using x by (simp add: word_less_nat_alt)
  have x8: "checked_mul x 8 = Some (x * 8)" "unat (x * 8) = unat x * 8"
    and x4: "checked_mul x 4 = Some (x * 4)" "unat (x * 4) = unat x * 4"
    using checked_mul_small [of x 8] checked_mul_small [of x 4] x by simp_all
  show ?thesis
  proof (cases "re_smoothed_rtt_eighths e")
    case None
    then show ?thesis
      using ok x8 x4
      by (intro exI [of _ "x * 8"] exI [of _ "x * 4"]
          exI [of _ "e\<lparr>re_smoothed_rtt_eighths := Some (x * 8), re_rtt_variation_eighths := x * 4\<rparr>"])
        (simp add: observe_sample_def rtt_abs_def mult.commute)
  next
    case (Some s)
    let ?v = "re_rtt_variation_eighths e" and ?d = "abs_diff s (x * 8)"
    have b: "unat s \<le> 480000" "unat ?v \<le> 480000" using inv Some by (simp_all add: rtt_inv_def)
    have d: "unat ?d = (unat s - 8 * unat x) + (8 * unat x - unat s)" by (simp add: unat_abs_diff x8(2) mult.commute)
    have v3: "checked_mul ?v 3 = Some (?v * 3)" "unat (?v * 3) = unat ?v * 3"
      and s7: "checked_mul s 7 = Some (s * 7)" "unat (s * 7) = unat s * 7"
      using checked_mul_small [of ?v 3] checked_mul_small [of s 7] b by simp_all
    have va: "checked_add (?v * 3) ?d = Some (?v * 3 + ?d)" "unat (?v * 3 + ?d) = unat ?v * 3 + unat ?d"
      and sa: "checked_add (s * 7) (x * 8) = Some (s * 7 + x * 8)" "unat (s * 7 + x * 8) = unat s * 7 + unat x * 8"
      using checked_add_small [of "?v * 3" ?d] checked_add_small [of "s * 7" "x * 8"] b x v3 s7 x8 d by simp_all
    show ?thesis
      using ok x8 v3 s7 va sa Some d
      by (intro exI [of _ "(s * 7 + x * 8) div 8"] exI [of _ "(?v * 3 + ?d) div 4"]
          exI [of _ "e\<lparr>re_rtt_variation_eighths := (?v * 3 + ?d) div 4,
            re_smoothed_rtt_eighths := Some ((s * 7 + x * 8) div 8)\<rparr>"])
        (simp add: observe_sample_def rtt_abs_def unat_div mult.commute)
  qed
qed

lemma observe_sample_refines:
  assumes inv: "rtt_inv e" and x: "unat x \<le> 60000"
  shows "\<exists>e'. observe_sample e x = (Inr (), e') \<and> rtt_abs e' = Some (rtt_step (rtt_abs e) (unat x))
    \<and> unat (re_retransmission_timeout_ms e') = rto_of (rtt_step (rtt_abs e) (unat x)) \<and> rtt_inv e'"
proof -
  obtain s v e1 where e1: "rtt_step (rtt_abs e) (unat x) = (unat s, unat v)"
      "re_smoothed_rtt_eighths e1 = Some s" "re_rtt_variation_eighths e1 = v"
    and o: "observe_sample e x = (case the (calculate_rto_ms e1) of Inl err \<Rightarrow> (Inl err, e1)
         | Inr rto \<Rightarrow> (Inr (), e1\<lparr>re_retransmission_timeout_ms := rto\<rparr>))"
    using observe_sample_values [OF assms] by blast
  have b: "unat s \<le> 480000" "unat v \<le> 480000"
    using rtt_step_bound [of "rtt_abs e" "unat x"] inv x e1(1)
    by (auto simp: rtt_abs_def rtt_inv_def split: option.splits)
  then obtain rto where rto: "calculate_rto_ms e1 = Some (Inr rto)" "unat rto = rto_of (unat s, unat v)"
    using calculate_rto_small [OF e1(2)] e1(3) by auto
  have "50 \<le> unat rto \<and> unat rto \<le> 5000" by (auto simp: rto(2) clamp_def)
  with b e1 o rto show ?thesis
    by (simp add: rtt_abs_def rtt_inv_def word_le_nat_alt)
qed

fun rtt_run :: "(nat \<times> nat) option \<Rightarrow> nat list \<Rightarrow> (nat \<times> nat) option"
  where
    "rtt_run st [] = st"
  | "rtt_run st (x # xs) = rtt_run (Some (rtt_step st x)) xs"

lemma observe_samples_refine:
  assumes "rtt_inv e" and "list_all (\<lambda>x. unat x \<le> 60000) xs"
  shows "\<exists>us e'. run_all observe_sample e xs = (Inr us, e') \<and> rtt_abs e' = rtt_run (rtt_abs e) (map unat xs) \<and> rtt_inv e'
    \<and> (xs \<noteq> [] \<longrightarrow> unat (re_retransmission_timeout_ms e') = rto_of (the (rtt_abs e')))"
  using assms
proof (induction xs arbitrary: e)
  case (Cons x xs)
  obtain e1 where e1: "observe_sample e x = (Inr (), e1)" "rtt_abs e1 = Some (rtt_step (rtt_abs e) (unat x))"
    "unat (re_retransmission_timeout_ms e1) = rto_of (rtt_step (rtt_abs e) (unat x))" "rtt_inv e1"
    using observe_sample_refines [OF Cons.prems(1)] Cons.prems(2) by auto
  obtain us e2 where e2: "run_all observe_sample e1 xs = (Inr us, e2)" "rtt_abs e2 = rtt_run (rtt_abs e1) (map unat xs)"
    "rtt_inv e2" "xs \<noteq> [] \<longrightarrow> unat (re_retransmission_timeout_ms e2) = rto_of (the (rtt_abs e2))"
    using Cons.IH [OF e1(4)] Cons.prems(2) by auto
  show ?case
  proof (cases xs)
    case Nil
    with e1 show ?thesis by simp
  next
    case (Cons y ys)
    then show ?thesis using e1 e2 by simp
  qed
qed simp

lemma rtt_inv_new: "rtt_inv RttEstimator_new"
  by (simp add: rtt_inv_def RttEstimator_new_def)

text \<open>C23: The integer RTT estimator computes the published update exactly and never overflows. For every
  sequence of samples of at most 60 seconds, every call succeeds; the smoothed RTT and the
  variation, in eighths of a millisecond, are those of the recurrences SRTT := 7/8 SRTT + 1/8 R and
  RTTVAR := 3/4 RTTVAR + 1/4 |SRTT - R|, rounded down; the timeout is SRTT + max(4 RTTVAR, 1 ms) rounded up
  and clamped to 50 to 5000 ms.\<close>

theorem rtt_estimator_exact:
  assumes "list_all (\<lambda>x. x \<le> MAX_RTT_SAMPLE_MS) xs" and "xs \<noteq> []"
  shows "\<exists>us e s v. run_all observe_sample RttEstimator_new xs = (Inr us, e)
    \<and> rtt_run None (map unat xs) = Some (s, v)
    \<and> map_option unat (re_smoothed_rtt_eighths e) = Some s \<and> unat (re_rtt_variation_eighths e) = v
    \<and> unat (re_retransmission_timeout_ms e) = rto_of (s, v)"
proof -
  have "list_all (\<lambda>x. unat x \<le> 60000) xs" using assms(1) by (simp add: word_le_nat_alt)
  from observe_samples_refine [OF rtt_inv_new this] obtain us e where
    e: "run_all observe_sample RttEstimator_new xs = (Inr us, e)" "rtt_abs e = rtt_run None (map unat xs)"
    "unat (re_retransmission_timeout_ms e) = rto_of (the (rtt_abs e))"
    using assms(2) by (auto simp: rtt_abs_def RttEstimator_new_def)
  have "rtt_run (Some st) ys \<noteq> None" for st ys by (induction ys arbitrary: st) auto
  then have "rtt_run None (map unat xs) \<noteq> None" using assms(2) by (cases xs) auto
  with e(2) obtain s where s: "re_smoothed_rtt_eighths e = Some s" by (auto simp: rtt_abs_def)
  then have "rtt_run None (map unat xs) = Some (unat s, unat (re_rtt_variation_eighths e))"
    using e(2) by (simp add: rtt_abs_def)
  with e s show ?thesis by simp
qed

theorem rtt_estimator_exact_witness:
  "\<exists>us e. run_all observe_sample RttEstimator_new [100, 60] = (Inr us, e)
     \<and> re_smoothed_rtt_eighths e = Some 760 \<and> re_retransmission_timeout_ms e = 285"
proof -
  have "list_all (\<lambda>x. x \<le> MAX_RTT_SAMPLE_MS) [100, 60]" by simp
  from rtt_estimator_exact [OF this] show ?thesis
    by (auto simp: clamp_def word_unat_eq_iff)
qed

inductive rtt_reachable :: "RttEstimator \<Rightarrow> bool"
  where
    rtt_new: "rtt_reachable RttEstimator_new"
  | rtt_observe: "rtt_reachable e \<Longrightarrow> rtt_reachable (snd (observe_sample e x))"

lemma rtt_reachable_inv: "rtt_reachable e \<Longrightarrow> rtt_inv e"
proof (induction rule: rtt_reachable.induct)
  case (rtt_observe e x)
  show ?case
  proof (cases "unat x \<le> 60000")
    case True
    then show ?thesis using observe_sample_refines [OF rtt_observe.IH True] by auto
  next
    case False
    then have "x > MAX_RTT_SAMPLE_MS" by (simp add: word_less_nat_alt)
    then show ?thesis using rtt_observe.IH by (simp add: observe_sample_def)
  qed
qed (rule rtt_inv_new)

text \<open>C27: The pacing derived from the estimator is bounded. Whatever samples were observed, in whatever
  order and with whatever errors, the retransmission timeout is within 50 and 5000 ms and the
  frame interval within 20 and 250 ms.\<close>

theorem pacing_bounded:
  assumes "rtt_reachable e"
  shows "MIN_RETRANSMISSION_TIMEOUT_MS \<le> re_retransmission_timeout_ms e
    \<and> re_retransmission_timeout_ms e \<le> MAX_RETRANSMISSION_TIMEOUT_MS
    \<and> MIN_FRAME_INTERVAL_MS \<le> frame_interval_ms e \<and> frame_interval_ms e \<le> MAX_FRAME_INTERVAL_MS"
  using rtt_reachable_inv [OF assms] clamp_bounds [of MIN_FRAME_INTERVAL_MS MAX_FRAME_INTERVAL_MS]
  by (simp add: rtt_inv_def frame_interval_ms_def)

theorem pacing_bounded_witness:
  "MIN_FRAME_INTERVAL_MS \<le> frame_interval_ms (snd (observe_sample RttEstimator_new 90))"
  using pacing_bounded [OF rtt_observe [OF rtt_new]] by blast

section \<open>Echoed timestamps\<close>

interpretation datagram_clock: monotone_clock dt_last_observed_ms dt_observe_time TimeMovedBackwards
  by unfold_locales (auto simp: dt_observe_time_def)

interpretation scheduler_clock: monotone_clock sc_last_observed_ms sc_observe_time TimeMovedBackwards
  by unfold_locales (auto simp: sc_observe_time_def)

lemma wire_milliseconds_eq: "wire_milliseconds t = of_nat (unat t)"
proof -
  have "unat (wire_milliseconds t) = unat t mod 65536"
    by (simp add: wire_milliseconds_def unat_mod unsigned_ucast_eq take_bit_eq_mod)
  also have "\<dots> = unat (of_nat (unat t) :: u16)" by (simp add: unsigned_ucast_eq take_bit_eq_mod)
  finally show ?thesis by (simp only: word_unat_eq_iff)
qed

lemma unat_ucast_up: "unat (ucast x :: u64) = unat x" for x :: u16
  by (rule unat_ucast_widen) simp

lemma echoed_difference:
  assumes "unat t4 = unat t1 + hold + rtt" and "rtt < 65536"
  shows "unat (wire_milliseconds t4 - (wire_milliseconds t1 + of_nat hold)) = rtt"
proof -
  have "wire_milliseconds t4 - (wire_milliseconds t1 + of_nat hold) = (of_nat rtt :: u16)"
    by (simp add: wire_milliseconds_eq assms(1))
  then show ?thesis using assms(2) by (simp add: unat_of_nat take_bit_nat_eq_self)
qed

lemma outgoing_replyD:
  assumes "outgoing dt now = (Inr stamps, dt')"
  shows "ot_timestamp stamps = wire_milliseconds now"
    and "ot_timestamp_reply stamps = Some r \<Longrightarrow>
      \<exists>ts at. dt_last_received_timestamp dt = Some (ts, at) \<and> at \<le> now \<and> r = ts + of_nat (unat (now - at))"
  using assms
  by (auto simp: outgoing_def dt_observe_time_def checked_sub_def u16_try_from_def bind_eq_Some_conv Let_def
      split: if_splits)

lemma observe_received_newD:
  assumes "observe_received dt q ts reply now = (Inr d, dt')" and "d \<noteq> Reordered"
  shows "dt_last_received_timestamp dt' = Some (ts, now)"
    and "reply = Some r \<Longrightarrow>
      d = (if unat (wire_milliseconds now - r) \<le> 60000 then Updated (ucast (wire_milliseconds now - r)) else Implausible)"
  using assms
  by (auto simp: observe_received_def dt_observe_time_def Let_def word_less_nat_alt not_less unat_ucast_up
      split: if_splits option.splits prod.splits sum.splits)

text \<open>C24: An echoed timestamp measures the true round-trip time. One side sends a timestamp at its time
  t1; the other receives it at its time s2 and, having accepted it as the newest, sends at its time s3 a
  packet whose reply field is present; the first side receives that packet at t4 in order. Then the
  sample it takes is (t4 - t1) - (s3 - s2), the time on the network, whenever that is at most 60
  seconds: neither the unrelated clocks nor the wrap of the 16-bit wire clock matter.\<close>

theorem echoed_rtt_exact:
  assumes "outgoing a t1 = (Inr sent, a1)"
    and "observe_received b q (ot_timestamp sent) echo s2 = (Inr accepted, b1)" and "accepted \<noteq> Reordered"
    and "outgoing b1 s3 = (Inr reply, b2)" and "ot_timestamp_reply reply \<noteq> None"
    and "observe_received c q' ts (ot_timestamp_reply reply) t4 = (Inr d, c1)" and "d \<noteq> Reordered"
    and "unat t4 = unat t1 + unat (s3 - s2) + rtt" and "rtt \<le> 60000"
  shows "d = Updated (of_nat rtt)"
proof -
  obtain r where r: "ot_timestamp_reply reply = Some r" using assms(5) by blast
  have ts: "ot_timestamp sent = wire_milliseconds t1" by (rule outgoing_replyD(1) [OF assms(1)])
  have "dt_last_received_timestamp b1 = Some (wire_milliseconds t1, s2)"
    using observe_received_newD(1) [OF assms(2,3)] ts by simp
  then have rv: "r = wire_milliseconds t1 + of_nat (unat (s3 - s2))"
    using outgoing_replyD(2) [OF assms(4) r] by auto
  have "unat (wire_milliseconds t4 - r) = rtt"
    unfolding rv by (rule echoed_difference [OF assms(8)]) (use assms(9) in simp)
  moreover have "ucast (wire_milliseconds t4 - r) = (of_nat (unat (wire_milliseconds t4 - r)) :: u64)"
    by simp
  ultimately show ?thesis
    using observe_received_newD(2) [OF assms(6,7) r] assms(9) by simp
qed

theorem echoed_rtt_exact_witness:
  "\<exists>c1. observe_received (DatagramTiming_new 65530) 3 0
      (ot_timestamp_reply (the (case fst (outgoing (snd (observe_received (DatagramTiming_new 7) 1 65530 None 100)) 110)
        of Inl _ \<Rightarrow> None | Inr o3 \<Rightarrow> Some o3))) 65570 = (Inr (Updated 30), c1)"
proof -
  let ?b = "observe_received (DatagramTiming_new 7) 1 65530 None 100"
  have a: "outgoing (DatagramTiming_new 65530) 65530
      = (Inr \<lparr>ot_timestamp = 65530, ot_timestamp_reply = None\<rparr>, DatagramTiming_new 65530)"
    by (simp add: outgoing_def dt_observe_time_def DatagramTiming_new_def wire_milliseconds_def)
  have b: "?b = (Inr NoReply, (DatagramTiming_new 7)\<lparr>dt_last_observed_ms := 100,
      dt_highest_received_sequence := Some 1, dt_last_received_timestamp := Some (65530, 100)\<rparr>)"
    by (simp add: observe_received_def dt_observe_time_def DatagramTiming_new_def)
  have o: "outgoing (snd ?b) 110 = (Inr \<lparr>ot_timestamp = 110, ot_timestamp_reply = Some 4\<rparr>, (snd ?b)\<lparr>dt_last_observed_ms := 110\<rparr>)"
    unfolding b by (simp add: outgoing_def dt_observe_time_def DatagramTiming_new_def wire_milliseconds_def checked_sub_def u16_try_from_def)
  obtain d c1 where c: "observe_received (DatagramTiming_new 65530) 3 0 (Some 4) 65570 = (Inr d, c1)" "d \<noteq> Reordered"
    by (simp add: observe_received_def dt_observe_time_def DatagramTiming_new_def wire_milliseconds_def
        observe_sample_def RttEstimator_new_def checked_mul_def calculate_rto_ms_def checked_add_def)
  have "d = Updated (of_nat 30)"
    by (rule echoed_rtt_exact [of "DatagramTiming_new 65530" 65530 _ _ "DatagramTiming_new 7" 1 None 100 NoReply _ 110 _ _
          "DatagramTiming_new 65530" 3 0 65570, OF a _ _ o])
      (use b c in simp_all)
  with o c show ?thesis by simp
qed

section \<open>The scheduler wakes up at the right time\<close>

text \<open>The four deadlines do not depend on the time of the poll.\<close>

definition deadlines ::
    "SendScheduler \<Rightarrow> RttEstimator \<Rightarrow> u64 option \<Rightarrow> TimingError + (u64 option \<times> u64 option \<times> u64 option \<times> u64)"
  where "deadlines sc timing latest =
    fst (and_then (local_change_due sc (frame_interval_ms timing), ()) (\<lambda>state_due _.
         and_then (transpose_result (map_option (\<lambda>t. checked_deadline t MAX_ACKNOWLEDGEMENT_DELAY_MS)
             (sc_acknowledgement_at_ms sc)), ()) (\<lambda>acknowledgement_due _.
         and_then (transpose_result (map_option (\<lambda>t. checked_deadline t (re_retransmission_timeout_ms timing)) latest), ())
           (\<lambda>retransmission_due _.
         and_then (checked_deadline (case sc_last_send_ms sc of None \<Rightarrow> sc_started_at_ms sc | Some t \<Rightarrow> t)
             HEARTBEAT_INTERVAL_MS, ()) (\<lambda>heartbeat_due _.
           (Inr (state_due, acknowledgement_due, retransmission_due, heartbeat_due), ()))))))"

definition decide :: "SendScheduler \<Rightarrow> u64 \<Rightarrow> u64 \<Rightarrow> SendReasons \<Rightarrow> SchedulerPoll"
  where "decide sc now wake reasons =
    (let plan = \<lparr>wp_generation = sc_generation sc, wp_planned_at_ms = now, wp_reasons = reasons\<rparr> in
     if wake \<le> now then
       (case sc_send_not_before_ms sc of
          Some not_before \<Rightarrow> if now < not_before then Pending not_before else Send plan
        | None \<Rightarrow> Send plan)
     else Pending wake)"

lemma decide_Pending:
  assumes "decide sc now e reasons = Pending wake"
  shows "(e \<le> now \<and> sc_send_not_before_ms sc = Some wake \<and> now < wake) \<or> (now < e \<and> wake = e)"
  using assms by (cases "e \<le> now"; cases "sc_send_not_before_ms sc") (auto simp: decide_def Let_def split: if_splits)

lemma decide_deferred:
  "e \<le> t \<Longrightarrow> sc_send_not_before_ms sc = Some wake \<Longrightarrow> t < wake \<Longrightarrow> decide sc t e reasons = Pending wake"
  by (simp add: decide_def Let_def)

lemma decide_early: "t < e \<Longrightarrow> decide sc t e reasons = Pending e"
  by (auto simp: decide_def Let_def dest: leD)

lemma decide_due:
  assumes "e \<le> t" and "reasons \<noteq> 0"
  shows "case decide sc t e reasons of Send plan \<Rightarrow> wp_reasons plan \<noteq> 0
    | Pending later \<Rightarrow> sc_send_not_before_ms sc = Some later \<and> t < later"
  using assms by (cases "sc_send_not_before_ms sc") (simp_all add: decide_def Let_def)

lemma earliest_le:
  "earliest [a, b, c] h \<le> now \<longleftrightarrow> passed a now \<or> passed b now \<or> passed c now \<or> h \<le> now"
  by (auto simp: earliest_def passed_def min_le_iff_disj split: option.splits)

lemma reasons_contains_iff:
  "reasons_contains (due_reasons now s r a h) STATE_CHANGE \<longleftrightarrow> passed s now"
  "reasons_contains (due_reasons now s r a h) RETRANSMISSION \<longleftrightarrow> passed r now"
  "reasons_contains (due_reasons now s r a h) ACKNOWLEDGEMENT \<longleftrightarrow> passed a now"
  "reasons_contains (due_reasons now s r a h) HEARTBEAT \<longleftrightarrow> h \<le> now"
  by (auto simp: due_reasons_def reasons_contains_def reasons_insert_def Let_def
      STATE_CHANGE_def RETRANSMISSION_def ACKNOWLEDGEMENT_def HEARTBEAT_def)

lemma due_reasons_zero: "due_reasons now s r a h = 0 \<longleftrightarrow> \<not> earliest [s, a, r] h \<le> now"
  by (auto simp: due_reasons_def reasons_insert_def Let_def earliest_le
      STATE_CHANGE_def RETRANSMISSION_def ACKNOWLEDGEMENT_def HEARTBEAT_def)

lemma local_change_due_frame [simp]: "local_change_due (sc\<lparr>sc_last_observed_ms := t\<rparr>) f = local_change_due sc f"
  by (simp add: local_change_due_def cong: option.case_cong sum.case_cong)

lemma deadlines_frame [simp]: "deadlines (sc\<lparr>sc_last_observed_ms := t\<rparr>) e l = deadlines sc e l"
  by (simp add: deadlines_def cong: option.case_cong)

lemma poll_eq:
  "poll sc now timing latest =
     (if now < sc_last_observed_ms sc then (Inl TimeMovedBackwards, sc)
      else let sc' = sc\<lparr>sc_last_observed_ms := now\<rparr> in
        if (case latest of None \<Rightarrow> False | Some t \<Rightarrow> t > now) then (Inl TimeMovedBackwards, sc')
        else case deadlines sc timing latest of
            Inl e \<Rightarrow> (Inl e, sc')
          | Inr (s, a, r, h) \<Rightarrow> (Inr (decide sc now (earliest [s, a, r] h) (due_reasons now s r a h)), sc'))"
  by (auto simp: poll_def sc_observe_time_def deadlines_def and_then_def decide_def due_reasons_zero Let_def
      split: sum.splits option.splits)

text \<open>C25: The announced wake-up time is exact. When a poll answers that nothing is to be sent before
  \<open>wake\<close>, that time is in the future; until then every further poll gives the same answer; and
  at that time a send is due, unless an explicit deferral is still in force, which the answer then
  names.\<close>

theorem scheduler_wakeup_exact:
  assumes "poll sc now timing latest = (Inr (Pending wake), sc')"
  shows "now < wake
    \<and> (\<forall>t. now \<le> t \<and> t < wake \<longrightarrow> fst (poll sc' t timing latest) = Inr (Pending wake))
    \<and> (\<exists>answer. fst (poll sc' wake timing latest) = Inr answer
         \<and> (case answer of Send plan \<Rightarrow> wp_reasons plan \<noteq> 0
             | Pending later \<Rightarrow> sc_send_not_before_ms sc = Some later \<and> wake < later))"
proof -
  obtain s a r h where d: "deadlines sc timing latest = Inr (s, a, r, h)"
    and dec: "decide sc now (earliest [s, a, r] h) (due_reasons now s r a h) = Pending wake"
    and sc': "sc' = sc\<lparr>sc_last_observed_ms := now\<rparr>" and obs: "\<not> now < sc_last_observed_ms sc"
    and old: "case latest of None \<Rightarrow> True | Some t \<Rightarrow> t \<le> now"
    using assms by (auto simp: poll_eq Let_def not_less split: if_splits sum.splits option.splits prod.splits)
  let ?e = "earliest [s, a, r] h"
  have again: "fst (poll sc' t timing latest) = Inr (decide sc t ?e (due_reasons t s r a h))" if "now \<le> t" for t
    using that d old
    by (auto simp: poll_eq sc' Let_def decide_def not_less split: option.splits intro: order.trans)
  have zero: "due_reasons t s r a h \<noteq> 0 \<longleftrightarrow> ?e \<le> t" for t by (simp add: due_reasons_zero)
  from decide_Pending [OF dec] show ?thesis
  proof (elim disjE conjE)
    assume due: "?e \<le> now" "sc_send_not_before_ms sc = Some wake" "now < wake"
    have "decide sc t ?e (due_reasons t s r a h) = Pending wake" if "now \<le> t" "t < wake" for t
      by (rule decide_deferred [OF _ due(2) that(2)]) (rule order.trans [OF due(1) that(1)])
    moreover have "?e \<le> wake" using due(1,3) by (rule order.trans [OF _ less_imp_le])
    then have "decide sc wake ?e (due_reasons wake s r a h) =
        Send \<lparr>wp_generation = sc_generation sc, wp_planned_at_ms = wake, wp_reasons = due_reasons wake s r a h\<rparr>"
      using due(2) by (simp add: decide_def Let_def)
    ultimately show ?thesis using due(3) again [of wake] again zero [of wake] \<open>?e \<le> wake\<close> by simp
  next
    assume early: "now < ?e" "wake = ?e"
    have "decide sc t ?e (due_reasons t s r a h) = Pending wake" if "t < wake" for t
      using that unfolding early(2) by (rule decide_early)
    moreover have "case decide sc wake ?e (due_reasons wake s r a h) of Send plan \<Rightarrow> wp_reasons plan \<noteq> 0
        | Pending later \<Rightarrow> sc_send_not_before_ms sc = Some later \<and> wake < later"
      using decide_due [of ?e wake "due_reasons wake s r a h" sc] early(2) zero [of wake] by auto
    moreover have "now < wake" using early by simp
    ultimately show ?thesis using again [of wake] again by simp
  qed
qed

theorem scheduler_wakeup_exact_witness:
  "fst (poll (snd (poll (SendScheduler_new 5) 6 RttEstimator_new None)) 3004 RttEstimator_new None)
     = Inr (Pending 3005)"
proof -
  have "poll (SendScheduler_new 5) 6 RttEstimator_new None
      = (Inr (Pending 3005), (SendScheduler_new 5)\<lparr>sc_last_observed_ms := 6\<rparr>)"
    by (simp add: poll_eq SendScheduler_new_def deadlines_def local_change_due_def transpose_result_def
        checked_deadline_def checked_add_def decide_def earliest_def)
  from scheduler_wakeup_exact [OF this] this show ?thesis by simp
qed

text \<open>C26: A session is never silent for more than three seconds. If a poll answers with a wake-up
  time and no send has been deferred, that time is at most 3000 ms after the last send, or after the
  start if nothing was sent yet; a poll at or after that time that answers at all answers Send.\<close>

theorem heartbeat_bound:
  assumes "poll sc now timing latest = (Inr answer, sc')" and "sc_send_not_before_ms sc = None"
  shows "case answer of
      Pending wake \<Rightarrow> unat wake \<le> unat (case sc_last_send_ms sc of None \<Rightarrow> sc_started_at_ms sc | Some t \<Rightarrow> t) + 3000
        \<and> unat now < unat (case sc_last_send_ms sc of None \<Rightarrow> sc_started_at_ms sc | Some t \<Rightarrow> t) + 3000
    | Send plan \<Rightarrow> wp_reasons plan \<noteq> 0 \<and> wp_generation plan = sc_generation sc' \<and> wp_planned_at_ms plan = sc_last_observed_ms sc'"
proof -
  let ?base = "case sc_last_send_ms sc of None \<Rightarrow> sc_started_at_ms sc | Some t \<Rightarrow> t"
  obtain s a r h where d: "deadlines sc timing latest = Inr (s, a, r, h)"
    and dec: "answer = decide sc now (earliest [s, a, r] h) (due_reasons now s r a h)"
    and sc': "sc' = sc\<lparr>sc_last_observed_ms := now\<rparr>"
    using assms by (auto simp: poll_eq Let_def split: if_splits sum.splits option.splits prod.splits)
  have "checked_add ?base 3000 = Some h"
    using d by (auto simp: deadlines_def and_then_def checked_deadline_def split: sum.splits)
  then have h: "unat h = unat ?base + 3000" by (auto dest: checked_add_unat)
  have "earliest [s, a, r] h \<le> h" by (simp add: earliest_le)
  then show ?thesis
    using h assms(2) by (auto simp: dec decide_def Let_def sc' due_reasons_zero word_le_nat_alt not_le)
qed

theorem heartbeat_bound_witness:
  "\<exists>plan. fst (poll (SendScheduler_new 5) 3005 RttEstimator_new None) = Inr (Send plan) \<and> wp_reasons plan \<noteq> 0"
proof -
  obtain plan sc' where p: "poll (SendScheduler_new 5) 3005 RttEstimator_new None = (Inr (Send plan), sc')"
    by (simp add: poll_eq SendScheduler_new_def deadlines_def local_change_due_def transpose_result_def
        checked_deadline_def checked_add_def decide_def earliest_def)
  from heartbeat_bound [OF p] p show ?thesis by (simp add: SendScheduler_new_def)
qed

section \<open>Wake plans as one-time tokens\<close>

inductive scheduler_step :: "SendScheduler \<Rightarrow> SendScheduler \<Rightarrow> bool"
  where
    step_note_local: "scheduler_step sc (snd (note_local_change sc now))"
  | step_note_ack: "scheduler_step sc (snd (note_acknowledgement_needed sc now))"
  | step_poll: "scheduler_step sc (snd (poll sc now timing latest))"
  | step_commit: "scheduler_step sc (snd (scheduler_commit_send sc plan))"
  | step_defer: "scheduler_step sc (snd (defer_send sc now delay))"

lemma next_generation_Inr: "next_generation sc = Inr g \<Longrightarrow> sc_generation sc < g"
  by (auto simp: next_generation_def dest: checked_add_one_less)

lemma scheduler_commit_okD:
  assumes "scheduler_commit_send sc plan = (Inr u, sc')"
  shows "wp_generation plan = sc_generation sc \<and> sc_generation sc < sc_generation sc'"
  using assms by (auto simp: scheduler_commit_send_def and_then_eq_Inr_iff dest: next_generation_Inr split: if_splits)

lemma note_generation:
  "sc_generation sc \<le> sc_generation (snd (note_local_change sc now))"
  "sc_generation sc \<le> sc_generation (snd (note_acknowledgement_needed sc now))"
  by (auto simp: note_local_change_def note_acknowledgement_needed_def sc_observe_time_def and_then_def
      next_generation_def ok_or_def split: option.splits sum.splits dest: checked_add_one_less)

lemma poll_generation: "sc_generation (snd (poll sc now timing latest)) = sc_generation sc"
  by (auto simp: poll_eq Let_def split: option.splits sum.splits prod.splits)

lemma commit_generation: "sc_generation sc \<le> sc_generation (snd (scheduler_commit_send sc plan))"
  by (auto simp: scheduler_commit_send_def and_then_def next_generation_def ok_or_def
      split: option.splits dest: checked_add_one_less)

lemma defer_generation: "sc_generation (snd (defer_send sc now delay)) = sc_generation sc"
  by (auto simp: defer_send_def and_then_def sc_observe_time_def checked_deadline_def ok_or_def split: option.splits)

lemma scheduler_step_mono: "scheduler_step sc sc' \<Longrightarrow> sc_generation sc \<le> sc_generation sc'"
  by (induction rule: scheduler_step.induct)
    (simp_all add: note_generation poll_generation commit_generation defer_generation)

interpretation wake_plans: plan_commit sc_generation wp_generation scheduler_commit_send scheduler_step
  by unfold_locales (auto dest: scheduler_commit_okD scheduler_step_mono)

text \<open>One wake-up gives one send, and nothing that changed since is lost. A wake plan that was
  committed is refused in every later state; and a plan made before a new local change was noted is
  refused after it, so that the change keeps its own deadline.\<close>

theorem wake_plan_safe:
  "(scheduler_commit_send sc plan = (Inr u, sc') \<and> scheduler_step\<^sup>*\<^sup>* sc' later \<longrightarrow>
      \<not> is_ok (scheduler_commit_send later plan))
   \<and> (poll sc now timing latest = (Inr (Send plan), sc1) \<and> sc_local_change_at_ms sc1 = None
        \<and> note_local_change sc1 changed = (Inr u, sc2) \<and> scheduler_step\<^sup>*\<^sup>* sc2 later \<longrightarrow>
      \<not> is_ok (scheduler_commit_send later plan))"
proof (intro conjI impI)
  show "\<not> is_ok (scheduler_commit_send later plan)"
    if "scheduler_commit_send sc plan = (Inr u, sc') \<and> scheduler_step\<^sup>*\<^sup>* sc' later"
    using that wake_plans.committed_once by blast
  assume a: "poll sc now timing latest = (Inr (Send plan), sc1) \<and> sc_local_change_at_ms sc1 = None
        \<and> note_local_change sc1 changed = (Inr u, sc2) \<and> scheduler_step\<^sup>*\<^sup>* sc2 later"
  then have "wp_generation plan = sc_generation sc1"
    by (auto simp: poll_eq Let_def decide_def split: if_splits option.splits sum.splits prod.splits)
  moreover have "sc_generation sc1 < sc_generation sc2"
    using a by (auto simp: note_local_change_def sc_observe_time_def and_then_eq_Inr_iff
        dest: next_generation_Inr split: if_splits)
  ultimately show "\<not> is_ok (scheduler_commit_send later plan)"
    using a wake_plans.generation_mono [of sc2 later] wake_plans.overtaken_plan_refused [of plan sc1 later]
    by (auto intro: order_less_le_trans)
qed

theorem wake_plan_safe_witness:
  "\<exists>plan sc1. poll (SendScheduler_new 5) 3005 RttEstimator_new None = (Inr (Send plan), sc1)
     \<and> \<not> is_ok (scheduler_commit_send (snd (scheduler_commit_send sc1 plan)) plan)"
proof -
  obtain plan sc1 where p: "poll (SendScheduler_new 5) 3005 RttEstimator_new None = (Inr (Send plan), sc1)"
    "wp_generation plan = sc_generation sc1" "wp_planned_at_ms plan = sc_last_observed_ms sc1" "sc_generation sc1 = 0"
    by (simp add: poll_eq SendScheduler_new_def deadlines_def local_change_due_def transpose_result_def
        checked_deadline_def checked_add_def decide_def earliest_def)
  then have "scheduler_commit_send sc1 plan = (Inr (), snd (scheduler_commit_send sc1 plan))"
    by (simp add: scheduler_commit_send_def next_generation_def checked_add_def)
  then show ?thesis using wake_plan_safe [THEN conjunct1, rule_format, OF conjI] p(1) by blast
qed

end
