(* ===== verification/Reachability.thy ===== *)
theory Reachability
  imports Limits
begin

text \<open>
  The reachability warning of \<open>src/session/reachability.rs\<close>: what the session tells the user
  about the peer, as a function of the last contact and of the last acknowledged send. The
  watch channel that publishes the value is tokio's and is not part of the model.

  The lemmas show which value \<open>update\<close> computes and that the deadline the driver sleeps on is
  the first time at which it computes a different one.
\<close>

section \<open>The tracker\<close>

datatype SessionInterruption = NoRecentContact | NoRecentReply

datatype SessionReachability = AwaitingPeer | Responsive | Interrupted SessionInterruption

datatype ReachabilityError = TimeMovedBackwards | TimerExhausted

record ReachabilityTracker =
  rt_current :: SessionReachability
  rt_last_contact_ms :: "u64 option"
  rt_last_reply_ms :: u64

definition ReachabilityTracker_new :: ReachabilityTracker
  where "ReachabilityTracker_new =
    \<lparr> rt_current = AwaitingPeer, rt_last_contact_ms = None, rt_last_reply_ms = 0 \<rparr>"

definition note_contact :: "ReachabilityTracker \<Rightarrow> u64 \<Rightarrow> ReachabilityTracker"
  where "note_contact t now = t\<lparr> rt_last_contact_ms := Some now \<rparr>"

definition note_reply :: "ReachabilityTracker \<Rightarrow> u64 \<Rightarrow> ReachabilityTracker"
  where "note_reply t acknowledged_sent_at_ms =
    t\<lparr> rt_last_reply_ms := max (rt_last_reply_ms t) acknowledged_sent_at_ms \<rparr>"

definition calculate :: "ReachabilityTracker \<Rightarrow> u64 \<Rightarrow> ReachabilityError + SessionReachability"
  where "calculate t now =
    (case rt_last_contact_ms t of
       None \<Rightarrow> Inr AwaitingPeer
     | Some last_contact \<Rightarrow>
         (case checked_sub now last_contact of
            None \<Rightarrow> Inl TimeMovedBackwards
          | Some contact_age \<Rightarrow>
              if contact_age \<ge> NO_RECENT_CONTACT_MS then Inr (Interrupted NoRecentContact)
              else
                (case checked_sub now (rt_last_reply_ms t) of
                   None \<Rightarrow> Inl TimeMovedBackwards
                 | Some reply_age \<Rightarrow>
                     if reply_age \<ge> NO_RECENT_REPLY_MS then Inr (Interrupted NoRecentReply)
                     else Inr Responsive)))"

definition reachability_update ::
    "ReachabilityTracker \<Rightarrow> u64 \<Rightarrow> (ReachabilityError, SessionReachability option, ReachabilityTracker) outcome"
  where "reachability_update t now =
    (case calculate t now of
       Inl e \<Rightarrow> (Inl e, t)
     | Inr upcoming \<Rightarrow>
         if upcoming = rt_current t then (Inr None, t)
         else (Inr (Some upcoming), t\<lparr> rt_current := upcoming \<rparr>))"

definition attachment_timed_out :: "ReachabilityTracker \<Rightarrow> u64 \<Rightarrow> bool"
  where "attachment_timed_out t now \<longleftrightarrow>
    rt_last_contact_ms t = None \<and> now \<ge> INITIAL_ATTACHMENT_TIMEOUT_MS"

definition contact_deadline_ms :: "ReachabilityTracker \<Rightarrow> ReachabilityError + u64"
  where "contact_deadline_ms t =
    (case rt_last_contact_ms t of
       None \<Rightarrow> Inl TimeMovedBackwards
     | Some last_contact \<Rightarrow> ok_or TimerExhausted (checked_add last_contact NO_RECENT_CONTACT_MS))"

definition reachability_next_deadline_ms :: "ReachabilityTracker \<Rightarrow> ReachabilityError + u64 option"
  where "reachability_next_deadline_ms t =
    (case rt_current t of
       AwaitingPeer \<Rightarrow> Inr (Some INITIAL_ATTACHMENT_TIMEOUT_MS)
     | Responsive \<Rightarrow>
         (case contact_deadline_ms t of
            Inl e \<Rightarrow> Inl e
          | Inr contact \<Rightarrow>
              (case checked_add (rt_last_reply_ms t) NO_RECENT_REPLY_MS of
                 None \<Rightarrow> Inl TimerExhausted
               | Some reply \<Rightarrow> Inr (Some (min contact reply))))
     | Interrupted NoRecentReply \<Rightarrow>
         (case contact_deadline_ms t of Inl e \<Rightarrow> Inl e | Inr contact \<Rightarrow> Inr (Some contact))
     | Interrupted NoRecentContact \<Rightarrow> Inr None)"

section \<open>Ages\<close>

text \<open>A window that starts at \<open>start\<close> and lasts \<open>span\<close> has passed at \<open>now\<close>.\<close>

definition passed :: "u64 \<Rightarrow> u64 \<Rightarrow> u64 \<Rightarrow> bool"
  where "passed start span now \<longleftrightarrow> unat start + unat span \<le> unat now"

lemma checked_sub_age:
  "checked_sub now start = Some age \<Longrightarrow> start \<le> now \<and> (age \<ge> span \<longleftrightarrow> passed start span now)"
  by (auto simp: checked_sub_def passed_def word_le_nat_alt unat_sub_if' split: if_splits)

lemma checked_add_passed:
  "checked_add start span = Some d \<Longrightarrow> d \<le> now \<longleftrightarrow> passed start span now"
  by (auto simp: checked_add_def passed_def word_le_nat_alt unat_add_no_overflow split: if_splits)

lemma passed_mono: "passed start span t \<Longrightarrow> t \<le> now \<Longrightarrow> passed start span now"
  by (simp add: passed_def word_le_nat_alt)

text \<open>What the tracker has to say at a time, from the two windows alone.\<close>

fun reachability_at :: "u64 option \<Rightarrow> u64 \<Rightarrow> u64 \<Rightarrow> SessionReachability"
  where
    "reachability_at None reply now = AwaitingPeer"
  | "reachability_at (Some contact) reply now =
       (if passed contact NO_RECENT_CONTACT_MS now then Interrupted NoRecentContact
        else if passed reply NO_RECENT_REPLY_MS now then Interrupted NoRecentReply
        else Responsive)"

lemma calculate_ok_iff:
  "calculate t now = Inr r \<longleftrightarrow>
     r = reachability_at (rt_last_contact_ms t) (rt_last_reply_ms t) now \<and>
     (case rt_last_contact_ms t of None \<Rightarrow> True
      | Some contact \<Rightarrow> contact \<le> now \<and>
          (passed contact NO_RECENT_CONTACT_MS now \<or> rt_last_reply_ms t \<le> now))"
proof (cases "rt_last_contact_ms t")
  case None
  then show ?thesis by (auto simp: calculate_def)
next
  case (Some contact)
  have age: "checked_sub now start = (if start \<le> now then Some (now - start) else None)" for start
    by (simp add: checked_sub_def)
  have window: "span \<le> now - start \<longleftrightarrow> passed start span now" if "start \<le> now" for start span
    using checked_sub_age [of now start "now - start" span] that by (simp add: age)
  show ?thesis
  proof (cases "contact \<le> now")
    case True
    then show ?thesis
      by (cases "rt_last_reply_ms t \<le> now") (auto simp: calculate_def Some age window)
  next
    case False
    then show ?thesis by (simp add: calculate_def Some age)
  qed
qed

lemma calculate_later:
  assumes "calculate t now = Inr r" and "now \<le> later"
  shows "calculate t later = Inr (reachability_at (rt_last_contact_ms t) (rt_last_reply_ms t) later)"
  using assms by (auto simp: calculate_ok_iff split: option.splits intro: order_trans passed_mono)

lemma reachability_update_okD:
  assumes "reachability_update t now = (Inr r, t')"
  shows "calculate t' now = Inr (rt_current t')"
    and "t' = t\<lparr> rt_current := reachability_at (rt_last_contact_ms t) (rt_last_reply_ms t) now \<rparr>"
    and "r = (if rt_current t' = rt_current t then None else Some (rt_current t'))"
  using assms
  by (auto simp: reachability_update_def calculate_ok_iff split: sum.splits if_splits option.splits)

section \<open>Properties\<close>

text \<open>The reachability that \<open>update\<close> stores and reports is the one the two windows give:
  awaiting the peer before any contact, interrupted without contact for 6.5 s, interrupted
  without reply for 10 s, and responsive otherwise; it reports a value exactly when the value
  changes.\<close>

theorem reachability_update_exact:
  assumes "reachability_update t now = (Inr r, t')"
  shows "rt_current t' = reachability_at (rt_last_contact_ms t) (rt_last_reply_ms t) now
    \<and> (r = None \<longleftrightarrow> rt_current t' = rt_current t) \<and> (\<forall>v. r = Some v \<longrightarrow> rt_current t' = v)
    \<and> rt_last_contact_ms t' = rt_last_contact_ms t \<and> rt_last_reply_ms t' = rt_last_reply_ms t"
  using reachability_update_okD [OF assms] by auto

theorem reachability_update_exact_witness:
  "rt_current (note_contact ReachabilityTracker_new 5) = AwaitingPeer
    \<and> (let t' = (note_contact ReachabilityTracker_new 5)\<lparr> rt_current := Responsive \<rparr>
       in rt_current t' = reachability_at (Some 5) 0 10 \<and> rt_current t' = Responsive)"
  using reachability_update_exact [of "note_contact ReachabilityTracker_new 5" 10 "Some Responsive"
      "(note_contact ReachabilityTracker_new 5)\<lparr> rt_current := Responsive \<rparr>"]
  by (simp add: note_contact_def ReachabilityTracker_new_def reachability_update_def calculate_def
      checked_sub_def Let_def)

text \<open>C36: After an update, the next deadline is exact: every update from then on and before the
  deadline reports no change; at the deadline and later an update reports a change, or, while
  no peer has been heard, the attachment has timed out; without a deadline nothing changes by
  the passing of time.\<close>

theorem reachability_deadline_exact:
  assumes "reachability_update t0 start = (Inr r0, t)"
    and "reachability_next_deadline_ms t = Inr deadline" and "start \<le> now"
  shows "if rt_current t = AwaitingPeer
    then fst (reachability_update t now) = Inr None
       \<and> deadline = Some INITIAL_ATTACHMENT_TIMEOUT_MS
       \<and> (attachment_timed_out t now \<longleftrightarrow> INITIAL_ATTACHMENT_TIMEOUT_MS \<le> now)
    else (\<exists>r. fst (reachability_update t now) = Inr r \<and>
            (r = None \<longleftrightarrow> (case deadline of None \<Rightarrow> True | Some d \<Rightarrow> now < d)))"
proof -
  note ok = reachability_update_okD(1) [OF assms(1)]
  have now: "rt_current t = reachability_at (rt_last_contact_ms t) (rt_last_reply_ms t) start"
    using ok by (simp add: calculate_ok_iff)
  have later: "fst (reachability_update t now) =
      Inr (let v = reachability_at (rt_last_contact_ms t) (rt_last_reply_ms t) now
           in if v = rt_current t then None else Some v)"
    unfolding reachability_update_def calculate_later [OF ok assms(3)] by (simp add: Let_def)
  show ?thesis
  proof (cases "rt_last_contact_ms t")
    case None
    with assms(2) now later show ?thesis
      by (auto simp: reachability_next_deadline_ms_def attachment_timed_out_def Let_def)
  next
    case (Some contact)
    have before: "passed s w start \<Longrightarrow> passed s w now" for s w
      using passed_mono assms(3) by blast
    have due: "checked_add s w = Some d \<Longrightarrow> now < d \<longleftrightarrow> \<not> passed s w now" for s w d
      using checked_add_passed [of s w d now] by (simp add: not_le [symmetric])
    show ?thesis
      using assms(2) now later before
      by (auto dest: sym simp: Some reachability_next_deadline_ms_def contact_deadline_ms_def ok_or_def Let_def due
          split: if_splits option.splits)
  qed
qed

theorem reachability_deadline_exact_witness:
  "let t = (note_contact ReachabilityTracker_new 5)\<lparr> rt_current := Responsive \<rparr>
   in fst (reachability_update t 6504) = Inr None \<and> fst (reachability_update t 6505) \<noteq> Inr None"
  using reachability_deadline_exact [of "note_contact ReachabilityTracker_new 5" 10 "Some Responsive"
      "(note_contact ReachabilityTracker_new 5)\<lparr> rt_current := Responsive \<rparr>" "Some 6505" 6504]
    reachability_deadline_exact [of "note_contact ReachabilityTracker_new 5" 10 "Some Responsive"
      "(note_contact ReachabilityTracker_new 5)\<lparr> rt_current := Responsive \<rparr>" "Some 6505" 6505]
  by (auto simp add: note_contact_def ReachabilityTracker_new_def reachability_update_def calculate_def
      reachability_next_deadline_ms_def contact_deadline_ms_def checked_add_def ok_or_def
      checked_sub_def Let_def)

end
