(* ===== verification/Bootstrap.thy ===== *)
theory Bootstrap
  imports Limits Packet
begin

text \<open>
  The parser of the untrusted \<open>mosh-server\<close> output, \<open>src/bootstrap.rs\<close>, with the errors of
  \<open>src/error.rs\<close>. The Base64 engine is the crate \<open>base64\<close>: a parameter \<open>decode_slice\<close> that takes
  the encoded text and the size of the output buffer and returns the bytes it wrote. An IPv4
  address is its 32 bits.

  The lemmas describe Rust's \<open>split\<close> by its inverse, read the port as a decimal number, and
  show that the parser accepts exactly the outputs with one canonical connect record.
\<close>

section \<open>Text as bytes\<close>

definition ascii :: "string \<Rightarrow> bytes"
  where "ascii s = map of_char s"

definition is_ascii_whitespace :: "u8 \<Rightarrow> bool"
  where "is_ascii_whitespace b \<longleftrightarrow> b \<in> {0x20, 0x09, 0x0A, 0x0C, 0x0D}"

definition is_ascii_digit :: "u8 \<Rightarrow> bool"
  where "is_ascii_digit b \<longleftrightarrow> 0x30 \<le> b \<and> b \<le> 0x39"

text \<open>\<open>slice::split\<close>: the pieces between the separators, one more than there are separators.\<close>

fun split_on :: "('a \<Rightarrow> bool) \<Rightarrow> 'a list \<Rightarrow> 'a list list"
  where
    "split_on P [] = [[]]"
  | "split_on P (x # xs) =
       (if P x then [] # split_on P xs
        else (case split_on P xs of [] \<Rightarrow> [[x]] | ys # yss \<Rightarrow> (x # ys) # yss))"

text \<open>\<open>slice::split_inclusive\<close>: every piece but the last ends with its separator, and there is
  no empty piece.\<close>

fun split_inclusive :: "('a \<Rightarrow> bool) \<Rightarrow> 'a list \<Rightarrow> 'a list list"
  where
    "split_inclusive P [] = []"
  | "split_inclusive P (x # xs) =
       (if P x then [x] # split_inclusive P xs
        else (case split_inclusive P xs of [] \<Rightarrow> [[x]] | ys # yss \<Rightarrow> (x # ys) # yss))"

definition strip_suffix :: "'a \<Rightarrow> 'a list \<Rightarrow> 'a list option"
  where "strip_suffix x xs = (if xs \<noteq> [] \<and> last xs = x then Some (butlast xs) else None)"

section \<open>The parser\<close>

datatype BootstrapError =
    OutputTooLarge
  | TooManyLines
  | MissingConnectRecord
  | AmbiguousConnectRecord
  | MalformedConnectRecord
  | InvalidPort
  | InvalidKey

record Bootstrap =
  bs_server_addr :: SocketAddrV4
  bs_session_key :: SessionKey

definition CONNECT_WORDS :: "bytes list"
  where "CONNECT_WORDS = [ascii ''MOSH'', ascii ''CONNECT'']"

definition physical_line_count :: "bytes \<Rightarrow> nat"
  where "physical_line_count text =
    (if text = [] then 0
     else length (filter (\<lambda>b. b = 0x0A) text) + (if last text = 0x0A then 0 else 1))"

definition looks_like_connect_record :: "bytes \<Rightarrow> bool"
  where "looks_like_connect_record line \<longleftrightarrow>
    take 2 (filter (\<lambda>word. word \<noteq> []) (split_on is_ascii_whitespace line)) = CONNECT_WORDS"

definition parse_port :: "bytes \<Rightarrow> BootstrapError + u16"
  where "parse_port bs =
    (if 5 < length bs \<or> \<not> list_all is_ascii_digit bs then Inl InvalidPort
     else
       (let port = foldl (\<lambda>port byte. port * 10 + ucast (byte - 0x30)) (0::u32) bs
        in if port \<le> 0xFFFF \<and> ucast port \<noteq> (0::u16) then Inr (ucast port) else Inl InvalidPort))"

definition parse_connect_record ::
    "(bytes \<Rightarrow> nat \<Rightarrow> bytes option) \<Rightarrow> bytes \<Rightarrow> BootstrapError + u16 \<times> bytes"
  where "parse_connect_record decode_slice record_line =
    (if list_ex (\<lambda>b. is_ascii_whitespace b \<and> b \<noteq> 0x20) record_line then Inl MalformedConnectRecord
     else
       (case split_on (\<lambda>b. b = 0x20) record_line of
          mosh # connect # port # encoded_key # rest \<Rightarrow>
            if [mosh, connect] \<noteq> CONNECT_WORDS then Inl MalformedConnectRecord
            else if rest \<noteq> [] \<or> port = [] \<or> encoded_key = [] then Inl MalformedConnectRecord
            else
              (case parse_port port of
                 Inl e \<Rightarrow> Inl e
               | Inr port_number \<Rightarrow>
                   if length encoded_key \<noteq> ENCODED_KEY_BYTES then Inl InvalidKey
                   else
                     (case decode_slice encoded_key DECODED_KEY_BYTES of
                        None \<Rightarrow> Inl InvalidKey
                      | Some decoded \<Rightarrow>
                          if length decoded \<noteq> DECODED_KEY_BYTES then Inl InvalidKey
                          else Inr (port_number, copy_at 0 decoded (replicate DECODED_KEY_BYTES 0))))
        | _ \<Rightarrow> Inl MalformedConnectRecord))"

definition logical_line :: "bytes \<Rightarrow> bytes"
  where "logical_line raw_line =
    (case strip_suffix 0x0A raw_line of
       None \<Rightarrow> raw_line
     | Some line \<Rightarrow> (case strip_suffix 0x0D line of None \<Rightarrow> line | Some stripped \<Rightarrow> stripped))"

fun scan_lines :: "bytes list \<Rightarrow> bytes option \<Rightarrow> BootstrapError + bytes option"
  where
    "scan_lines [] candidate = Inr candidate"
  | "scan_lines (raw_line # raw_lines) candidate =
       (let line = logical_line raw_line
        in if looks_like_connect_record line
           then (if candidate \<noteq> None then Inl AmbiguousConnectRecord
                 else scan_lines raw_lines (Some line))
           else scan_lines raw_lines candidate)"

definition Bootstrap_parse ::
    "(bytes \<Rightarrow> nat \<Rightarrow> bytes option) \<Rightarrow> u32 \<Rightarrow> bytes \<Rightarrow> BootstrapError + Bootstrap"
  where "Bootstrap_parse decode_slice server_address text =
    (if length text > MAX_BOOTSTRAP_BYTES then Inl OutputTooLarge
     else if physical_line_count text > MAX_BOOTSTRAP_LINES then Inl TooManyLines
     else
       (case scan_lines (split_inclusive (\<lambda>b. b = 0x0A) text) None of
          Inl e \<Rightarrow> Inl e
        | Inr None \<Rightarrow> Inl MissingConnectRecord
        | Inr (Some record_line) \<Rightarrow>
            (case parse_connect_record decode_slice record_line of
               Inl e \<Rightarrow> Inl e
             | Inr (port, session_key) \<Rightarrow>
                 Inr \<lparr> bs_server_addr = \<lparr> v4_ip = server_address, v4_port = port \<rparr>, bs_session_key = session_key \<rparr>)))"

section \<open>Splitting\<close>

lemma split_on_neq_Nil [simp]: "split_on P xs \<noteq> []"
  by (induction xs) (auto split: list.splits)

text \<open>A piece and what follows it determine the text, and the other way round.\<close>

lemma split_on_eq_Cons:
  "split_on P xs = y # ys \<longleftrightarrow>
     list_all (\<lambda>x. \<not> P x) y \<and>
     (if ys = [] then xs = y else \<exists>x zs. P x \<and> xs = y @ x # zs \<and> split_on P zs = ys)"
proof (induction xs arbitrary: y)
  case Nil
  then show ?case by auto
next
  case (Cons x xs)
  show ?case
  proof (cases "P x")
    case True
    then show ?thesis by (cases y) auto
  next
    case False
    obtain h t where split: "split_on P xs = h # t" by (cases "split_on P xs") auto
    show ?thesis
    proof (cases y)
      case Nil
      with False split show ?thesis by auto
    next
      case (Cons z y')
      have "split_on P xs = y' # ys \<longleftrightarrow> h = y' \<and> t = ys" using split by simp
      with False split Cons Cons.IH [of y'] show ?thesis by (auto split: if_splits)
    qed
  qed
qed

lemma split_on_four:
  "split_on P xs = [a, b, c, d] \<longleftrightarrow>
     (\<exists>x y z. P x \<and> P y \<and> P z \<and> xs = a @ x # b @ y # c @ z # d) \<and>
     list_all (\<lambda>x. \<not> P x) (a @ b @ c @ d)"
  by (auto simp: split_on_eq_Cons)

lemma concat_split_inclusive: "concat (split_inclusive P xs) = xs"
  by (induction xs) (auto split: list.splits)

lemma split_inclusive_Nil_iff [simp]: "split_inclusive P xs = [] \<longleftrightarrow> xs = []"
  by (cases xs) (auto split: list.splits)

text \<open>The counted lines are the pieces that the parser looks at.\<close>

lemma physical_line_count_eq:
  "physical_line_count bs = length (split_inclusive (\<lambda>b. b = 0x0A) bs)"
proof (induction bs)
  case Nil
  then show ?case by (simp add: physical_line_count_def)
next
  case (Cons b bs)
  then show ?case
    by (cases bs) (auto simp: physical_line_count_def split: list.splits)
qed

section \<open>The port\<close>

definition decimal :: "bytes \<Rightarrow> nat"
  where "decimal bs = foldl (\<lambda>v b. v * 10 + (unat b - 48)) 0 bs"

lemma decimal_append: "decimal (bs @ [b]) = decimal bs * 10 + (unat b - 48)"
  by (simp add: decimal_def)

lemma decimal_less: "list_all is_ascii_digit bs \<Longrightarrow> decimal bs < 10 ^ length bs"
proof (induction bs rule: rev_induct)
  case Nil
  then show ?case by (simp add: decimal_def)
next
  case (snoc b bs)
  then have "unat b - 48 \<le> 9" by (auto simp: is_ascii_digit_def word_le_nat_alt)
  with snoc show ?case by (simp add: decimal_append)
qed

text \<open>Up to nine digits the 32-bit accumulator does not wrap.\<close>

lemma port_accumulator:
  assumes "list_all is_ascii_digit bs" and "length bs \<le> 9"
  shows "unat (foldl (\<lambda>port byte. port * 10 + ucast (byte - 0x30)) (0::u32) bs) = decimal bs"
  using assms
proof (induction bs rule: rev_induct)
  case Nil
  then show ?case by (simp add: decimal_def)
next
  case (snoc b bs)
  let ?p = "foldl (\<lambda>port byte. port * 10 + ucast (byte - 0x30)) (0::u32) bs"
  have digit: "unat (ucast (b - 0x30) :: u32) = unat b - 48"
    using snoc.prems
    by (simp add: is_ascii_digit_def word_le_nat_alt unat_sub_if' unat_ucast_widen)
  have "decimal bs < 10 ^ length bs" using decimal_less snoc.prems by simp
  also have "(10::nat) ^ length bs \<le> 10 ^ 8" using snoc.prems by (intro power_increasing) simp_all
  finally have "decimal bs < 10 ^ 8" .
  moreover have "unat b - 48 \<le> 9" using snoc.prems by (auto simp: is_ascii_digit_def word_le_nat_alt)
  ultimately show ?case
    using snoc digit by (simp add: decimal_append unat_word_ariths unat_mult_lem)
qed

lemma parse_port_ok_iff:
  "parse_port bs = Inr p \<longleftrightarrow>
     length bs \<le> 5 \<and> list_all is_ascii_digit bs \<and> decimal bs = unat p \<and> 0 < unat p"
proof (cases "length bs \<le> 5 \<and> list_all is_ascii_digit bs")
  case True
  let ?p = "foldl (\<lambda>port byte. port * 10 + ucast (byte - 0x30)) (0::u32) bs"
  have value_: "unat ?p = decimal bs" using port_accumulator [of bs] True by simp
  have small: "?p \<le> 0xFFFF \<longleftrightarrow> decimal bs < 2 ^ 16" by (auto simp: word_le_nat_alt value_)
  show ?thesis
  proof (cases "decimal bs < 2 ^ 16")
    case True
    have narrow: "unat (ucast ?p :: u16) = decimal bs"
      using True by (simp add: unat_ucast_narrow value_)
    have nonzero: "(ucast ?p :: u16) \<noteq> 0 \<longleftrightarrow> 0 < decimal bs"
      by (simp add: narrow [symmetric] unat_gt_0)
    have same: "(ucast ?p :: u16) = p \<longleftrightarrow> decimal bs = unat p"
      by (simp add: narrow [symmetric] word_unat_eq_iff)
    show ?thesis
      using True small nonzero same \<open>length bs \<le> 5 \<and> list_all is_ascii_digit bs\<close>
      by (auto simp: parse_port_def Let_def)
  next
    case False
    then have "decimal bs \<noteq> unat p"
      using unsigned_less [of p, where ?'a = nat] by auto
    with False small show ?thesis by (auto simp: parse_port_def Let_def)
  qed
next
  case False
  then show ?thesis by (auto simp: parse_port_def)
qed

section \<open>The record\<close>

text \<open>A canonical connect record for a port and a key: the two words, the decimal port and the
  encoded key, with single spaces and no other white space.\<close>

definition canonical_record ::
    "(bytes \<Rightarrow> nat \<Rightarrow> bytes option) \<Rightarrow> bytes \<Rightarrow> u16 \<Rightarrow> bytes \<Rightarrow> bool"
  where "canonical_record decode_slice line port key \<longleftrightarrow>
    (\<exists>digits encoded.
       line = ascii ''MOSH CONNECT '' @ digits @ ascii '' '' @ encoded
       \<and> digits \<noteq> [] \<and> length digits \<le> 5 \<and> list_all is_ascii_digit digits
       \<and> decimal digits = unat port \<and> 0 < unat port
       \<and> length encoded = ENCODED_KEY_BYTES \<and> list_all (\<lambda>b. \<not> is_ascii_whitespace b) encoded
       \<and> decode_slice encoded DECODED_KEY_BYTES = Some key \<and> length key = DECODED_KEY_BYTES)"

lemma ascii_words:
  "ascii ''MOSH CONNECT '' = ascii ''MOSH'' @ 0x20 # ascii ''CONNECT'' @ [0x20]" "ascii '' '' = [0x20]"
  by (simp_all add: ascii_def)

lemma ascii_word_plain:
  "list_all (\<lambda>b. \<not> is_ascii_whitespace b) (ascii ''MOSH'')"
  "list_all (\<lambda>b. \<not> is_ascii_whitespace b) (ascii ''CONNECT'')"
  by (simp_all add: ascii_def is_ascii_whitespace_def)

lemma digit_no_whitespace: "is_ascii_digit b \<Longrightarrow> \<not> is_ascii_whitespace b"
  by (auto simp: is_ascii_digit_def is_ascii_whitespace_def)

lemma parse_connect_record_ok_iff:
  "parse_connect_record decode_slice line = Inr (port, key) \<longleftrightarrow> canonical_record decode_slice line port key"
  (is "?parsed \<longleftrightarrow> ?canonical")
proof
  assume ?parsed
  then obtain digits encoded where
      split: "split_on (\<lambda>b. b = 0x20) line = [ascii ''MOSH'', ascii ''CONNECT'', digits, encoded]"
    and plain: "\<not> list_ex (\<lambda>b. is_ascii_whitespace b \<and> b \<noteq> 0x20) line"
    and rest: "digits \<noteq> []" "parse_port digits = Inr port" "length encoded = ENCODED_KEY_BYTES"
      "decode_slice encoded DECODED_KEY_BYTES = Some key" "length key = DECODED_KEY_BYTES"
    by (auto simp: parse_connect_record_def CONNECT_WORDS_def copy_at_def
        split: if_splits list.splits sum.splits option.splits)
  have line: "line = ascii ''MOSH'' @ 0x20 # ascii ''CONNECT'' @ 0x20 # digits @ 0x20 # encoded"
    and spaces: "list_all (\<lambda>b. b \<noteq> 0x20) encoded"
    using split by (auto simp: split_on_four)
  have "list_all (\<lambda>b. \<not> is_ascii_whitespace b) encoded"
    using plain spaces unfolding line by (auto simp: list_all_iff list_ex_iff)
  with rest line show ?canonical
    unfolding canonical_record_def by (auto simp: parse_port_ok_iff ascii_words)
next
  assume ?canonical
  then obtain digits encoded where
      line: "line = ascii ''MOSH CONNECT '' @ digits @ ascii '' '' @ encoded"
    and port: "parse_port digits = Inr port" "digits \<noteq> []" "list_all is_ascii_digit digits"
    and key: "length encoded = ENCODED_KEY_BYTES" "list_all (\<lambda>b. \<not> is_ascii_whitespace b) encoded"
      "decode_slice encoded DECODED_KEY_BYTES = Some key" "length key = DECODED_KEY_BYTES"
    unfolding canonical_record_def by (auto simp: parse_port_ok_iff)
  have digits: "list_all (\<lambda>b. \<not> is_ascii_whitespace b) digits"
    using port(3) digit_no_whitespace by (auto simp: list_all_iff)
  have space: "is_ascii_whitespace 0x20" by (simp add: is_ascii_whitespace_def)
  have split: "split_on (\<lambda>b. b = 0x20) line = [ascii ''MOSH'', ascii ''CONNECT'', digits, encoded]"
    unfolding split_on_four
    using digits key(2) ascii_word_plain space by (auto simp: line ascii_words list_all_iff)
  have plain: "\<not> list_ex (\<lambda>b. is_ascii_whitespace b \<and> b \<noteq> 0x20) line"
    using digits key(2) ascii_word_plain by (auto simp: line ascii_words list_all_iff list_ex_iff)
  have "encoded \<noteq> []" using key(1) by auto
  then show ?parsed
    using split plain port key by (simp add: parse_connect_record_def CONNECT_WORDS_def copy_at_def)
qed

section \<open>The search for the record\<close>

definition connect_lines :: "bytes \<Rightarrow> bytes list"
  where "connect_lines text =
    filter looks_like_connect_record (map logical_line (split_inclusive (\<lambda>b. b = 0x0A) text))"

lemma scan_lines_eq:
  "scan_lines raw candidate =
     (case (case candidate of None \<Rightarrow> [] | Some c \<Rightarrow> [c]) @
           filter looks_like_connect_record (map logical_line raw) of
        [] \<Rightarrow> Inr None | [line] \<Rightarrow> Inr (Some line) | _ \<Rightarrow> Inl AmbiguousConnectRecord)"
  by (induction raw candidate rule: scan_lines.induct)
    (auto simp: Let_def split: option.splits list.splits)

lemma Bootstrap_parse_eq:
  "Bootstrap_parse decode_slice address text =
    (if length text > MAX_BOOTSTRAP_BYTES then Inl OutputTooLarge
     else if length (split_inclusive (\<lambda>b. b = 0x0A) text) > MAX_BOOTSTRAP_LINES then Inl TooManyLines
     else
       (case connect_lines text of
          [] \<Rightarrow> Inl MissingConnectRecord
        | [line] \<Rightarrow>
            map_sum id (\<lambda>(port, key). \<lparr> bs_server_addr = \<lparr> v4_ip = address, v4_port = port \<rparr>, bs_session_key = key \<rparr>)
              (parse_connect_record decode_slice line)
        | _ \<Rightarrow> Inl AmbiguousConnectRecord))"
  unfolding Bootstrap_parse_def scan_lines_eq physical_line_count_eq connect_lines_def
  by (auto split: list.splits sum.splits)

section \<open>Properties\<close>

text \<open>C34: Parsing server output succeeds exactly when the output is at most 4096 bytes and 64
  lines long and exactly one of its lines looks like a connect record, and that line is the
  canonical record of some port and key; the result is then the given address with that port
  and key.\<close>

theorem bootstrap_parse_exact:
  "Bootstrap_parse decode_slice address text = Inr b \<longleftrightarrow>
     length text \<le> MAX_BOOTSTRAP_BYTES
     \<and> length (split_inclusive (\<lambda>c. c = 0x0A) text) \<le> MAX_BOOTSTRAP_LINES
     \<and> (\<exists>line port key. connect_lines text = [line] \<and> canonical_record decode_slice line port key
          \<and> b = \<lparr> bs_server_addr = \<lparr> v4_ip = address, v4_port = port \<rparr>, bs_session_key = key \<rparr>)"
proof -
  have "map_sum id f x = Inr y \<longleftrightarrow> (\<exists>z. x = Inr z \<and> y = f z)"
    for f :: "u16 \<times> bytes \<Rightarrow> Bootstrap" and x :: "BootstrapError + u16 \<times> bytes" and y
    by (cases x) auto
  then show ?thesis
    unfolding Bootstrap_parse_eq
    by (auto simp: parse_connect_record_ok_iff [symmetric] split: list.splits)
qed

end
