(* ===== verification/Terminal_Difference.thy ===== *)
theory Terminal_Difference
  imports Instruction
begin

text \<open>
  The server's terminal difference, \<open>src/terminal/mod.rs\<close>: the protobuf messages, the operations
  they stand for, and the decoder. The message codec is prost's, a parameter (\<open>'m prost\<close> of
  \<open>Instruction\<close>).

  Shown here: the decoder accepts a message exactly when every element of it is the wire form of
  one operation, and then returns these operations in order.
\<close>

section \<open>Data\<close>

datatype TerminalOperation =
    HostBytes bytes
  | Resize u32 u32
  | EchoAcknowledgement u64

record TerminalDifference =
  difference_operations :: "TerminalOperation list"

datatype TerminalError =
    DifferenceTooLarge
  | TooManyOperations
  | InvalidMessage
  | InvalidOperation
  | InvalidTerminalSize
  | InvalidUtf8
  | IncompleteSequence
  | UnsupportedCharacter
  | UnsupportedControl
  | UnsupportedEscape
  | UnsupportedCsi "u8 option" "u16 option" scalar
  | UnsupportedOsc
  | TooManyScalarsInCell
  | CellEncodingTooLarge

datatype PaintError = OutputTooLarge

record WireHostBytes =
  whb_bytes :: bytes

record WireHostSize =
  whs_columns :: u32
  whs_rows :: u32

record WireEchoAcknowledgement =
  wea_number :: u64

record WireHostOperation =
  who_host_bytes :: "WireHostBytes option"
  who_size :: "WireHostSize option"
  who_echo_acknowledgement :: "WireEchoAcknowledgement option"

record WireHostDifference =
  whd_operations :: "WireHostOperation list"

section \<open>The decoder\<close>

definition known_fields :: "WireHostOperation \<Rightarrow> nat"
  where "known_fields operation =
    of_bool (who_host_bytes operation \<noteq> None) + of_bool (who_size operation \<noteq> None)
      + of_bool (who_echo_acknowledgement operation \<noteq> None)"

fun decode_operations :: "WireHostOperation list \<Rightarrow> TerminalOperation list \<Rightarrow> TerminalError + TerminalOperation list"
  where
    "decode_operations [] operations = Inr operations"
  | "decode_operations (operation # rest) operations =
       (if known_fields operation \<noteq> 1 then Inl InvalidOperation
        else
          decode_operations rest
            (case who_host_bytes operation of
               Some host_bytes \<Rightarrow> operations @ [HostBytes (whb_bytes host_bytes)]
             | None \<Rightarrow>
                 (case who_size operation of
                    Some wire_size \<Rightarrow> operations @ [Resize (whs_columns wire_size) (whs_rows wire_size)]
                  | None \<Rightarrow>
                      (case who_echo_acknowledgement operation of
                         Some echo \<Rightarrow> operations @ [EchoAcknowledgement (wea_number echo)]
                       | None \<Rightarrow> operations))))"

definition TerminalDifference_decode ::
    "WireHostDifference prost \<Rightarrow> bytes \<Rightarrow> TerminalError + TerminalDifference"
  where "TerminalDifference_decode pb bs =
    (if length bs > MAX_STATE_DIFFERENCE_BYTES then Inl DifferenceTooLarge
     else
       (case pb_decode pb bs of
          None \<Rightarrow> Inl InvalidMessage
        | Some wire \<Rightarrow>
            if length (whd_operations wire) > MAX_TERMINAL_OPERATIONS_PER_DIFFERENCE
            then Inl TooManyOperations
            else
              (case decode_operations (whd_operations wire) [] of
                 Inl e \<Rightarrow> Inl e
               | Inr operations \<Rightarrow> Inr \<lparr> difference_operations = operations \<rparr>)))"

fun echo_number :: "TerminalOperation \<Rightarrow> u64 option"
  where
    "echo_number (EchoAcknowledgement number) = Some number"
  | "echo_number _ = None"

fun find_map :: "('a \<Rightarrow> 'b option) \<Rightarrow> 'a list \<Rightarrow> 'b option"
  where
    "find_map f [] = None"
  | "find_map f (x # xs) = (case f x of Some y \<Rightarrow> Some y | None \<Rightarrow> find_map f xs)"

definition latest_echo_acknowledgement :: "TerminalDifference \<Rightarrow> u64 option"
  where "latest_echo_acknowledgement difference =
    find_map echo_number (rev (difference_operations difference))"

section \<open>The wire form of an operation\<close>

fun wire_host_operation :: "TerminalOperation \<Rightarrow> WireHostOperation"
  where
    "wire_host_operation (HostBytes bs) =
       \<lparr> who_host_bytes = Some \<lparr> whb_bytes = bs \<rparr>, who_size = None, who_echo_acknowledgement = None \<rparr>"
  | "wire_host_operation (Resize columns rows) =
       \<lparr> who_host_bytes = None, who_size = Some \<lparr> whs_columns = columns, whs_rows = rows \<rparr>,
         who_echo_acknowledgement = None \<rparr>"
  | "wire_host_operation (EchoAcknowledgement number) =
       \<lparr> who_host_bytes = None, who_size = None,
         who_echo_acknowledgement = Some \<lparr> wea_number = number \<rparr> \<rparr>"

lemma wire_host_operation_inj: "wire_host_operation a = wire_host_operation b \<Longrightarrow> a = b"
  by (cases a; cases b) auto

lemma known_fields_one: "known_fields w = 1 \<longleftrightarrow> (\<exists>operation. w = wire_host_operation operation)"
proof
  assume one: "known_fields w = 1"
  obtain b s e where w: "w = \<lparr> who_host_bytes = b, who_size = s, who_echo_acknowledgement = e \<rparr>"
    by (cases w)
  consider x where "b = Some x" "s = None" "e = None" | x where "b = None" "s = Some x" "e = None"
    | x where "b = None" "s = None" "e = Some x"
    using one unfolding w known_fields_def by (cases b; cases s; cases e) auto
  then show "\<exists>operation. w = wire_host_operation operation"
  proof cases
    case 1
    then show ?thesis by (intro exI [of _ "HostBytes (whb_bytes x)"]) (simp add: w)
  next
    case 2
    then show ?thesis by (intro exI [of _ "Resize (whs_columns x) (whs_rows x)"]) (simp add: w)
  next
    case 3
    then show ?thesis by (intro exI [of _ "EchoAcknowledgement (wea_number x)"]) (simp add: w)
  qed
next
  assume "\<exists>operation. w = wire_host_operation operation"
  then obtain operation where "w = wire_host_operation operation" ..
  then show "known_fields w = 1" by (cases operation) (simp_all add: known_fields_def)
qed

lemma decode_wire_operation:
  "decode_operations (wire_host_operation x # rest) operations = decode_operations rest (operations @ [x])"
  by (cases x) (simp_all add: known_fields_def)

lemma decode_operations_ok_iff:
  "decode_operations wire operations = Inr decoded \<longleftrightarrow>
     (\<exists>xs. wire = map wire_host_operation xs \<and> decoded = operations @ xs)"
proof (induction wire arbitrary: operations)
  case Nil
  then show ?case by auto
next
  case (Cons w wire)
  show ?case
  proof (cases "known_fields w = 1")
    case True
    then obtain x where w: "w = wire_host_operation x" using known_fields_one by blast
    show ?thesis
      unfolding w decode_wire_operation Cons.IH
      by (auto simp: Cons_eq_map_conv dest: wire_host_operation_inj)
  next
    case False
    then show ?thesis using known_fields_one [of w] by (auto simp: Cons_eq_map_conv)
  qed
qed

lemma find_map_append: "find_map f (xs @ ys) = (case find_map f xs of Some y \<Rightarrow> Some y | None \<Rightarrow> find_map f ys)"
  by (induction xs) (auto split: option.splits)

lemma find_map_None_iff: "find_map f xs = None \<longleftrightarrow> (\<forall>x \<in> set xs. f x = None)"
  by (induction xs) (auto split: option.splits)

section \<open>Properties\<close>

text \<open>C35: A received difference is accepted exactly when it is at most 2 MiB long, is a protobuf
  message with at most 4096 elements, and every element has exactly one known field, that is,
  is the wire form of one operation; the decoded operations are those, in the order of the
  message.\<close>

theorem terminal_difference_exact:
  "TerminalDifference_decode pb bs = Inr difference \<longleftrightarrow>
     length bs \<le> MAX_STATE_DIFFERENCE_BYTES
     \<and> length (difference_operations difference) \<le> MAX_TERMINAL_OPERATIONS_PER_DIFFERENCE
     \<and> pb_decode pb bs =
         Some \<lparr> whd_operations = map wire_host_operation (difference_operations difference) \<rparr>"
proof (cases "pb_decode pb bs")
  case None
  then show ?thesis by (simp add: TerminalDifference_decode_def)
next
  case (Some wire)
  obtain ws where wire: "wire = \<lparr> whd_operations = ws \<rparr>" by (cases wire)
  obtain ds where d: "difference = \<lparr> difference_operations = ds \<rparr>" by (cases difference)
  have "decode_operations ws [] = Inr ds \<longleftrightarrow> ws = map wire_host_operation ds"
    by (auto simp: decode_operations_ok_iff)
  then show ?thesis
    unfolding TerminalDifference_decode_def Some wire d by (auto split: sum.splits)
qed

end
