(* ===== verification/Driver_Error.thy ===== *)
theory Driver_Error
  imports Packet Fragment Instruction Synchronization Timing Reachability Terminal_Difference
begin

text \<open>
  The errors of the session driver (\<open>src/session/driver.rs\<close>) and their public categories
  (\<open>src/session.rs\<close>). Rust's conversions \<open>From<E> for DriverError\<close> are the constructors. A \<open>fault\<close>
  is how a driver operation can end without a value: an error it returns, or a panic.
\<close>

section \<open>Errors\<close>

text \<open>The kinds of \<open>std::io::ErrorKind\<close> that the source names; the rest are numbered.\<close>

datatype ErrorKind =
    NetworkDown
  | NetworkUnreachable
  | HostUnreachable
  | AddrNotAvailable
  | PermissionDenied
  | WriteZero
  | OtherErrorKind nat

datatype DriverError =
    Io ErrorKind
  | Packet PacketError
  | Fragment FragmentError
  | Reassembly ReassemblyError
  | Instruction InstructionError
  | Synchronization SynchronizationError
  | Timing TimingError
  | Reachability ReachabilityError
  | Terminal TerminalError
  | Paint PaintError
  | MissingClientState
  | MissingTerminalState
  | OperationIndexExhausted
  | FragmentIdentifierExhausted
  | ClockExhausted
  | ConnectionTimeout
  | IncompleteDatagramSend

datatype SessionError =
    SessionIo ErrorKind
  | SessionInvalidTerminalSize
  | SessionConnectionTimeout
  | Protocol
  | ResourceLimit
  | StateExhausted
  | InternalState

fun instruction_session_error :: "InstructionError \<Rightarrow> SessionError"
  where
    "instruction_session_error DecodedTooLarge = ResourceLimit"
  | "instruction_session_error CompressedTooLarge = ResourceLimit"
  | "instruction_session_error InputTooLarge = ResourceLimit"
  | "instruction_session_error TooManyClientOperations = ResourceLimit"
  | "instruction_session_error StateDifferenceTooLarge = ResourceLimit"
  | "instruction_session_error _ = Protocol"

fun session_error :: "DriverError \<Rightarrow> SessionError"
  where
    "session_error (Io kind) = SessionIo kind"
  | "session_error ConnectionTimeout = SessionConnectionTimeout"
  | "session_error (Terminal e) =
       (if e = TerminalError.InvalidTerminalSize then SessionInvalidTerminalSize else Protocol)"
  | "session_error (Instruction e) = instruction_session_error e"
  | "session_error (Paint _) = ResourceLimit"
  | "session_error (Reassembly e) =
       (if e \<in> {ReassemblyError.InstructionTooLarge, ReassemblyError.TooManyIncompleteInstructions} then ResourceLimit
        else if e = ReassemblyError.TimerExhausted then StateExhausted
        else Protocol)"
  | "session_error IncompleteDatagramSend = SessionIo WriteZero"
  | "session_error MissingClientState = InternalState"
  | "session_error MissingTerminalState = InternalState"
  | "session_error OperationIndexExhausted = StateExhausted"
  | "session_error FragmentIdentifierExhausted = StateExhausted"
  | "session_error ClockExhausted = StateExhausted"
  | "session_error (Reachability _) = StateExhausted"
  | "session_error (Packet e) = (if e = PacketError.SequenceExhausted then StateExhausted else Protocol)"
  | "session_error (Synchronization e) =
       (if e \<in> {SynchronizationError.StateNumberExhausted, SynchronizationError.GenerationExhausted}
        then StateExhausted else Protocol)"
  | "session_error (Timing e) =
       (if e \<in> {TimingError.TimerExhausted, TimingError.GenerationExhausted} then StateExhausted
        else Protocol)"
  | "session_error (Fragment _) = Protocol"

definition is_recoverable_established_io_error :: "ErrorKind \<Rightarrow> bool"
  where "is_recoverable_established_io_error kind \<longleftrightarrow>
    kind \<in> {NetworkDown, NetworkUnreachable, HostUnreachable, AddrNotAvailable, PermissionDenied}"

section \<open>Faults\<close>

datatype fault = Raised DriverError | Panicked

text \<open>The question mark operator on a plain result, with the conversion of the error.\<close>

definition lift_error :: "('e \<Rightarrow> DriverError) \<Rightarrow> 'e + 'a \<Rightarrow> fault + 'a"
  where "lift_error conversion r = (case r of Inl e \<Rightarrow> Inl (Raised (conversion e)) | Inr x \<Rightarrow> Inr x)"

lemma lift_error_simps [simp]:
  "lift_error c (Inl e) = Inl (Raised (c e))" "lift_error c (Inr x) = Inr x"
  by (simp_all add: lift_error_def)

lemma lift_error_Inr_iff [simp]: "lift_error c r = Inr x \<longleftrightarrow> r = Inr x"
  by (cases r) auto

lemma lift_error_Inl_iff: "lift_error c r = Inl f \<longleftrightarrow> (\<exists>e. r = Inl e \<and> f = Raised (c e))"
  by (cases r) auto

end
