(* ===== verification/Client_History.thy ===== *)
theory Client_History
  imports Driver_Error Ordered_Map
begin

text \<open>
  The client's side of the state synchronization, \<open>src/session/client_history.rs\<close>: the operations
  that the peer has not yet acknowledged, and for every state number that may still be a base or
  a target the position of its checkpoint.

  The specification is the log of all operations since the start. A history refines a log when
  it keeps the end of it and its checkpoints are positions in it; a state number then stands for
  a prefix of the log, its \<open>snapshot\<close>. Shown here: the operations keep the refinement, and the
  difference between two states is the encoding of exactly the operations that one snapshot has
  and the other has not.
\<close>

section \<open>The history\<close>

record ClientHistory =
  ch_operation_offset :: u64
  ch_next_operation :: u64
  ch_operations :: "ClientOperation list"
  ch_checkpoints :: "(u64, u64) btree"

definition ClientHistory_new :: ClientHistory
  where "ClientHistory_new =
    \<lparr> ch_operation_offset = 0, ch_next_operation = 0, ch_operations = [],
      ch_checkpoints = bt_insert 0 0 bt_empty \<rparr>"

definition history_append ::
    "Instruction.TerminalDifference prost \<Rightarrow> ClientHistory \<Rightarrow> ClientOperation \<Rightarrow> (DriverError, unit, ClientHistory) outcome"
  where "history_append pb h operation =
    (if length (ch_operations h) = MAX_CLIENT_OPERATIONS_AFTER_ACK
     then (Inl (Instruction TooManyClientOperations), h)
     else
       (case checked_add (ch_next_operation h) 1 of
          None \<Rightarrow> (Inl OperationIndexExhausted, h)
        | Some next_operation \<Rightarrow>
            (let h1 = h\<lparr> ch_operations := ch_operations h @ [operation] \<rparr>
             in case encode_client_difference pb (ch_operations h1) of
                  Inl e \<Rightarrow> (Inl (Instruction e), h1\<lparr> ch_operations := butlast (ch_operations h1) \<rparr>)
                | Inr _ \<Rightarrow> (Inr (), h1\<lparr> ch_next_operation := next_operation \<rparr>))))"

definition checkpoint :: "ClientHistory \<Rightarrow> u64 \<Rightarrow> ClientHistory"
  where "checkpoint h state =
    h\<lparr> ch_checkpoints := bt_insert state (ch_next_operation h) (ch_checkpoints h) \<rparr>"

definition history_difference ::
    "Instruction.TerminalDifference prost \<Rightarrow> ClientHistory \<Rightarrow> u64 \<Rightarrow> u64 \<Rightarrow> DriverError + bytes"
  where "history_difference pb h base target =
    (case (bt_get (ch_checkpoints h) base, bt_get (ch_checkpoints h) target) of
       (Some start, Some stop) \<Rightarrow>
         (case (checked_sub start (ch_operation_offset h), checked_sub stop (ch_operation_offset h)) of
            (Some i, Some j) \<Rightarrow>
              if unat i \<le> unat j \<and> unat j \<le> length (ch_operations h)
              then
                (case encode_client_difference pb (slice (unat i) (unat j) (ch_operations h)) of
                   Inl e \<Rightarrow> Inl (Instruction e)
                 | Inr encoded \<Rightarrow> Inr encoded)
              else Inl MissingClientState
          | _ \<Rightarrow> Inl MissingClientState)
     | _ \<Rightarrow> Inl MissingClientState)"

text \<open>\<open>VecDeque::drain\<close> panics when the range ends beyond the queue.\<close>

definition acknowledge :: "ClientHistory \<Rightarrow> u64 \<Rightarrow> (fault, unit, ClientHistory) outcome"
  where "acknowledge h state =
    (case bt_get (ch_checkpoints h) state of
       None \<Rightarrow> (Inl (Raised MissingClientState), h)
     | Some acknowledged \<Rightarrow>
         (case checked_sub acknowledged (ch_operation_offset h) of
            None \<Rightarrow> (Inl (Raised MissingClientState), h)
          | Some discard \<Rightarrow>
              if unat discard > length (ch_operations h) then (Inl Panicked, h)
              else
                (Inr (),
                 h\<lparr> ch_operations := drop (unat discard) (ch_operations h),
                    ch_operation_offset := acknowledged,
                    ch_checkpoints := bt_retain (\<lambda>number. number \<ge> state) (ch_checkpoints h) \<rparr>)))"

definition remove_checkpoint :: "ClientHistory \<Rightarrow> u64 \<Rightarrow> ClientHistory"
  where "remove_checkpoint h state = h\<lparr> ch_checkpoints := bt_remove state (ch_checkpoints h) \<rparr>"

section \<open>The log\<close>

text \<open>Documented behaviour of protobuf: the encoding of a repeated field is the concatenation of the
  encodings of its elements, so its length is additive.\<close>

definition repeated_additive :: "Instruction.TerminalDifference prost \<Rightarrow> bool"
  where "repeated_additive pb \<longleftrightarrow>
    (\<forall>xs ys. pb_encoded_len pb \<lparr> td_operations = xs @ ys \<rparr> =
       pb_encoded_len pb \<lparr> td_operations = xs \<rparr> + pb_encoded_len pb \<lparr> td_operations = ys \<rparr>)"

definition encodable :: "Instruction.TerminalDifference prost \<Rightarrow> ClientOperation list \<Rightarrow> bool"
  where "encodable pb operations \<longleftrightarrow>
    encode_client_difference pb operations =
      Inr (pb_encode_to_vec pb \<lparr> td_operations = map wire_form operations \<rparr>)"

definition history_refines :: "Instruction.TerminalDifference prost \<Rightarrow> ClientHistory \<Rightarrow> ClientOperation list \<Rightarrow> bool"
  where "history_refines pb h log \<longleftrightarrow>
    unat (ch_next_operation h) = length log
    \<and> ch_operation_offset h \<le> ch_next_operation h
    \<and> ch_operations h = drop (unat (ch_operation_offset h)) log
    \<and> encodable pb (ch_operations h)
    \<and> bt_inv (ch_checkpoints h)
    \<and> (\<forall>k v. bt_get (ch_checkpoints h) k = Some v \<longrightarrow> ch_operation_offset h \<le> v \<and> v \<le> ch_next_operation h)
    \<and> (\<forall>j k v w. j \<le> k \<longrightarrow> bt_get (ch_checkpoints h) j = Some v \<longrightarrow> bt_get (ch_checkpoints h) k = Some w \<longrightarrow> v \<le> w)"

definition snapshot :: "ClientHistory \<Rightarrow> ClientOperation list \<Rightarrow> u64 \<Rightarrow> ClientOperation list option"
  where "snapshot h log state =
    map_option (\<lambda>place. take (unat place) log) (bt_get (ch_checkpoints h) state)"

lemma encodable_iff:
  "encodable pb operations \<longleftrightarrow>
     length operations \<le> MAX_CLIENT_OPERATIONS_AFTER_ACK \<and> list_all operation_ok operations
     \<and> pb_encoded_len pb \<lparr> td_operations = map wire_form operations \<rparr> \<le> MAX_STATE_DIFFERENCE_BYTES"
proof -
  have "filter (\<lambda>operation. \<not> operation_ok operation) operations = [] \<longleftrightarrow> list_all operation_ok operations"
    by (auto simp: filter_empty_conv list_all_iff)
  then show ?thesis
    unfolding encodable_def
    by (auto simp: encode_client_difference_def wire_operations_eq Let_def not_less
        split: list.splits if_splits)
qed

lemma encodable_okI: "encode_client_difference pb operations = Inr bs \<Longrightarrow> encodable pb operations"
  using encode_client_difference_okD [of pb operations bs] by (simp add: encodable_iff)

lemma encodable_slice:
  assumes "repeated_additive pb" and "encodable pb operations"
  shows "encodable pb (take n (drop m operations))"
proof -
  let ?len = "\<lambda>xs. pb_encoded_len pb \<lparr> td_operations = map wire_form xs \<rparr>"
  have add: "?len (xs @ ys) = ?len xs + ?len ys" for xs ys
    using assms(1) by (simp add: repeated_additive_def)
  have "?len operations = ?len (take m operations) + (?len (take n (drop m operations)) + ?len (drop n (drop m operations)))"
    by (metis add append_take_drop_id)
  then show ?thesis
    using assms(2) unfolding encodable_iff
    by (auto simp: list_all_iff dest!: in_set_takeD in_set_dropD)
qed

section \<open>The operations keep the refinement\<close>

lemma history_refines_new: "pb_encoded_len pb \<lparr> td_operations = [] \<rparr> = 0 \<Longrightarrow> history_refines pb ClientHistory_new []"
  by (auto simp: history_refines_def ClientHistory_new_def encodable_iff btree_simps btree.wf_put
      split: if_splits)

lemma history_append_ok:
  assumes "history_refines pb h log" and "history_append pb h operation = (Inr (), h')"
  shows "history_refines pb h' (log @ [operation])"
    and "ch_checkpoints h' = ch_checkpoints h" and "ch_operation_offset h' = ch_operation_offset h"
proof -
  obtain n bs where n: "checked_add (ch_next_operation h) 1 = Some n"
    and enc: "encode_client_difference pb (ch_operations h @ [operation]) = Inr bs"
    and h': "h' = h\<lparr> ch_operations := ch_operations h @ [operation], ch_next_operation := n \<rparr>"
    using assms(2) by (auto simp: history_append_def Let_def split: if_splits option.splits sum.splits)
  have step: "unat n = Suc (unat (ch_next_operation h))" and less: "ch_next_operation h \<le> n"
    using n by (auto simp: checked_add_def unat_add_no_overflow word_le_nat_alt split: if_splits)
  have "unat (ch_operation_offset h) \<le> length log"
    using assms(1) by (simp add: history_refines_def word_le_nat_alt)
  then show "history_refines pb h' (log @ [operation])"
    using assms(1) step less encodable_okI [OF enc]
    by (auto simp: history_refines_def h' intro: order_trans)
  show "ch_checkpoints h' = ch_checkpoints h" "ch_operation_offset h' = ch_operation_offset h"
    by (simp_all add: h')
qed

lemma history_append_err: "history_append pb h operation = (Inl e, h') \<Longrightarrow> h' = h"
  by (auto simp: history_append_def Let_def split: if_splits option.splits sum.splits)

lemma history_refines_checkpoint:
  assumes "history_refines pb h log" and "\<And>k v. bt_get (ch_checkpoints h) k = Some v \<Longrightarrow> k \<le> state"
  shows "history_refines pb (checkpoint h state) log"
  using assms
  by (auto simp: history_refines_def checkpoint_def btree_simps btree.wf_put split: if_splits
      dest: order.antisym)

lemma history_refines_remove:
  "history_refines pb h log \<Longrightarrow> history_refines pb (remove_checkpoint h state) log"
  by (auto simp: history_refines_def remove_checkpoint_def btree_simps btree.wf_del split: if_splits)

lemma acknowledge_ok:
  assumes "history_refines pb h log" and "repeated_additive pb"
    and "bt_get (ch_checkpoints h) state = Some place"
  obtains h' where "acknowledge h state = (Inr (), h')" and "history_refines pb h' log"
    and "ch_checkpoints h' = bt_retain (\<lambda>number. number \<ge> state) (ch_checkpoints h)"
proof -
  note inv = assms(1) [unfolded history_refines_def]
  have enc: "encodable pb (ch_operations h)" using inv by blast
  let ?d = "place - ch_operation_offset h"
  have bounds: "ch_operation_offset h \<le> place" "place \<le> ch_next_operation h"
    using inv assms(3) by blast+
  have d: "unat ?d = unat place - unat (ch_operation_offset h)"
    using bounds(1) by (simp add: word_le_nat_alt unat_sub_if')
  have fits: "unat ?d \<le> length (ch_operations h)"
    using inv bounds by (auto simp: d word_le_nat_alt)
  define h' where "h' = h\<lparr> ch_operations := drop (unat ?d) (ch_operations h),
      ch_operation_offset := place,
      ch_checkpoints := bt_retain (\<lambda>number. number \<ge> state) (ch_checkpoints h) \<rparr>"
  have "drop (unat ?d) (ch_operations h) = drop (unat place) log"
    using inv bounds(1) by (simp add: d word_le_nat_alt)
  moreover have "encodable pb (drop (unat ?d) (ch_operations h))"
    using encodable_slice [OF assms(2) enc, of "length (ch_operations h)" "unat ?d"] by simp
  moreover have "place \<le> v" if "state \<le> k" "bt_get (ch_checkpoints h) k = Some v" for k v
    using inv assms(3) that by blast
  ultimately have refines: "history_refines pb h' log"
    using inv bounds
    by (auto simp: history_refines_def h'_def btree_simps btree.wf_keep split: if_splits)
  have "acknowledge h state = (Inr (), h')"
    using assms(3) bounds(1) fits by (simp add: acknowledge_def checked_sub_def h'_def)
  then show thesis by (rule that [OF _ refines]) (simp add: h'_def)
qed

text \<open>The difference of two states is the operations of the log between their checkpoints.\<close>

lemma history_difference_slice:
  assumes "history_refines pb h log" and "repeated_additive pb"
    and "bt_get (ch_checkpoints h) base = Some i" and "bt_get (ch_checkpoints h) target = Some j" and "i \<le> j"
  shows "history_difference pb h base target =
    Inr (pb_encode_to_vec pb \<lparr> td_operations = map wire_form (slice (unat i) (unat j) log) \<rparr>)"
proof -
  note inv = assms(1) [unfolded history_refines_def]
  have enc: "encodable pb (ch_operations h)" using inv by blast
  let ?o = "ch_operation_offset h"
  have bounds: "?o \<le> i" "?o \<le> j" "j \<le> ch_next_operation h"
    using inv assms(3,4) by blast+
  have nat: "unat (i - ?o) = unat i - unat ?o" "unat (j - ?o) = unat j - unat ?o"
    using bounds by (simp_all add: word_le_nat_alt unat_sub_if')
  have part: "slice (unat i - unat ?o) (unat j - unat ?o) (ch_operations h) = slice (unat i) (unat j) log"
    using inv bounds assms(5) by (simp add: slice_def word_le_nat_alt)
  have "encodable pb (slice (unat i - unat ?o) (unat j - unat ?o) (ch_operations h))"
    unfolding slice_def by (rule encodable_slice [OF assms(2) enc])
  then have coded: "encode_client_difference pb (slice (unat i) (unat j) log) =
      Inr (pb_encode_to_vec pb \<lparr> td_operations = map wire_form (slice (unat i) (unat j) log) \<rparr>)"
    unfolding part encodable_def .
  have fits: "unat i - unat ?o \<le> unat j - unat ?o" "unat j - unat ?o \<le> length (ch_operations h)"
    using inv bounds assms(5) by (auto simp: word_le_nat_alt)
  show ?thesis
    using bounds fits by (simp add: history_difference_def checked_sub_def assms(3,4) nat part coded)
qed

section \<open>Runs\<close>

text \<open>What the driver does with a history: it appends operations, checkpoints a state number larger
  than every earlier one, acknowledges a state it still has, and drops a checkpoint.\<close>

inductive history_reachable :: "Instruction.TerminalDifference prost \<Rightarrow> ClientHistory \<Rightarrow> ClientOperation list \<Rightarrow> bool"
  for pb
  where
    start: "history_reachable pb ClientHistory_new []"
  | append: "history_reachable pb h log \<Longrightarrow> history_append pb h operation = (Inr (), h') \<Longrightarrow>
      history_reachable pb h' (log @ [operation])"
  | mark: "history_reachable pb h log \<Longrightarrow> \<forall>k \<in> set (bt_keys (ch_checkpoints h)). k \<le> state \<Longrightarrow>
      history_reachable pb (checkpoint h state) log"
  | forget: "history_reachable pb h log \<Longrightarrow> history_reachable pb (remove_checkpoint h state) log"
  | acknowledged: "history_reachable pb h log \<Longrightarrow> acknowledge h state = (Inr (), h') \<Longrightarrow>
      history_reachable pb h' log"

lemma history_reachable_refines:
  assumes "history_reachable pb h log" and "repeated_additive pb"
  shows "history_refines pb h log"
  using assms(1)
proof (induction rule: history_reachable.induct)
  case start
  have "pb_encoded_len pb \<lparr> td_operations = [] \<rparr> = 0"
    using assms(2) [unfolded repeated_additive_def, rule_format, of "[]" "[]"] by simp
  then show ?case by (rule history_refines_new)
next
  case (append h log operation h')
  then show ?case by (intro history_append_ok(1))
next
  case (mark h log state)
  then have "bt_inv (ch_checkpoints h)" by (simp add: history_refines_def)
  with mark show ?case by (intro history_refines_checkpoint) (auto simp: btree.mem_keys)
next
  case (forget h log state)
  then show ?case by (intro history_refines_remove)
next
  case (acknowledged h log state h')
  then obtain place where "bt_get (ch_checkpoints h) state = Some place"
    by (auto simp: acknowledge_def split: option.splits)
  from acknowledge_ok [OF acknowledged.IH assms(2) this] acknowledged.hyps show ?case by auto
qed

section \<open>Properties\<close>

text \<open>C29: In every history the driver can build, the difference from one kept state to a later kept
  state succeeds and is the encoding of exactly the operations by which the later snapshot of
  the log extends the earlier one.\<close>

theorem history_difference_exact:
  assumes "repeated_additive pb" and "history_reachable pb h log"
    and "snapshot h log base = Some earlier" and "snapshot h log target = Some later" and "base \<le> target"
  shows "\<exists>operations. later = earlier @ operations
    \<and> history_difference pb h base target =
        Inr (pb_encode_to_vec pb \<lparr> td_operations = map wire_form operations \<rparr>)"
proof -
  have refines: "history_refines pb h log" by (rule history_reachable_refines [OF assms(2,1)])
  obtain i j where i: "bt_get (ch_checkpoints h) base = Some i" "earlier = take (unat i) log"
    and j: "bt_get (ch_checkpoints h) target = Some j" "later = take (unat j) log"
    using assms(3,4) by (auto simp: snapshot_def)
  have "i \<le> j" using refines i(1) j(1) assms(5) unfolding history_refines_def by blast
  then have "later = earlier @ slice (unat i) (unat j) log"
    by (simp add: i j slice_def word_le_nat_alt take_add [symmetric])
  with history_difference_slice [OF refines assms(1) i(1) j(1) \<open>i \<le> j\<close>] show ?thesis by blast
qed

text \<open>A codec for the witnesses that charges one byte per operation.\<close>

definition demo_difference_prost :: "Instruction.TerminalDifference prost"
  where "demo_difference_prost =
    \<lparr> pb_encode_to_vec = (\<lambda>d. replicate (length (td_operations d)) 7),
      pb_encoded_len = (\<lambda>d. length (td_operations d)), pb_decode = (\<lambda>_. None) \<rparr>"

definition demo_history :: ClientHistory
  where "demo_history =
    checkpoint (checkpoint (snd (history_append demo_difference_prost ClientHistory_new (Input [65]))) 1) 2"

lemma demo_repeated_additive: "repeated_additive demo_difference_prost"
  by (simp add: repeated_additive_def demo_difference_prost_def)

lemma demo_history_eq:
  "history_append demo_difference_prost ClientHistory_new (Input [65]) =
     (Inr (), \<lparr> ch_operation_offset = 0, ch_next_operation = 1, ch_operations = [Input [65]],
               ch_checkpoints = [(0, 0)] \<rparr>)"
  "demo_history = \<lparr> ch_operation_offset = 0, ch_next_operation = 1, ch_operations = [Input [65]],
     ch_checkpoints = [(0, 0), (1, 1), (2, 1)] \<rparr>"
proof -
  show eq: "history_append demo_difference_prost ClientHistory_new (Input [65]) =
     (Inr (), \<lparr> ch_operation_offset = 0, ch_next_operation = 1, ch_operations = [Input [65]],
               ch_checkpoints = [(0, 0)] \<rparr>)"
    by (simp add: history_append_def ClientHistory_new_def bt_empty_def checked_add_def
        encode_client_difference_def wire_operation_eq operation_ok_def demo_difference_prost_def)
  show "demo_history = \<lparr> ch_operation_offset = 0, ch_next_operation = 1, ch_operations = [Input [65]],
     ch_checkpoints = [(0, 0), (1, 1), (2, 1)] \<rparr>"
    unfolding demo_history_def eq by (simp add: checkpoint_def)
qed

lemma demo_history_reachable: "history_reachable demo_difference_prost demo_history [Input [65]]"
proof -
  let ?h = "snd (history_append demo_difference_prost ClientHistory_new (Input [65]))"
  have "history_reachable demo_difference_prost ?h ([] @ [Input [65]])"
    by (rule history_reachable.append [OF history_reachable.start]) (simp add: demo_history_eq(1))
  then have "history_reachable demo_difference_prost (checkpoint ?h 1) [Input [65]]"
    unfolding append_Nil by (rule history_reachable.mark) (simp add: demo_history_eq(1) bt_keys_def)
  then show ?thesis
    unfolding demo_history_def
    by (rule history_reachable.mark) (simp add: demo_history_eq(1) checkpoint_def bt_keys_def)
qed

theorem history_difference_exact_witness:
  "history_difference demo_difference_prost demo_history 0 2 = Inr [7]"
  using history_difference_exact [OF demo_repeated_additive demo_history_reachable, of 0 "[]" 2 "[Input [65]]"]
  by (simp add: snapshot_def demo_history_eq(2) bt_get_def demo_difference_prost_def)

text \<open>C30: Acknowledging a kept state never fails and never panics; it keeps every later state with
  its snapshot, forgets every earlier one, and leaves at most the operations after the
  acknowledged snapshot in memory.\<close>

theorem history_acknowledge_exact:
  assumes "repeated_additive pb" and "history_reachable pb h log" and "snapshot h log state = Some prefix"
  shows "\<exists>h'. acknowledge h state = (Inr (), h') \<and> log = prefix @ ch_operations h'
    \<and> (\<forall>k. snapshot h' log k = (if state \<le> k then snapshot h log k else None))"
proof -
  have refines: "history_refines pb h log" by (rule history_reachable_refines [OF assms(2,1)])
  obtain i where i: "bt_get (ch_checkpoints h) state = Some i" "prefix = take (unat i) log"
    using assms(3) by (auto simp: snapshot_def)
  obtain h' where h': "acknowledge h state = (Inr (), h')" "history_refines pb h' log"
      "ch_checkpoints h' = bt_retain (\<lambda>number. number \<ge> state) (ch_checkpoints h)"
    by (rule acknowledge_ok [OF refines assms(1) i(1)])
  have "ch_operation_offset h' = i"
    using h'(1) i(1) by (auto simp: acknowledge_def split: option.splits if_splits)
  then have "log = prefix @ ch_operations h'" using h'(2) by (simp add: history_refines_def i(2))
  moreover have "bt_inv (ch_checkpoints h)" using refines by (simp add: history_refines_def)
  ultimately show ?thesis using h'(1,3) by (auto simp: snapshot_def btree_simps)
qed

theorem history_acknowledge_exact_witness:
  "\<exists>h'. acknowledge demo_history 1 = (Inr (), h') \<and> ch_operations h' = []
     \<and> snapshot h' [Input [65]] 0 = None \<and> snapshot h' [Input [65]] 2 = Some [Input [65]]"
proof -
  have kept: "snapshot demo_history [Input [65]] 1 = Some [Input [65]]"
    "snapshot demo_history [Input [65]] 2 = Some [Input [65]]"
    by (simp_all add: snapshot_def demo_history_eq(2) bt_get_def)
  from history_acknowledge_exact [OF demo_repeated_additive demo_history_reachable kept(1)] kept(2)
  show ?thesis by auto
qed

end
