(* ===== verification/Escape.thy ===== *)
theory Escape
  imports Mosh_Prelude
begin

text \<open>
  The control sequences that the painter writes, \<open>src/vt100/term.rs\<close>, with the data they mention:
  colors (\<open>src/vt100/attrs.rs\<close>), positions (\<open>src/vt100/grid.rs\<close>) and mouse modes
  (\<open>src/vt100/screen.rs\<close>). A \<open>write_buf\<close> only appends to the buffer, so it is modelled by the bytes it
  appends. The decimal digits of a number come from the crate \<open>itoa\<close>, a parameter.

  Rows, columns and counts are \<open>u16\<close>; they are natural numbers here, and \<open>add16\<close>, \<open>sub16\<close> write the
  wrap-around of release builds out.
\<close>

section \<open>Numbers of 16 bits\<close>

definition add16 :: "nat \<Rightarrow> nat \<Rightarrow> nat"
  where "add16 a b = (if a + b < 65536 then a + b else a + b - 65536)"

definition sub16 :: "nat \<Rightarrow> nat \<Rightarrow> nat"
  where "sub16 a b = (if b \<le> a then a - b else a + 65536 - b)"

definition saturating_add16 :: "nat \<Rightarrow> nat \<Rightarrow> nat"
  where "saturating_add16 a b = min 65535 (a + b)"

definition saturating_sub16 :: "nat \<Rightarrow> nat \<Rightarrow> nat"
  where "saturating_sub16 a b = a - b"

lemma add16_eq [simp]: "a + b < 65536 \<Longrightarrow> add16 a b = a + b"
  by (simp add: add16_def)

lemma sub16_eq [simp]: "b \<le> a \<Longrightarrow> sub16 a b = a - b"
  by (simp add: sub16_def)

section \<open>Data\<close>

datatype Color = Default | Idx u8 | Rgb u8 u8 u8

record Pos =
  pos_row :: nat
  pos_col :: nat

definition Pos_default :: Pos
  where "Pos_default = \<lparr> pos_row = 0, pos_col = 0 \<rparr>"

datatype MouseProtocolMode = NoMouse | Press | PressRelease | ButtonMotion | AnyMotion

datatype MouseProtocolEncoding = DefaultEncoding | Utf8Encoding | Sgr

type_synonym itoa = "nat \<Rightarrow> bytes"

definition ESC :: u8 where "ESC = 0x1B"
definition CSI :: bytes where "CSI = [ESC, 0x5B]"

section \<open>Fixed sequences\<close>

definition ClearScreen :: bytes where "ClearScreen = CSI @ [0x48] @ CSI @ [0x4A]"
definition ClearRowForward :: bytes where "ClearRowForward = CSI @ [0x4B]"
definition Crlf :: bytes where "Crlf = [0x0D, 0x0A]"
definition Backspace :: bytes where "Backspace = [0x08]"
definition SaveCursor :: bytes where "SaveCursor = [ESC, 0x37]"
definition RestoreCursor :: bytes where "RestoreCursor = [ESC, 0x38]"
definition ClearAttrs :: bytes where "ClearAttrs = CSI @ [0x6D]"

text \<open>A private mode is set with a final \<open>h\<close> and reset with a final \<open>l\<close>.\<close>

definition private_mode :: "bytes \<Rightarrow> bool \<Rightarrow> bytes"
  where "private_mode digits state = CSI @ [0x3F] @ digits @ [if state then 0x68 else 0x6C]"

definition HideCursor :: "bool \<Rightarrow> bytes"
  where "HideCursor state = private_mode [0x32, 0x35] (\<not> state)"

definition ReverseVideo :: "bool \<Rightarrow> bytes"
  where "ReverseVideo state = private_mode [0x35] state"

definition ApplicationKeypad :: "bool \<Rightarrow> bytes"
  where "ApplicationKeypad state = [ESC, if state then 0x3D else 0x3E]"

definition ApplicationCursor :: "bool \<Rightarrow> bytes"
  where "ApplicationCursor state = private_mode [0x31] state"

definition BracketedPaste :: "bool \<Rightarrow> bytes"
  where "BracketedPaste state = private_mode [0x32, 0x30, 0x30, 0x34] state"

fun mouse_mode_digits :: "MouseProtocolMode \<Rightarrow> bytes"
  where
    "mouse_mode_digits NoMouse = []"
  | "mouse_mode_digits Press = [0x39]"
  | "mouse_mode_digits PressRelease = [0x31, 0x30, 0x30, 0x30]"
  | "mouse_mode_digits ButtonMotion = [0x31, 0x30, 0x30, 0x32]"
  | "mouse_mode_digits AnyMotion = [0x31, 0x30, 0x30, 0x33]"

definition MouseProtocolMode_write :: "MouseProtocolMode \<Rightarrow> MouseProtocolMode \<Rightarrow> bytes"
  where "MouseProtocolMode_write mode prev =
    (if mode = prev then []
     else if mode = NoMouse then private_mode (mouse_mode_digits prev) False
     else private_mode (mouse_mode_digits mode) True)"

fun mouse_encoding_digits :: "MouseProtocolEncoding \<Rightarrow> bytes"
  where
    "mouse_encoding_digits DefaultEncoding = []"
  | "mouse_encoding_digits Utf8Encoding = [0x31, 0x30, 0x30, 0x35]"
  | "mouse_encoding_digits Sgr = [0x31, 0x30, 0x30, 0x36]"

definition MouseProtocolEncoding_write :: "MouseProtocolEncoding \<Rightarrow> MouseProtocolEncoding \<Rightarrow> bytes"
  where "MouseProtocolEncoding_write encoding prev =
    (if encoding = prev then []
     else if encoding = DefaultEncoding then private_mode (mouse_encoding_digits prev) False
     else private_mode (mouse_encoding_digits encoding) True)"

section \<open>Cursor movement\<close>

definition MoveTo :: "itoa \<Rightarrow> Pos \<Rightarrow> bytes"
  where "MoveTo itoa pos =
    (if pos_row pos = 0 \<and> pos_col pos = 0 then CSI @ [0x48]
     else CSI @ itoa (add16 (pos_row pos) 1) @ [0x3B] @ itoa (add16 (pos_col pos) 1) @ [0x48])"

definition MoveRight :: "itoa \<Rightarrow> nat \<Rightarrow> bytes"
  where "MoveRight itoa count =
    (if count = 0 then [] else if count = 1 then CSI @ [0x43] else CSI @ itoa count @ [0x43])"

definition EraseChar :: "itoa \<Rightarrow> nat \<Rightarrow> bytes"
  where "EraseChar itoa count =
    (if count = 0 then [] else if count = 1 then CSI @ [0x58] else CSI @ itoa count @ [0x58])"

definition MoveFromTo :: "itoa \<Rightarrow> Pos \<Rightarrow> Pos \<Rightarrow> bytes"
  where "MoveFromTo itoa from_pos to_pos =
    (if pos_row to_pos = add16 (pos_row from_pos) 1 \<and> pos_col to_pos = 0 then Crlf
     else if pos_row from_pos = pos_row to_pos \<and> pos_col from_pos < pos_col to_pos
       then MoveRight itoa (sub16 (pos_col to_pos) (pos_col from_pos))
     else if to_pos \<noteq> from_pos then MoveTo itoa to_pos
     else [])"

section \<open>Drawing attributes\<close>

datatype Intensity = Normal | Bold | Dim

record TermAttrs =
  ta_fgcolor :: "Color option"
  ta_bgcolor :: "Color option"
  ta_intensity :: "Intensity option"
  ta_italic :: "bool option"
  ta_underline :: "bool option"
  ta_inverse :: "bool option"
  ta_blink :: "bool option"
  ta_hidden :: "bool option"

definition TermAttrs_default :: TermAttrs
  where "TermAttrs_default =
    \<lparr> ta_fgcolor = None, ta_bgcolor = None, ta_intensity = None, ta_italic = None,
      ta_underline = None, ta_inverse = None, ta_blink = None, ta_hidden = None \<rparr>"

definition TermAttrs_is_empty :: "TermAttrs \<Rightarrow> bool"
  where "TermAttrs_is_empty a \<longleftrightarrow>
    ta_fgcolor a = None \<and> ta_bgcolor a = None \<and> ta_intensity a = None \<and> ta_italic a = None
    \<and> ta_underline a = None \<and> ta_inverse a = None \<and> ta_blink a = None \<and> ta_hidden a = None"

text \<open>The macro \<open>write_param\<close> on the buffer and the flag \<open>first\<close>.\<close>

definition write_param :: "itoa \<Rightarrow> nat \<Rightarrow> bytes \<times> bool \<Rightarrow> bytes \<times> bool"
  where "write_param itoa i s =
    (case s of (buf, first) \<Rightarrow> ((if first then buf else buf @ [0x3B]) @ itoa i, False))"

text \<open>The parameters of a color: the base is 30 for the foreground and 40 for the background, the
  offset of the bright colors 82 and 92, the introducer 38 and 48, the default 39 and 49.\<close>

fun color_params :: "nat \<Rightarrow> Color \<Rightarrow> nat list"
  where
    "color_params base Default = [base + 9]"
  | "color_params base (Idx i) =
       (if i < 8 then [unat (i + of_nat base)]
        else if i < 16 then [unat (i + of_nat (base + 52))]
        else [base + 8, 5, unat i])"
  | "color_params base (Rgb r g b) = [base + 8, 2, unat r, unat g, unat b]"

definition intensity_param :: "Intensity \<Rightarrow> nat"
  where "intensity_param i = (case i of Normal \<Rightarrow> 22 | Bold \<Rightarrow> 1 | Dim \<Rightarrow> 2)"

definition switch_param :: "nat \<Rightarrow> bool \<Rightarrow> nat"
  where "switch_param n enabled = (if enabled then n else n + 20)"

definition option_params :: "('a \<Rightarrow> nat list) \<Rightarrow> 'a option \<Rightarrow> nat list"
  where "option_params f v = (case v of None \<Rightarrow> [] | Some x \<Rightarrow> f x)"

definition TermAttrs_params :: "TermAttrs \<Rightarrow> nat list"
  where "TermAttrs_params a =
    option_params (color_params 30) (ta_fgcolor a)
    @ option_params (color_params 40) (ta_bgcolor a)
    @ option_params (\<lambda>i. [intensity_param i]) (ta_intensity a)
    @ option_params (\<lambda>b. [switch_param 3 b]) (ta_italic a)
    @ option_params (\<lambda>b. [switch_param 4 b]) (ta_underline a)
    @ option_params (\<lambda>b. [switch_param 7 b]) (ta_inverse a)
    @ option_params (\<lambda>b. [switch_param 5 b]) (ta_blink a)
    @ option_params (\<lambda>b. [switch_param 8 b]) (ta_hidden a)"

definition TermAttrs_write :: "itoa \<Rightarrow> TermAttrs \<Rightarrow> bytes"
  where "TermAttrs_write itoa a =
    (if TermAttrs_is_empty a then []
     else fst (fold (write_param itoa) (TermAttrs_params a) (CSI, True)) @ [0x6D])"

section \<open>What the parameters look like on the wire\<close>

fun join :: "u8 \<Rightarrow> bytes list \<Rightarrow> bytes"
  where
    "join sep [] = []"
  | "join sep [x] = x"
  | "join sep (x # xs) = x @ sep # join sep xs"

lemma join_Cons: "xs \<noteq> [] \<Longrightarrow> join sep (x # xs) = x @ sep # join sep xs"
  by (cases xs) simp_all

lemma fold_write_param_rest:
  "fold (write_param itoa) ns (buf, False) = (buf @ concat (map (\<lambda>n. 0x3B # itoa n) ns), False)"
  by (induction ns arbitrary: buf) (simp_all add: write_param_def)

lemma fold_write_param:
  "ns \<noteq> [] \<Longrightarrow> fst (fold (write_param itoa) ns (buf, True)) = buf @ join 0x3B (map itoa ns)"
proof (induction ns)
  case (Cons n ns)
  have "concat (map (\<lambda>m. 0x3B # itoa m) ns) = (if ns = [] then [] else 0x3B # join 0x3B (map itoa ns))"
    by (induction ns) (simp_all add: join_Cons)
  moreover have "write_param itoa n (buf, True) = (buf @ itoa n, False)" by (simp add: write_param_def)
  ultimately have "fst (fold (write_param itoa) (n # ns) (buf, True)) =
      buf @ itoa n @ (if ns = [] then [] else 0x3B # join 0x3B (map itoa ns))"
    by (simp add: fold_write_param_rest)
  then show ?case by (simp add: join_Cons)
qed simp

lemma color_params_neq_Nil [simp]: "color_params base c \<noteq> []"
  by (cases c) simp_all

lemma TermAttrs_write_eq:
  "TermAttrs_write itoa a =
     (if TermAttrs_is_empty a then [] else CSI @ join 0x3B (map itoa (TermAttrs_params a)) @ [0x6D])"
proof (cases "TermAttrs_is_empty a")
  case False
  then have "TermAttrs_params a \<noteq> []"
    by (auto simp: TermAttrs_is_empty_def TermAttrs_params_def option_params_def
        split: option.splits)
  then show ?thesis by (simp add: TermAttrs_write_def fold_write_param)
qed (simp add: TermAttrs_write_def)

end
