(* ===== verification/Attributes.thy ===== *)
theory Attributes
  imports Escape
begin

text \<open>
  Drawing attributes: \<open>src/vt100/attrs.rs\<close>, and the interpreter of the SGR parameters, \<open>Screen::sgr\<close>
  of \<open>src/vt100/screen.rs\<close>, which only changes the attributes. The parameters are lists of
  subparameters, as \<open>vte::Params\<close> iterates them. \<open>None\<close> is a panic.

  Shown here: the attributes that SGR sequences can produce never have both intensities, so the
  painter's \<open>unreachable!\<close> is not reached; and the escape code that the painter writes to change
  one set of attributes into another does so when it is interpreted.
\<close>

section \<open>Attributes\<close>

abbreviation (input) TEXT_MODE_INTENSITY :: u8 where "TEXT_MODE_INTENSITY \<equiv> 0x03"
abbreviation (input) TEXT_MODE_BOLD :: u8 where "TEXT_MODE_BOLD \<equiv> 0x01"
abbreviation (input) TEXT_MODE_DIM :: u8 where "TEXT_MODE_DIM \<equiv> 0x02"
abbreviation (input) TEXT_MODE_ITALIC :: u8 where "TEXT_MODE_ITALIC \<equiv> 0x04"
abbreviation (input) TEXT_MODE_UNDERLINE :: u8 where "TEXT_MODE_UNDERLINE \<equiv> 0x08"
abbreviation (input) TEXT_MODE_INVERSE :: u8 where "TEXT_MODE_INVERSE \<equiv> 0x10"
abbreviation (input) TEXT_MODE_BLINK :: u8 where "TEXT_MODE_BLINK \<equiv> 0x20"
abbreviation (input) TEXT_MODE_HIDDEN :: u8 where "TEXT_MODE_HIDDEN \<equiv> 0x40"

record Attrs =
  fgcolor :: Color
  bgcolor :: Color
  text_mode :: u8

definition Attrs_default :: Attrs
  where "Attrs_default = \<lparr> fgcolor = Default, bgcolor = Default, text_mode = 0 \<rparr>"

definition intensity :: "Attrs \<Rightarrow> u8"
  where "intensity a = text_mode a AND TEXT_MODE_INTENSITY"

definition set_intensity :: "u8 \<Rightarrow> Attrs \<Rightarrow> Attrs"
  where "set_intensity mode a = a\<lparr> text_mode := (text_mode a AND NOT TEXT_MODE_INTENSITY) OR mode \<rparr>"

definition set_bold :: "Attrs \<Rightarrow> Attrs" where "set_bold a = set_intensity TEXT_MODE_BOLD a"
definition set_dim :: "Attrs \<Rightarrow> Attrs" where "set_dim a = set_intensity TEXT_MODE_DIM a"

definition set_normal_intensity :: "Attrs \<Rightarrow> Attrs"
  where "set_normal_intensity a = a\<lparr> text_mode := text_mode a AND NOT TEXT_MODE_INTENSITY \<rparr>"

definition text_flag :: "u8 \<Rightarrow> Attrs \<Rightarrow> bool"
  where "text_flag flag a \<longleftrightarrow> text_mode a AND flag \<noteq> 0"

definition set_text_flag :: "u8 \<Rightarrow> bool \<Rightarrow> Attrs \<Rightarrow> Attrs"
  where "set_text_flag flag enabled a =
    (if enabled then a\<lparr> text_mode := text_mode a OR flag \<rparr>
     else a\<lparr> text_mode := text_mode a AND NOT flag \<rparr>)"

definition bold :: "Attrs \<Rightarrow> bool" where "bold = text_flag TEXT_MODE_BOLD"
definition dim :: "Attrs \<Rightarrow> bool" where "dim = text_flag TEXT_MODE_DIM"
definition italic :: "Attrs \<Rightarrow> bool" where "italic = text_flag TEXT_MODE_ITALIC"
definition underline :: "Attrs \<Rightarrow> bool" where "underline = text_flag TEXT_MODE_UNDERLINE"
definition inverse_video :: "Attrs \<Rightarrow> bool" where "inverse_video = text_flag TEXT_MODE_INVERSE"
definition blink :: "Attrs \<Rightarrow> bool" where "blink = text_flag TEXT_MODE_BLINK"
definition hidden :: "Attrs \<Rightarrow> bool" where "hidden = text_flag TEXT_MODE_HIDDEN"

definition set_italic :: "bool \<Rightarrow> Attrs \<Rightarrow> Attrs" where "set_italic = set_text_flag TEXT_MODE_ITALIC"
definition set_underline :: "bool \<Rightarrow> Attrs \<Rightarrow> Attrs" where "set_underline = set_text_flag TEXT_MODE_UNDERLINE"
definition set_inverse :: "bool \<Rightarrow> Attrs \<Rightarrow> Attrs" where "set_inverse = set_text_flag TEXT_MODE_INVERSE"
definition set_blink :: "bool \<Rightarrow> Attrs \<Rightarrow> Attrs" where "set_blink = set_text_flag TEXT_MODE_BLINK"
definition set_hidden :: "bool \<Rightarrow> Attrs \<Rightarrow> Attrs" where "set_hidden = set_text_flag TEXT_MODE_HIDDEN"

text \<open>The match on the intensity bits; both bits set is \<open>unreachable!()\<close>.\<close>

definition term_intensity :: "u8 \<Rightarrow> Intensity option"
  where "term_intensity i =
    (if i = 0 then Some Normal
     else if i = TEXT_MODE_BOLD then Some Bold
     else if i = TEXT_MODE_DIM then Some Dim
     else None)"

definition changed :: "'a \<Rightarrow> 'a \<Rightarrow> 'a option"
  where "changed new old = (if new = old then None else Some new)"

definition attrs_diff :: "Attrs \<Rightarrow> Attrs \<Rightarrow> TermAttrs option"
  where "attrs_diff a other =
    (let rest = (\<lambda>i.
       \<lparr> ta_fgcolor = changed (fgcolor a) (fgcolor other), ta_bgcolor = changed (bgcolor a) (bgcolor other),
         ta_intensity = i, ta_italic = changed (italic a) (italic other),
         ta_underline = changed (underline a) (underline other),
         ta_inverse = changed (inverse_video a) (inverse_video other),
         ta_blink = changed (blink a) (blink other), ta_hidden = changed (hidden a) (hidden other) \<rparr>)
     in if intensity a = intensity other then Some (rest None)
        else map_option (\<lambda>i. rest (Some i)) (term_intensity (intensity a)))"

definition write_escape_code_diff :: "itoa \<Rightarrow> Attrs \<Rightarrow> Attrs \<Rightarrow> bytes option"
  where "write_escape_code_diff itoa a other =
    (if a \<noteq> other \<and> a = Attrs_default then Some ClearAttrs
     else map_option (TermAttrs_write itoa) (attrs_diff a other))"

section \<open>SGR\<close>

definition u16_to_u8 :: "nat \<Rightarrow> u8 option"
  where "u16_to_u8 i = (if i > 255 then None else Some (of_nat i))"

text \<open>What follows the parameter 38 or 48: a color and the remaining parameters, the silent return
  of the macros on a missing or too large parameter, or a sequence that is not handled.\<close>

datatype extended_color = ExtendedColor Color "nat list list" | ExtendedReturn | ExtendedUnhandled

fun next_param_u8 :: "nat list list \<Rightarrow> (u8 \<times> nat list list) option"
  where
    "next_param_u8 ([n] # ps) = map_option (\<lambda>b. (b, ps)) (u16_to_u8 n)"
  | "next_param_u8 _ = None"

definition extended_color :: "nat list list \<Rightarrow> extended_color"
  where "extended_color params =
    (case params of
       [] \<Rightarrow> ExtendedReturn
     | p # ps \<Rightarrow>
         if p = [2] then
           (case next_param_u8 ps of
              None \<Rightarrow> ExtendedReturn
            | Some (r, ps1) \<Rightarrow>
                (case next_param_u8 ps1 of
                   None \<Rightarrow> ExtendedReturn
                 | Some (g, ps2) \<Rightarrow>
                     (case next_param_u8 ps2 of
                        None \<Rightarrow> ExtendedReturn
                      | Some (b, ps3) \<Rightarrow> ExtendedColor (Rgb r g b) ps3)))
         else if p = [5] then
           (case next_param_u8 ps of None \<Rightarrow> ExtendedReturn | Some (i, ps1) \<Rightarrow> ExtendedColor (Idx i) ps1)
         else ExtendedUnhandled)"

text \<open>The subparameter forms \<open>38:2:r:g:b\<close> and \<open>38:5:i\<close>; \<open>None\<close> inside is the macro's return.\<close>

definition colon_color :: "nat list \<Rightarrow> Color option option"
  where "colon_color p =
    (case p of
       [k, m, r, g, b] \<Rightarrow>
         if m = 2 then
           Some (case (u16_to_u8 r, u16_to_u8 g, u16_to_u8 b) of
                   (Some r', Some g', Some b') \<Rightarrow> Some (Rgb r' g' b') | _ \<Rightarrow> None)
         else None
     | [k, m, i] \<Rightarrow> if m = 5 then Some (map_option Idx (u16_to_u8 i)) else None
     | _ \<Rightarrow> None)"

text \<open>The parameters with a fixed meaning.\<close>

definition sgr_simple :: "nat \<Rightarrow> (Attrs \<Rightarrow> Attrs) option"
  where "sgr_simple n =
    (if n = 0 then Some (\<lambda>a. Attrs_default)
     else if n = 1 then Some set_bold
     else if n = 2 then Some set_dim
     else if n = 3 then Some (set_italic True)
     else if n = 4 then Some (set_underline True)
     else if n = 5 then Some (set_blink True)
     else if n = 7 then Some (set_inverse True)
     else if n = 8 then Some (set_hidden True)
     else if n = 22 then Some set_normal_intensity
     else if n = 23 then Some (set_italic False)
     else if n = 24 then Some (set_underline False)
     else if n = 25 then Some (set_blink False)
     else if n = 27 then Some (set_inverse False)
     else if n = 28 then Some (set_hidden False)
     else if 30 \<le> n \<and> n \<le> 37 then Some (\<lambda>a. a\<lparr> fgcolor := Idx (of_nat (n - 30)) \<rparr>)
     else if n = 39 then Some (\<lambda>a. a\<lparr> fgcolor := Default \<rparr>)
     else if 40 \<le> n \<and> n \<le> 47 then Some (\<lambda>a. a\<lparr> bgcolor := Idx (of_nat (n - 40)) \<rparr>)
     else if n = 49 then Some (\<lambda>a. a\<lparr> bgcolor := Default \<rparr>)
     else if 90 \<le> n \<and> n \<le> 97 then Some (\<lambda>a. a\<lparr> fgcolor := Idx (of_nat (n - 82)) \<rparr>)
     else if 100 \<le> n \<and> n \<le> 107 then Some (\<lambda>a. a\<lparr> bgcolor := Idx (of_nat (n - 92)) \<rparr>)
     else None)"

lemma next_param_u8_length: "next_param_u8 ps = Some (b, qs) \<Longrightarrow> length qs < length ps"
  by (cases ps rule: next_param_u8.cases) auto

lemma extended_color_length: "extended_color ps = ExtendedColor c qs \<Longrightarrow> length qs < length ps"
  by (auto simp: extended_color_def split: list.splits if_splits option.splits
      dest!: next_param_u8_length)

text \<open>The loop. The second result counts the calls of \<open>unhandled\<close>.\<close>

function sgr_loop :: "nat list list \<Rightarrow> Attrs \<Rightarrow> nat \<Rightarrow> Attrs \<times> nat"
  where
    "sgr_loop [] a u = (a, u)"
  | "sgr_loop (p # ps) a u =
       (if p = [38] \<or> p = [48] then
          (case extended_color ps of
             ExtendedColor c qs \<Rightarrow>
               sgr_loop qs (if p = [38] then a\<lparr> fgcolor := c \<rparr> else a\<lparr> bgcolor := c \<rparr>) u
           | ExtendedReturn \<Rightarrow> (a, u)
           | ExtendedUnhandled \<Rightarrow> (a, u + 1))
        else if p \<noteq> [] \<and> (hd p = 38 \<or> hd p = 48) \<and> colon_color p \<noteq> None then
          (case the (colon_color p) of
             None \<Rightarrow> (a, u)
           | Some c \<Rightarrow> sgr_loop ps (if hd p = 38 then a\<lparr> fgcolor := c \<rparr> else a\<lparr> bgcolor := c \<rparr>) u)
        else if length p = 1 then
          (case sgr_simple (hd p) of
             Some change \<Rightarrow> sgr_loop ps (change a) u
           | None \<Rightarrow> sgr_loop ps a (u + 1))
        else sgr_loop ps a (u + 1))"
  by pat_completeness auto

termination sgr_loop
  by (relation "measure (\<lambda>(ps, a, u). length ps)") (auto dest: extended_color_length)

definition sgr :: "nat list list \<Rightarrow> Attrs \<Rightarrow> Attrs \<times> nat"
  where "sgr params a = (if params = [] then (Attrs_default, 0) else sgr_loop params a 0)"

section \<open>Bits\<close>

lemma text_flag_bit: "text_flag (2 ^ n) a \<longleftrightarrow> bit (text_mode a) n"
  by (simp add: text_flag_def and_exp_eq_0_iff_not_bit)

lemmas flag_defs = bold_def dim_def italic_def underline_def inverse_video_def blink_def hidden_def
  set_italic_def set_underline_def set_inverse_def set_blink_def set_hidden_def

lemma flags_bit:
  "bold a \<longleftrightarrow> bit (text_mode a) 0" "dim a \<longleftrightarrow> bit (text_mode a) 1"
  "italic a \<longleftrightarrow> bit (text_mode a) 2" "underline a \<longleftrightarrow> bit (text_mode a) 3"
  "inverse_video a \<longleftrightarrow> bit (text_mode a) 4" "blink a \<longleftrightarrow> bit (text_mode a) 5"
  "hidden a \<longleftrightarrow> bit (text_mode a) 6"
  using text_flag_bit [of 0 a] text_flag_bit [of 1 a] text_flag_bit [of 2 a] text_flag_bit [of 3 a]
    text_flag_bit [of 4 a] text_flag_bit [of 5 a] text_flag_bit [of 6 a]
  by (simp_all add: flag_defs)

text \<open>Only the seven flags are used, and never both intensities.\<close>

definition attrs_ok :: "Attrs \<Rightarrow> bool"
  where "attrs_ok a \<longleftrightarrow> \<not> bit (text_mode a) 7 \<and> \<not> (bit (text_mode a) 0 \<and> bit (text_mode a) 1)"

lemma bits_of_byte:
  fixes x y :: u8
  assumes "\<And>n. n \<in> {0, 1, 2, 3, 4, 5, 6, 7} \<Longrightarrow> bit x n = bit y n"
  shows "x = y"
proof (rule bit_word_eqI)
  fix n
  assume "n < LENGTH(8)"
  then have "n \<in> {0, 1, 2, 3, 4, 5, 6, 7}" by auto
  then show "bit x n = bit y n" by (rule assms)
qed

lemma bit_intensity: "bit (intensity a) n \<longleftrightarrow> n < 2 \<and> bit (text_mode a) n"
proof -
  have three: "(3::u8) = mask 2" by (simp add: mask_eq_exp_minus_1)
  have "bit (3::u8) n \<longleftrightarrow> n < 2"
    unfolding three bit_mask_iff by auto
  then show ?thesis by (auto simp: intensity_def bit_and_iff)
qed

lemma intensity_eq_iff:
  "intensity a = intensity b \<longleftrightarrow>
     bit (text_mode a) 0 = bit (text_mode b) 0 \<and> bit (text_mode a) 1 = bit (text_mode b) 1"
proof
  assume "intensity a = intensity b"
  then have "bit (intensity a) n = bit (intensity b) n" for n by simp
  from this [of 0] this [of 1]
  show "bit (text_mode a) 0 = bit (text_mode b) 0 \<and> bit (text_mode a) 1 = bit (text_mode b) 1"
    by (simp add: bit_intensity)
next
  assume "bit (text_mode a) 0 = bit (text_mode b) 0 \<and> bit (text_mode a) 1 = bit (text_mode b) 1"
  then show "intensity a = intensity b"
    by (intro bits_of_byte) (auto simp: bit_intensity less_2_cases_iff)
qed

lemma term_intensity_bits:
  "attrs_ok a \<Longrightarrow> term_intensity (intensity a) =
     Some (if bit (text_mode a) 0 then Bold else if bit (text_mode a) 1 then Dim else Normal)"
proof -
  assume ok: "attrs_ok a"
  have "intensity a = i \<longleftrightarrow> bit (text_mode a) 0 = bit i 0 \<and> bit (text_mode a) 1 = bit i 1"
    if "i \<in> {0, 1, 2}" for i
  proof -
    have "intensity \<lparr> fgcolor = Default, bgcolor = Default, text_mode = i \<rparr> = i"
      using that by (auto simp: intensity_def)
    with intensity_eq_iff [of a "\<lparr> fgcolor = Default, bgcolor = Default, text_mode = i \<rparr>"]
    show ?thesis by simp
  qed
  from this [of 0] this [of 1] this [of 2] ok show ?thesis
    by (auto simp: term_intensity_def attrs_ok_def)
qed

section \<open>The effect of the setters on the bits\<close>

lemma bit_set_text_flag:
  assumes "m < 8"
  shows "bit (text_mode (set_text_flag (2 ^ m) enabled a)) n \<longleftrightarrow>
    (if n = m then enabled else bit (text_mode a) n)"
  using assms
  by (auto simp: set_text_flag_def bit_or_iff bit_and_iff bit_not_iff bit_exp_iff dest: bit_imp_le_length)

lemma bit_setters:
  "bit (text_mode (set_italic e a)) n \<longleftrightarrow> (if n = 2 then e else bit (text_mode a) n)"
  "bit (text_mode (set_underline e a)) n \<longleftrightarrow> (if n = 3 then e else bit (text_mode a) n)"
  "bit (text_mode (set_inverse e a)) n \<longleftrightarrow> (if n = 4 then e else bit (text_mode a) n)"
  "bit (text_mode (set_blink e a)) n \<longleftrightarrow> (if n = 5 then e else bit (text_mode a) n)"
  "bit (text_mode (set_hidden e a)) n \<longleftrightarrow> (if n = 6 then e else bit (text_mode a) n)"
  using bit_set_text_flag [of 2 e a n] bit_set_text_flag [of 3 e a n] bit_set_text_flag [of 4 e a n]
    bit_set_text_flag [of 5 e a n] bit_set_text_flag [of 6 e a n]
  by (simp_all add: flag_defs)

lemma bit_mask_intensity: "bit (3::u8) n \<longleftrightarrow> n < 2"
proof -
  have three: "(3::u8) = mask 2" by (simp add: mask_eq_exp_minus_1)
  show ?thesis unfolding three bit_mask_iff by auto
qed

lemma bit_set_intensity:
  assumes "n < 8"
  shows "bit (text_mode (set_bold a)) n \<longleftrightarrow> (if n < 2 then n = 0 else bit (text_mode a) n)"
    and "bit (text_mode (set_dim a)) n \<longleftrightarrow> (if n < 2 then n = 1 else bit (text_mode a) n)"
    and "bit (text_mode (set_normal_intensity a)) n \<longleftrightarrow> (if n < 2 then False else bit (text_mode a) n)"
proof -
  have two: "bit (2::u8) n \<longleftrightarrow> n = 1" using bit_exp_iff [of 1 n, where 'a = "8 word"] assms by auto
  have one: "bit (1::u8) n \<longleftrightarrow> n = 0" by (simp add: bit_1_iff)
  have rest: "bit (text_mode a AND NOT (3::u8)) n \<longleftrightarrow> bit (text_mode a) n \<and> \<not> n < 2"
    unfolding bit_and_iff bit_not_iff bit_mask_intensity using assms by auto
  have modes: "text_mode (set_bold a) = (text_mode a AND NOT 3) OR 1"
    "text_mode (set_dim a) = (text_mode a AND NOT 3) OR 2"
    "text_mode (set_normal_intensity a) = text_mode a AND NOT 3"
    by (simp_all add: set_bold_def set_dim_def set_intensity_def set_normal_intensity_def)
  show "bit (text_mode (set_bold a)) n \<longleftrightarrow> (if n < 2 then n = 0 else bit (text_mode a) n)"
    "bit (text_mode (set_dim a)) n \<longleftrightarrow> (if n < 2 then n = 1 else bit (text_mode a) n)"
    "bit (text_mode (set_normal_intensity a)) n \<longleftrightarrow> (if n < 2 then False else bit (text_mode a) n)"
    unfolding modes bit_or_iff rest one two by auto
qed

lemma setter_colors [simp]:
  "fgcolor (set_text_flag m e a) = fgcolor a" "bgcolor (set_text_flag m e a) = bgcolor a"
  "fgcolor (set_intensity i a) = fgcolor a" "bgcolor (set_intensity i a) = bgcolor a"
  "fgcolor (set_normal_intensity a) = fgcolor a" "bgcolor (set_normal_intensity a) = bgcolor a"
  by (simp_all add: set_text_flag_def set_intensity_def set_normal_intensity_def)

lemma attrs_eqI:
  assumes "fgcolor a = fgcolor b" "bgcolor a = bgcolor b"
    and "\<And>n. n < 8 \<Longrightarrow> bit (text_mode a) n = bit (text_mode b) n"
  shows "a = (b :: Attrs)"
proof -
  have "text_mode a = text_mode b" by (rule bits_of_byte, rule assms(3)) auto
  with assms(1,2) show ?thesis by simp
qed

section \<open>SGR keeps the attributes well formed\<close>

lemma attrs_ok_default [simp]: "attrs_ok Attrs_default"
  by (simp add: attrs_ok_def Attrs_default_def)

lemma attrs_ok_colors [simp]:
  "attrs_ok (a\<lparr> fgcolor := c \<rparr>) = attrs_ok a" "attrs_ok (a\<lparr> bgcolor := c \<rparr>) = attrs_ok a"
  by (simp_all add: attrs_ok_def)

lemma attrs_ok_setters [simp]:
  "attrs_ok a \<Longrightarrow> attrs_ok (set_italic e a)" "attrs_ok a \<Longrightarrow> attrs_ok (set_underline e a)"
  "attrs_ok a \<Longrightarrow> attrs_ok (set_inverse e a)" "attrs_ok a \<Longrightarrow> attrs_ok (set_blink e a)"
  "attrs_ok a \<Longrightarrow> attrs_ok (set_hidden e a)" "attrs_ok a \<Longrightarrow> attrs_ok (set_bold a)"
  "attrs_ok a \<Longrightarrow> attrs_ok (set_dim a)" "attrs_ok a \<Longrightarrow> attrs_ok (set_normal_intensity a)"
  by (simp_all add: attrs_ok_def bit_setters bit_set_intensity)

lemma attrs_ok_sgr_simple: "sgr_simple n = Some change \<Longrightarrow> \<forall>a. attrs_ok a \<longrightarrow> attrs_ok (change a)"
  by (auto simp: sgr_simple_def split: if_splits)

lemma attrs_ok_sgr_loop: "attrs_ok a \<Longrightarrow> attrs_ok (fst (sgr_loop ps a u))"
proof (induction ps a u rule: sgr_loop.induct)
  case (2 p ps a u)
  have "attrs_ok (change a)" if "sgr_simple (hd p) = Some change" for change
    using attrs_ok_sgr_simple [OF that] 2 by blast
  with 2 show ?case by (auto split: extended_color.splits option.splits)
qed simp

lemma attrs_ok_sgr: "attrs_ok a \<Longrightarrow> attrs_ok (fst (sgr ps a))"
  by (simp add: sgr_def attrs_ok_sgr_loop)

section \<open>Interpreting what the painter wrote\<close>

abbreviation plain_params :: "nat list \<Rightarrow> nat list list"
  where "plain_params \<equiv> map (\<lambda>n. [n])"

lemma sgr_loop_simple:
  assumes "sgr_simple n = Some change"
  shows "sgr_loop ([n] # ps) a u = sgr_loop ps (change a) u"
proof -
  have "n \<noteq> 38" "n \<noteq> 48" using assms by (auto simp: sgr_simple_def split: if_splits)
  with assms show ?thesis by simp
qed

lemma u16_to_u8_unat [simp]: "u16_to_u8 (unat b) = Some b"
  using unsigned_less [of b, where ?'a = nat] by (simp add: u16_to_u8_def)

lemma unat_add_small: "i < 16 \<Longrightarrow> k \<le> 200 \<Longrightarrow> unat (i + of_nat k :: u8) = unat i + k" for i :: u8
  by (simp add: word_less_nat_alt unat_word_ariths unat_of_nat take_bit_nat_eq_self)

lemma sgr_fgcolor:
  "sgr_loop (plain_params (color_params 30 c) @ ps) a u = sgr_loop ps (a\<lparr> fgcolor := c \<rparr>) u"
proof (cases c)
  case Default
  then show ?thesis by (simp add: sgr_loop_simple sgr_simple_def)
next
  case (Idx i)
  consider "i < 8" "i < 16" | "\<not> i < 8" "i < 16" | "\<not> i < 8" "\<not> i < 16"
    by (auto simp: word_less_nat_alt)
  then show ?thesis
  proof cases
    case 1
    then have "sgr_simple (unat (i + of_nat 30)) = Some (\<lambda>a. a\<lparr> fgcolor := Idx i \<rparr>)"
      by (simp only: unat_add_small) (simp add: sgr_simple_def word_less_nat_alt)
    from sgr_loop_simple [OF this] Idx 1 show ?thesis by simp
  next
    case 2
    then have "sgr_simple (unat (i + of_nat (30 + 52))) = Some (\<lambda>a. a\<lparr> fgcolor := Idx i \<rparr>)"
      by (simp only: unat_add_small) (simp add: sgr_simple_def word_less_nat_alt)
    from sgr_loop_simple [OF this] Idx 2 show ?thesis by simp
  next
    case 3
    with Idx show ?thesis by (simp add: extended_color_def)
  qed
next
  case (Rgb r g b)
  then show ?thesis by (simp add: extended_color_def)
qed

lemma sgr_bgcolor:
  "sgr_loop (plain_params (color_params 40 c) @ ps) a u = sgr_loop ps (a\<lparr> bgcolor := c \<rparr>) u"
proof (cases c)
  case Default
  then show ?thesis by (simp add: sgr_loop_simple sgr_simple_def)
next
  case (Idx i)
  consider "i < 8" "i < 16" | "\<not> i < 8" "i < 16" | "\<not> i < 8" "\<not> i < 16"
    by (auto simp: word_less_nat_alt)
  then show ?thesis
  proof cases
    case 1
    then have "sgr_simple (unat (i + of_nat 40)) = Some (\<lambda>a. a\<lparr> bgcolor := Idx i \<rparr>)"
      by (simp only: unat_add_small) (simp add: sgr_simple_def word_less_nat_alt)
    from sgr_loop_simple [OF this] Idx 1 show ?thesis by simp
  next
    case 2
    then have "sgr_simple (unat (i + of_nat (40 + 52))) = Some (\<lambda>a. a\<lparr> bgcolor := Idx i \<rparr>)"
      by (simp only: unat_add_small) (simp add: sgr_simple_def word_less_nat_alt)
    from sgr_loop_simple [OF this] Idx 2 show ?thesis by simp
  next
    case 3
    with Idx show ?thesis by (simp add: extended_color_def)
  qed
next
  case (Rgb r g b)
  then show ?thesis by (simp add: extended_color_def)
qed

text \<open>A group of parameters for a possibly changed value.\<close>

definition apply_changed :: "('v \<Rightarrow> 'a \<Rightarrow> 'a) \<Rightarrow> 'v option \<Rightarrow> 'a \<Rightarrow> 'a"
  where "apply_changed setter v a = (case v of None \<Rightarrow> a | Some x \<Rightarrow> setter x a)"

lemma sgr_option_params:
  assumes "\<And>x a u. sgr_loop (plain_params (f x) @ ps) a u = sgr_loop ps (setter x a) u"
  shows "sgr_loop (plain_params (option_params f v) @ ps) a u = sgr_loop ps (apply_changed setter v a) u"
  using assms by (cases v) (simp_all add: option_params_def apply_changed_def)

lemma sgr_switches:
  "sgr_loop (plain_params [switch_param 3 e] @ ps) a u = sgr_loop ps (set_italic e a) u"
  "sgr_loop (plain_params [switch_param 4 e] @ ps) a u = sgr_loop ps (set_underline e a) u"
  "sgr_loop (plain_params [switch_param 7 e] @ ps) a u = sgr_loop ps (set_inverse e a) u"
  "sgr_loop (plain_params [switch_param 5 e] @ ps) a u = sgr_loop ps (set_blink e a) u"
  "sgr_loop (plain_params [switch_param 8 e] @ ps) a u = sgr_loop ps (set_hidden e a) u"
  by (cases e; simp add: switch_param_def sgr_simple_def sgr_loop_simple)+

definition set_term_intensity :: "Intensity \<Rightarrow> Attrs \<Rightarrow> Attrs"
  where "set_term_intensity i = (case i of Normal \<Rightarrow> set_normal_intensity | Bold \<Rightarrow> set_bold | Dim \<Rightarrow> set_dim)"

lemma sgr_intensity:
  "sgr_loop (plain_params [intensity_param i] @ ps) a u = sgr_loop ps (set_term_intensity i a) u"
  by (cases i; simp add: intensity_param_def set_term_intensity_def sgr_simple_def sgr_loop_simple)

definition apply_term_attrs :: "TermAttrs \<Rightarrow> Attrs \<Rightarrow> Attrs"
  where "apply_term_attrs d a =
    apply_changed set_hidden (ta_hidden d) (apply_changed set_blink (ta_blink d)
      (apply_changed set_inverse (ta_inverse d) (apply_changed set_underline (ta_underline d)
        (apply_changed set_italic (ta_italic d) (apply_changed set_term_intensity (ta_intensity d)
          (apply_changed (\<lambda>c a. a\<lparr> bgcolor := c \<rparr>) (ta_bgcolor d)
            (apply_changed (\<lambda>c a. a\<lparr> fgcolor := c \<rparr>) (ta_fgcolor d) a)))))))"

lemma sgr_term_attrs: "sgr_loop (plain_params (TermAttrs_params d)) a u = (apply_term_attrs d a, u)"
proof -
  note steps = sgr_option_params [OF sgr_fgcolor] sgr_option_params [OF sgr_bgcolor]
    sgr_option_params [OF sgr_intensity] sgr_option_params [OF sgr_switches(1)]
    sgr_option_params [OF sgr_switches(2)] sgr_option_params [OF sgr_switches(3)]
    sgr_option_params [OF sgr_switches(4)] sgr_option_params [OF sgr_switches(5)]
  have "sgr_loop (plain_params (TermAttrs_params d) @ []) a u = (apply_term_attrs d a, u)"
    unfolding TermAttrs_params_def map_append append_assoc steps apply_term_attrs_def by simp
  then show ?thesis by simp
qed

lemma apply_attrs_diff:
  assumes "attrs_ok a" and "attrs_ok other"
  shows "\<exists>d. attrs_diff a other = Some d \<and> apply_term_attrs d other = a
    \<and> (TermAttrs_is_empty d \<longleftrightarrow> a = other)"
proof -
  let ?i = "if intensity a = intensity other then None
    else Some (if bit (text_mode a) 0 then Bold else if bit (text_mode a) 1 then Dim else Normal)"
  define d where "d = \<lparr> ta_fgcolor = changed (fgcolor a) (fgcolor other),
    ta_bgcolor = changed (bgcolor a) (bgcolor other),
    ta_intensity = ?i, ta_italic = changed (italic a) (italic other),
    ta_underline = changed (underline a) (underline other),
    ta_inverse = changed (inverse_video a) (inverse_video other),
    ta_blink = changed (blink a) (blink other), ta_hidden = changed (hidden a) (hidden other) \<rparr>"
  have "attrs_diff a other = Some d"
    by (simp add: attrs_diff_def d_def Let_def term_intensity_bits [OF assms(1)])
  moreover have applied: "apply_term_attrs d other = a"
  proof (rule attrs_eqI)
    show "fgcolor (apply_term_attrs d other) = fgcolor a" "bgcolor (apply_term_attrs d other) = bgcolor a"
      by (auto simp: apply_term_attrs_def apply_changed_def d_def changed_def flag_defs set_term_intensity_def
          set_bold_def set_dim_def split: option.splits Intensity.splits)
  next
    fix n :: nat
    assume "n < 8"
    then consider "n = 0" | "n = 1" | "n = 2" | "n = 3" | "n = 4" | "n = 5" | "n = 6" | "n = 7" by linarith
    then show "bit (text_mode (apply_term_attrs d other)) n = bit (text_mode a) n"
      using assms
      by cases (simp_all add: apply_term_attrs_def apply_changed_def d_def changed_def flags_bit
          set_term_intensity_def bit_setters bit_set_intensity intensity_eq_iff attrs_ok_def
          split: option.splits Intensity.splits)
  qed
  moreover have "TermAttrs_is_empty d \<longleftrightarrow> a = other"
  proof
    assume "TermAttrs_is_empty d"
    then have "apply_term_attrs d other = other"
      by (simp add: TermAttrs_is_empty_def apply_term_attrs_def apply_changed_def)
    with applied show "a = other" by simp
  next
    assume "a = other"
    then show "TermAttrs_is_empty d" by (simp add: TermAttrs_is_empty_def d_def changed_def)
  qed
  ultimately show ?thesis by blast
qed

section \<open>Properties\<close>

text \<open>C40: The escape code that turns the drawing attributes \<open>other\<close> into \<open>a\<close> is never a panic; it is
  empty when they are equal, and otherwise one SGR sequence whose parameters, interpreted from
  \<open>other\<close>, give exactly \<open>a\<close>, with every parameter handled.\<close>

theorem escape_code_diff_roundtrip:
  assumes "attrs_ok a" and "attrs_ok other"
  shows "if a = other then write_escape_code_diff itoa a other = Some []
    else (\<exists>params. write_escape_code_diff itoa a other = Some (CSI @ join 0x3B (map itoa params) @ [0x6D])
            \<and> sgr (plain_params params) other = (a, 0))"
proof -
  obtain d where d: "attrs_diff a other = Some d" "apply_term_attrs d other = a"
      "TermAttrs_is_empty d \<longleftrightarrow> a = other"
    using apply_attrs_diff [OF assms] by blast
  consider "a = other" | "a \<noteq> other" "a = Attrs_default" | "a \<noteq> other" "a \<noteq> Attrs_default" by blast
  then show ?thesis
  proof cases
    case 1
    with d show ?thesis by (simp add: write_escape_code_diff_def TermAttrs_write_eq)
  next
    case 2
    then have "write_escape_code_diff itoa a other = Some (CSI @ join 0x3B (map itoa []) @ [0x6D])"
      "sgr (plain_params []) other = (a, 0)"
      by (simp_all add: write_escape_code_diff_def ClearAttrs_def sgr_def)
    with 2 show ?thesis by meson
  next
    case 3
    then have "TermAttrs_params d \<noteq> []"
      using d(3) by (auto simp: TermAttrs_is_empty_def TermAttrs_params_def option_params_def split: option.splits)
    then have "sgr (plain_params (TermAttrs_params d)) other = (a, 0)"
      by (simp add: sgr_def sgr_term_attrs d(2))
    moreover have "write_escape_code_diff itoa a other =
        Some (CSI @ join 0x3B (map itoa (TermAttrs_params d)) @ [0x6D])"
      using 3 d by (simp add: write_escape_code_diff_def TermAttrs_write_eq)
    ultimately show ?thesis using 3 by auto
  qed
qed

theorem escape_code_diff_roundtrip_witness:
  "\<exists>params. sgr (plain_params params) (set_bold Attrs_default) =
     (set_italic True (Attrs_default\<lparr> fgcolor := Rgb 1 2 3 \<rparr>), 0)"
proof -
  let ?a = "set_italic True (Attrs_default\<lparr> fgcolor := Rgb 1 2 3 \<rparr>)" and ?o = "set_bold Attrs_default"
  have "?a \<noteq> ?o" by (simp add: set_italic_def set_text_flag_def set_bold_def set_intensity_def Attrs_default_def)
  with escape_code_diff_roundtrip [of ?a ?o "\<lambda>n. []"] show ?thesis by auto
qed

end
