(* ===== verification/Utf8.thy ===== *)
theory Utf8
  imports Mosh_Prelude
begin

text \<open>
  Text of Rust's standard library as far as the terminal uses it: \<open>char::encode_utf8\<close>,
  \<open>char::len_utf8\<close> and \<open>str::from_utf8\<close> with \<open>chars\<close>. A string is the list of its scalar values.
  \<open>from_utf8\<close> accepts exactly the well-formed sequences of the Unicode standard: shortest forms
  only, no surrogates, nothing above U+10FFFF.
\<close>

definition is_scalar :: "scalar \<Rightarrow> bool"
  where "is_scalar c \<longleftrightarrow> c < 0xD800 \<or> 0xDFFF < c \<and> c < 0x110000"

definition code :: "char \<Rightarrow> scalar"
  where "code c = of_char c"

definition len_utf8 :: "scalar \<Rightarrow> nat"
  where "len_utf8 c = (if c < 0x80 then 1 else if c < 0x800 then 2 else if c < 0x10000 then 3 else 4)"

definition encode_utf8 :: "scalar \<Rightarrow> bytes"
  where "encode_utf8 c =
    (if c < 0x80 then [of_nat c]
     else if c < 0x800 then [of_nat (0xC0 + c div 64), of_nat (0x80 + c mod 64)]
     else if c < 0x10000
       then [of_nat (0xE0 + c div 4096), of_nat (0x80 + c div 64 mod 64), of_nat (0x80 + c mod 64)]
     else [of_nat (0xF0 + c div 262144), of_nat (0x80 + c div 4096 mod 64),
           of_nat (0x80 + c div 64 mod 64), of_nat (0x80 + c mod 64)])"

definition continuation :: "u8 \<Rightarrow> bool"
  where "continuation b \<longleftrightarrow> 0x80 \<le> b \<and> b \<le> 0xBF"

text \<open>The second byte is restricted after the lead bytes \<open>E0\<close> (overlong), \<open>ED\<close> (surrogates), \<open>F0\<close>
  (overlong) and \<open>F4\<close> (too large).\<close>

definition second_byte :: "u8 \<Rightarrow> u8 \<Rightarrow> bool"
  where "second_byte a b \<longleftrightarrow> continuation b
    \<and> (a = 0xE0 \<longrightarrow> 0xA0 \<le> b) \<and> (a = 0xED \<longrightarrow> b \<le> 0x9F)
    \<and> (a = 0xF0 \<longrightarrow> 0x90 \<le> b) \<and> (a = 0xF4 \<longrightarrow> b \<le> 0x8F)"

fun from_utf8 :: "bytes \<Rightarrow> scalar list option"
  where
    "from_utf8 [] = Some []"
  | "from_utf8 (a # as) =
       (if a < 0x80 then map_option (Cons (unat a)) (from_utf8 as)
        else if 0xC2 \<le> a \<and> a \<le> 0xDF then
          (case as of
             b # bs \<Rightarrow>
               if continuation b
               then map_option (Cons ((unat a - 0xC0) * 64 + (unat b - 0x80))) (from_utf8 bs)
               else None
           | [] \<Rightarrow> None)
        else if 0xE0 \<le> a \<and> a \<le> 0xEF then
          (case as of
             b # c # cs \<Rightarrow>
               if second_byte a b \<and> continuation c
               then map_option
                 (Cons ((unat a - 0xE0) * 4096 + (unat b - 0x80) * 64 + (unat c - 0x80))) (from_utf8 cs)
               else None
           | _ \<Rightarrow> None)
        else if 0xF0 \<le> a \<and> a \<le> 0xF4 then
          (case as of
             b # c # d # ds \<Rightarrow>
               if second_byte a b \<and> continuation c \<and> continuation d
               then map_option
                 (Cons ((unat a - 0xF0) * 262144 + (unat b - 0x80) * 4096 + (unat c - 0x80) * 64
                    + (unat d - 0x80))) (from_utf8 ds)
               else None
           | _ \<Rightarrow> None)
        else None)"

lemma length_encode_utf8 [simp]: "length (encode_utf8 c) = len_utf8 c"
  by (simp add: encode_utf8_def len_utf8_def)

lemma len_utf8_bounds: "0 < len_utf8 c" "len_utf8 c \<le> 4"
  by (simp_all add: len_utf8_def)

lemma encode_utf8_neq_Nil [simp]: "encode_utf8 c \<noteq> []"
  by (simp add: encode_utf8_def)

lemma unat_of_nat_u8: "n < 256 \<Longrightarrow> unat (of_nat n :: u8) = n"
  by (simp add: unat_of_nat take_bit_nat_eq_self)

lemma sextets:
  fixes c n :: nat
  shows "c = c div 64 * 64 + c mod 64" "c div 64 = c div 4096 * 64 + c div 64 mod 64"
    "c div 4096 = c div 262144 * 64 + c div 4096 mod 64" "n mod 64 \<le> 63"
  using div_mult_mod_eq [of "c div 64" 64] div_mult_mod_eq [of "c div 4096" 64]
  by (simp_all add: div_mult2_eq [symmetric] less_Suc_eq_le [symmetric])

lemma from_utf8_encode_three:
  assumes "is_scalar c" "0x800 \<le> c" "c < 0x10000"
  shows "from_utf8 (encode_utf8 c @ rest) = map_option (Cons c) (from_utf8 rest)"
proof -
  note digits = sextets(1-3) [of c] sextets(4) [of c] sextets(4) [of "c div 64"] sextets(4) [of "c div 4096"]
  have c: "c < 0xD800 \<or> 0xDFFF < c \<and> c < 0x110000" using assms by (simp add: is_scalar_def)
  define x y z where "x = c div 4096" and "y = c div 64 mod 64" and "z = c mod 64"
  have parts: "y \<le> 63" "z \<le> 63" "x * 4096 + y * 64 + z = c"
    using digits unfolding x_def y_def z_def by linarith+
  have range: "x \<le> 15" "x = 0 \<Longrightarrow> 32 \<le> y" "x = 13 \<Longrightarrow> y \<le> 31"
    using assms c parts by linarith+
  have "encode_utf8 c = [of_nat (0xE0 + x), of_nat (0x80 + y), of_nat (0x80 + z)]"
    using assms by (simp add: encode_utf8_def x_def y_def z_def)
  moreover have "unat (of_nat (0xE0 + x) :: u8) = 0xE0 + x" "unat (of_nat (0x80 + y) :: u8) = 0x80 + y"
    "unat (of_nat (0x80 + z) :: u8) = 0x80 + z"
    using parts range(1) by (simp_all add: unat_of_nat_u8 del: of_nat_add)
  ultimately show ?thesis
    using parts range
    by (simp add: word_less_nat_alt word_le_nat_alt continuation_def second_byte_def
        word_unat_eq_iff del: of_nat_add)
qed

lemma from_utf8_encode_four:
  assumes "is_scalar c" "0x10000 \<le> c"
  shows "from_utf8 (encode_utf8 c @ rest) = map_option (Cons c) (from_utf8 rest)"
proof -
  note digits = sextets(1-3) [of c] sextets(4) [of c] sextets(4) [of "c div 64"] sextets(4) [of "c div 4096"]
  have c: "c < 0xD800 \<or> 0xDFFF < c \<and> c < 0x110000" using assms by (simp add: is_scalar_def)
  define x y z w where "x = c div 262144" and "y = c div 4096 mod 64" and "z = c div 64 mod 64"
    and "w = c mod 64"
  have parts: "y \<le> 63" "z \<le> 63" "w \<le> 63" "x * 262144 + y * 4096 + z * 64 + w = c"
    using digits unfolding x_def y_def z_def w_def by linarith+
  have range: "x \<le> 4" "x = 0 \<Longrightarrow> 16 \<le> y" "x = 4 \<Longrightarrow> y \<le> 15"
    using assms c parts by linarith+
  have "encode_utf8 c = [of_nat (0xF0 + x), of_nat (0x80 + y), of_nat (0x80 + z), of_nat (0x80 + w)]"
    using assms by (simp add: encode_utf8_def x_def y_def z_def w_def)
  moreover have "unat (of_nat (0xF0 + x) :: u8) = 0xF0 + x" "unat (of_nat (0x80 + y) :: u8) = 0x80 + y"
    "unat (of_nat (0x80 + z) :: u8) = 0x80 + z" "unat (of_nat (0x80 + w) :: u8) = 0x80 + w"
    using parts range(1) by (simp_all add: unat_of_nat_u8 del: of_nat_add)
  ultimately show ?thesis
    using parts range
    by (simp add: word_less_nat_alt word_le_nat_alt continuation_def second_byte_def
        word_unat_eq_iff del: of_nat_add)
qed

lemma from_utf8_encode:
  assumes "is_scalar c"
  shows "from_utf8 (encode_utf8 c @ rest) = map_option (Cons c) (from_utf8 rest)"
proof -
  note tail = sextets(4)
  consider "c < 0x80" | "0x80 \<le> c" "c < 0x800" | "0x800 \<le> c" "c < 0x10000" | "0x10000 \<le> c"
    by linarith
  then show ?thesis
  proof cases
    case 1
    then show ?thesis
      by (simp add: encode_utf8_def word_less_nat_alt unat_of_nat_u8)
  next
    case 2
    then have lead: "0xC2 \<le> 0xC0 + c div 64" "0xC0 + c div 64 \<le> 0xDF" by simp_all
    with 2 have "unat (of_nat (0xC0 + c div 64) :: u8) = 0xC0 + c div 64"
      "unat (of_nat (0x80 + c mod 64) :: u8) = 0x80 + c mod 64"
      by (simp_all add: unat_of_nat_u8 del: of_nat_add)
    with 2 lead show ?thesis
      by (simp add: encode_utf8_def word_less_nat_alt word_le_nat_alt continuation_def tail del: of_nat_add)
  next
    case 3
    with assms show ?thesis by (rule from_utf8_encode_three)
  next
    case 4
    with assms show ?thesis by (rule from_utf8_encode_four)
  qed
qed

text \<open>Text that was encoded scalar by scalar decodes to those scalars.\<close>

lemma from_utf8_encode_all: "list_all is_scalar cs \<Longrightarrow> from_utf8 (concat (map encode_utf8 cs)) = Some cs"
  by (induction cs) (simp_all add: from_utf8_encode)

end
