(* ===== verification/Cell.thy ===== *)
theory Cell
  imports Attributes Utf8 "HOL-Library.Monad_Syntax"
begin

text \<open>
  One cell of the screen, \<open>src/vt100/cell.rs\<close>, and the width policy of \<open>src/terminal_width.rs\<close>. A
  cell is its 22-byte buffer and the byte \<open>len\<close> that packs the length and the two flags of wide
  characters. The width table of the crate \<open>unicode-width\<close> is a parameter. \<open>None\<close> is a panic.

  Shown here: from a well-formed cell no operation panics, the text of a cell is what was set and
  appended, and the arithmetic on the packed length never touches the flags.
\<close>

section \<open>Width\<close>

type_synonym width_table = "scalar \<Rightarrow> nat option"

definition in_ranges :: "(nat \<times> nat) list \<Rightarrow> nat \<Rightarrow> bool"
  where "in_ranges rs c \<longleftrightarrow> list_ex (\<lambda>(lo, hi). lo \<le> c \<and> c \<le> hi) rs"

definition wide_overrides :: "(nat \<times> nat) list"
  where "wide_overrides = [(0x302e, 0x302f), (0x16ff0, 0x16ff1), (0x3248, 0x324f)]"

definition narrow_overrides :: "(nat \<times> nat) list"
  where "narrow_overrides =
    [(0x00ad, 0x00ad), (0x0605, 0x0605), (0x070f, 0x070f), (0x0890, 0x0891), (0x08e2, 0x08e2),
     (0x09be, 0x09be), (0x09d7, 0x09d7), (0x0b3e, 0x0b3e), (0x0b57, 0x0b57), (0x0bbe, 0x0bbe),
     (0x0bd7, 0x0bd7), (0x0cc0, 0x0cc0), (0x0cc2, 0x0cc2), (0x0cc7, 0x0cc8), (0x0cca, 0x0ccb),
     (0x0cd5, 0x0cd6), (0x0d3e, 0x0d3e), (0x0d4e, 0x0d4e), (0x0d57, 0x0d57), (0x0dcf, 0x0dcf),
     (0x0ddf, 0x0ddf), (0x1715, 0x1715), (0x1734, 0x1734), (0x1b35, 0x1b35), (0x1b3b, 0x1b3b),
     (0x1b3d, 0x1b3d), (0x1b43, 0x1b44), (0x1baa, 0x1baa), (0x1bf2, 0x1bf3), (0x17a4, 0x17a4),
     (0x17d8, 0x17d8), (0xa8fa, 0xa8fa), (0xa953, 0xa953), (0xa9c0, 0xa9c0), (0xff9e, 0xff9f),
     (0x111c0, 0x111c0), (0x111c2, 0x111c3), (0x11235, 0x11235), (0x1133e, 0x1133e),
     (0x1134d, 0x1134d), (0x11357, 0x11357), (0x113b8, 0x113b8), (0x113c2, 0x113c2),
     (0x113c5, 0x113c5), (0x113c7, 0x113c9), (0x113cf, 0x113cf), (0x113d1, 0x113d1),
     (0x114b0, 0x114b0), (0x114bd, 0x114bd), (0x115af, 0x115af), (0x116b6, 0x116b6),
     (0x11930, 0x11930), (0x1193d, 0x1193d), (0x1193f, 0x1193f), (0x11941, 0x11941),
     (0x11a84, 0x11a89), (0x11d46, 0x11d46), (0x11f02, 0x11f02), (0x11f41, 0x11f41),
     (0x1d165, 0x1d166), (0x1d16d, 0x1d172)]"

definition char_width :: "width_table \<Rightarrow> scalar \<Rightarrow> nat option"
  where "char_width table codepoint =
    (if codepoint = 0x2d7f then Some 0
     else if in_ranges wide_overrides codepoint then Some 2
     else if in_ranges narrow_overrides codepoint then Some 1
     else table codepoint)"

text \<open>Documented behaviour of \<open>unicode-width\<close>: a width is 0, 1 or 2.\<close>

definition table_ok :: "width_table \<Rightarrow> bool"
  where "table_ok table \<longleftrightarrow> (\<forall>c w. table c = Some w \<longrightarrow> w \<le> 2)"

lemma char_width_le: "table_ok table \<Longrightarrow> char_width table c = Some w \<Longrightarrow> w \<le> 2"
  by (auto simp: char_width_def table_ok_def split: if_splits)

section \<open>The cell\<close>

abbreviation (input) CONTENT_BYTES :: nat where "CONTENT_BYTES \<equiv> 22"
abbreviation (input) IS_WIDE :: u8 where "IS_WIDE \<equiv> 0x80"
abbreviation (input) IS_WIDE_CONTINUATION :: u8 where "IS_WIDE_CONTINUATION \<equiv> 0x40"
abbreviation (input) LEN_BITS :: u8 where "LEN_BITS \<equiv> 0x1F"

record Cell =
  cell_contents :: bytes
  cell_len :: u8
  cell_attrs :: Attrs

definition Cell_new :: Cell
  where "Cell_new = \<lparr> cell_contents = replicate CONTENT_BYTES 0, cell_len = 0, cell_attrs = Attrs_default \<rparr>"

definition cell_length :: "Cell \<Rightarrow> nat"
  where "cell_length c = unat (cell_len c AND LEN_BITS)"

definition cell_eq :: "Cell \<Rightarrow> Cell \<Rightarrow> bool"
  where "cell_eq a b \<longleftrightarrow>
    cell_len a = cell_len b \<and> cell_attrs a = cell_attrs b
    \<and> take (cell_length a) (cell_contents a) = take (cell_length a) (cell_contents b)"

definition has_contents :: "Cell \<Rightarrow> bool"
  where "has_contents c \<longleftrightarrow> cell_length c > 0"

definition is_wide :: "Cell \<Rightarrow> bool"
  where "is_wide c \<longleftrightarrow> cell_len c AND IS_WIDE \<noteq> 0"

definition is_wide_continuation :: "Cell \<Rightarrow> bool"
  where "is_wide_continuation c \<longleftrightarrow> cell_len c AND IS_WIDE_CONTINUATION \<noteq> 0"

definition set_wide :: "bool \<Rightarrow> Cell \<Rightarrow> Cell"
  where "set_wide wide c =
    (if wide then c\<lparr> cell_len := cell_len c OR IS_WIDE \<rparr>
     else c\<lparr> cell_len := cell_len c AND NOT IS_WIDE \<rparr>)"

definition set_wide_continuation :: "bool \<Rightarrow> Cell \<Rightarrow> Cell"
  where "set_wide_continuation wide c =
    (if wide then c\<lparr> cell_len := cell_len c OR IS_WIDE_CONTINUATION \<rparr>
     else c\<lparr> cell_len := cell_len c AND NOT IS_WIDE_CONTINUATION \<rparr>)"

text \<open>\<open>encode_utf8\<close> panics when the rest of the buffer is too small.\<close>

definition append_char :: "nat \<Rightarrow> scalar \<Rightarrow> Cell \<Rightarrow> Cell option"
  where "append_char start ch c =
    (if start + len_utf8 ch \<le> length (cell_contents c)
     then Some (c\<lparr> cell_contents := copy_at start (encode_utf8 ch) (cell_contents c),
                   cell_len := cell_len c + of_nat (len_utf8 ch) \<rparr>)
     else None)"

definition cell_set :: "width_table \<Rightarrow> scalar \<Rightarrow> Attrs \<Rightarrow> Cell \<Rightarrow> Cell option"
  where "cell_set table ch a c =
    do {
      c1 \<leftarrow> append_char 0 ch (c\<lparr> cell_len := 0 \<rparr>);
      let c2 = set_wide ((case char_width table ch of None \<Rightarrow> 1 | Some w \<Rightarrow> w) > 1) c1;
      Some (c2\<lparr> cell_attrs := a \<rparr>)
    }"

definition cell_append :: "scalar \<Rightarrow> Cell \<Rightarrow> Cell option"
  where "cell_append ch c =
    (if cell_length c \<ge> CONTENT_BYTES - 4 then Some c
     else
       (let c1 = (if cell_length c = 0
                  then c\<lparr> cell_contents := (cell_contents c)[0 := 0x20], cell_len := cell_len c + 1 \<rparr>
                  else c)
        in append_char (cell_length c1) ch c1))"

definition cell_clear :: "Attrs \<Rightarrow> Cell \<Rightarrow> Cell"
  where "cell_clear a c = c\<lparr> cell_len := 0, cell_attrs := a \<rparr>"

text \<open>\<open>contents\<close>: the slice and the \<open>unwrap\<close> may panic.\<close>

definition cell_text :: "Cell \<Rightarrow> scalar list option"
  where "cell_text c =
    (if cell_length c \<le> length (cell_contents c) then from_utf8 (take (cell_length c) (cell_contents c))
     else None)"

definition cell_bytes :: "Cell \<Rightarrow> bytes option"
  where "cell_bytes c = map_option (\<lambda>_. take (cell_length c) (cell_contents c)) (cell_text c)"

section \<open>The packed length\<close>

lemma is_wide_bit: "is_wide c \<longleftrightarrow> bit (cell_len c) 7"
  using and_exp_eq_0_iff_not_bit [of "cell_len c" 7] by (simp add: is_wide_def)

lemma is_wide_continuation_bit: "is_wide_continuation c \<longleftrightarrow> bit (cell_len c) 6"
  using and_exp_eq_0_iff_not_bit [of "cell_len c" 6] by (simp add: is_wide_continuation_def)

lemma cell_length_mod: "cell_length c = unat (cell_len c) mod 32"
proof -
  have "(0x1F::u8) = mask 5" by (simp add: mask_eq_exp_minus_1)
  then have "cell_len c AND 0x1F = take_bit 5 (cell_len c)" by (simp add: take_bit_eq_mask)
  then have "cell_length c = unat (take_bit 5 (cell_len c))" by (simp only: cell_length_def)
  also have "\<dots> = take_bit 5 (unat (cell_len c))" by (rule unsigned_take_bit_eq)
  finally show ?thesis by (simp add: take_bit_eq_mod)
qed

lemma high_bit: "5 \<le> n \<Longrightarrow> bit x n \<longleftrightarrow> odd (unat x div 32 div 2 ^ (n - 5))" for x :: u8
proof -
  assume n: "5 \<le> n"
  have "bit x n \<longleftrightarrow> bit (unat x) n" by (simp add: bit_unsigned_iff)
  also have "\<dots> \<longleftrightarrow> odd (unat x div 2 ^ n)" by (simp add: bit_iff_odd)
  also have "(2::nat) ^ n = 32 * 2 ^ (n - 5)" using power_add [of "2::nat" 5 "n - 5"] n by simp
  finally show ?thesis by (simp add: div_mult2_eq)
qed

lemma length_add:
  fixes x :: u8
  assumes "unat x mod 32 + k < 32"
  shows "unat (x + of_nat k) mod 32 = unat x mod 32 + k"
    and "5 \<le> n \<Longrightarrow> bit (x + of_nat k) n = bit x n"
proof -
  define q r where "q = unat x div 32" and "r = unat x mod 32"
  have x: "unat x = q * 32 + r" and r: "r + k < 32" using assms by (simp_all add: q_def r_def)
  have "unat x < 256" using unsigned_less [of x, where ?'a = nat] by simp
  then have "q < 8" using x by linarith
  then have sum: "unat (x + of_nat k) = q * 32 + (r + k)"
    using r by (simp add: unat_word_ariths unat_of_nat take_bit_nat_eq_self x)
  have "(q * 32 + (r + k)) mod 32 = r + k" "(q * 32 + (r + k)) div 32 = q"
    "(q * 32 + r) mod 32 = r" "(q * 32 + r) div 32 = q"
    using r by simp_all
  then show "unat (x + of_nat k) mod 32 = unat x mod 32 + k"
    "5 \<le> n \<Longrightarrow> bit (x + of_nat k) n = bit x n"
    by (simp_all add: high_bit sum x)
qed

section \<open>Well-formed cells\<close>

text \<open>The cell holds the text \<open>cs\<close>, with the unused bit of \<open>len\<close> clear and at most one flag set.\<close>

definition cell_holds :: "Cell \<Rightarrow> scalar list \<Rightarrow> bool"
  where "cell_holds c cs \<longleftrightarrow>
    length (cell_contents c) = CONTENT_BYTES \<and> list_all is_scalar cs
    \<and> cell_length c \<le> CONTENT_BYTES
    \<and> take (cell_length c) (cell_contents c) = concat (map encode_utf8 cs)
    \<and> attrs_ok (cell_attrs c) \<and> \<not> (is_wide c \<and> is_wide_continuation c)"

definition cell_ok :: "Cell \<Rightarrow> bool"
  where "cell_ok c \<longleftrightarrow> (\<exists>cs. cell_holds c cs)"

lemma cell_text_holds: "cell_holds c cs \<Longrightarrow> cell_text c = Some cs"
  by (simp add: cell_holds_def cell_text_def from_utf8_encode_all)

lemma cell_ok_text: "cell_ok c \<Longrightarrow> cell_text c \<noteq> None"
  by (auto simp: cell_ok_def cell_text_holds)

lemma cell_ok_bytes: "cell_ok c \<Longrightarrow> cell_bytes c = Some (take (cell_length c) (cell_contents c))"
  by (auto simp: cell_ok_def cell_bytes_def cell_text_holds)

lemma cell_ok_attrs: "cell_ok c \<Longrightarrow> attrs_ok (cell_attrs c)"
  by (auto simp: cell_ok_def cell_holds_def)

lemma cell_ok_flags: "cell_ok c \<Longrightarrow> \<not> (is_wide c \<and> is_wide_continuation c)"
  by (auto simp: cell_ok_def cell_holds_def)

lemma zero_len [simp]:
  "cell_len c = 0 \<Longrightarrow> cell_length c = 0" "cell_len c = 0 \<Longrightarrow> \<not> is_wide c"
  "cell_len c = 0 \<Longrightarrow> \<not> is_wide_continuation c"
  by (simp_all add: cell_length_def is_wide_def is_wide_continuation_def)

lemma cell_holds_new: "cell_holds Cell_new []"
  by (simp add: cell_holds_def Cell_new_def)

lemma cell_new_flags [simp]: "\<not> is_wide Cell_new" "\<not> is_wide_continuation Cell_new" "\<not> has_contents Cell_new"
  by (simp_all add: Cell_new_def has_contents_def)

lemma cell_ok_new [simp]: "cell_ok Cell_new"
  using cell_holds_new by (auto simp: cell_ok_def)

lemma cell_clear_flags [simp]:
  "\<not> is_wide (cell_clear a c)" "\<not> is_wide_continuation (cell_clear a c)" "\<not> has_contents (cell_clear a c)"
  "cell_attrs (cell_clear a c) = a"
  by (simp_all add: cell_clear_def has_contents_def)

lemma cell_holds_clear: "cell_ok c \<Longrightarrow> attrs_ok a \<Longrightarrow> cell_holds (cell_clear a c) []"
  by (auto simp: cell_ok_def cell_holds_def cell_clear_def)

lemma cell_ok_clear [simp]: "cell_ok c \<Longrightarrow> attrs_ok a \<Longrightarrow> cell_ok (cell_clear a c)"
  using cell_holds_clear by (auto simp: cell_ok_def)

lemma bit_wide_flags: "n < 8 \<Longrightarrow> bit (0x80::u8) n \<longleftrightarrow> n = 7" "n < 8 \<Longrightarrow> bit (0x40::u8) n \<longleftrightarrow> n = 6"
  using bit_exp_iff [of 7 n, where 'a = "8 word"] bit_exp_iff [of 6 n, where 'a = "8 word"] by auto

lemma cell_length_flags:
  "cell_length (set_wide w c) = cell_length c" "cell_length (set_wide_continuation w c) = cell_length c"
proof -
  have "(x OR 0x80) AND 0x1F = x AND 0x1F" "(x AND NOT 0x80) AND 0x1F = x AND 0x1F"
    "(x OR 0x40) AND 0x1F = x AND 0x1F" "(x AND NOT 0x40) AND 0x1F = x AND 0x1F" for x :: u8
    by (simp_all add: bit.conj_disj_distrib2 and.assoc)
  then show "cell_length (set_wide w c) = cell_length c"
    "cell_length (set_wide_continuation w c) = cell_length c"
    by (simp_all add: cell_length_def set_wide_def set_wide_continuation_def)
qed

lemma bit_set_flag:
  "bit (x OR (0x80::u8)) 7" "bit (x OR (0x80::u8)) 6 = bit x 6"
  "\<not> bit (x AND NOT (0x80::u8)) 7" "bit (x AND NOT (0x80::u8)) 6 = bit x 6"
  "bit (x OR (0x40::u8)) 6" "bit (x OR (0x40::u8)) 7 = bit x 7"
  "\<not> bit (x AND NOT (0x40::u8)) 6" "bit (x AND NOT (0x40::u8)) 7 = bit x 7"
  unfolding bit_or_iff bit_and_iff bit_not_iff by (simp_all add: bit_wide_flags)

lemma flag_setters [simp]:
  "is_wide (set_wide w c) = w" "is_wide_continuation (set_wide w c) = is_wide_continuation c"
  "is_wide_continuation (set_wide_continuation w c) = w" "is_wide (set_wide_continuation w c) = is_wide c"
  "cell_contents (set_wide w c) = cell_contents c" "cell_contents (set_wide_continuation w c) = cell_contents c"
  "cell_attrs (set_wide w c) = cell_attrs c" "cell_attrs (set_wide_continuation w c) = cell_attrs c"
  using bit_set_flag [of "cell_len c"]
  unfolding is_wide_bit is_wide_continuation_bit
  by (simp_all add: set_wide_def set_wide_continuation_def)

lemma has_contents_continuation [simp]: "has_contents (set_wide_continuation w c) = has_contents c"
  by (simp add: has_contents_def cell_length_flags)

lemma cell_ok_continuation [simp]:
  "cell_ok c \<Longrightarrow> w \<longrightarrow> \<not> is_wide c \<Longrightarrow> cell_ok (set_wide_continuation w c)"
  by (auto simp: cell_ok_def cell_holds_def cell_length_flags)

section \<open>Writing text\<close>

lemma append_char_holds:
  assumes "cell_holds c cs" and "is_scalar ch" and "cell_length c + 4 \<le> CONTENT_BYTES"
  obtains c' where "append_char (cell_length c) ch c = Some c'" and "cell_holds c' (cs @ [ch])"
    and "is_wide c' = is_wide c" and "is_wide_continuation c' = is_wide_continuation c"
    and "cell_attrs c' = cell_attrs c"
proof -
  let ?n = "cell_length c" and ?k = "len_utf8 ch"
  let ?c' = "c\<lparr> cell_contents := copy_at ?n (encode_utf8 ch) (cell_contents c),
      cell_len := cell_len c + of_nat ?k \<rparr>"
  have k: "?k \<le> 4" by (rule len_utf8_bounds)
  have small: "unat (cell_len c) mod 32 + ?k < 32" using assms(3) k by (simp add: cell_length_mod)
  note flags = length_add [OF small]
  have len: "length (cell_contents c) = CONTENT_BYTES" using assms(1) by (simp add: cell_holds_def)
  have fits: "?n + ?k \<le> length (cell_contents c)" using assms(3) k len by simp
  have grown: "cell_length ?c' = ?n + ?k" using flags(1) by (simp add: cell_length_mod)
  have wide: "is_wide ?c' = is_wide c" "is_wide_continuation ?c' = is_wide_continuation c"
    unfolding is_wide_bit is_wide_continuation_bit using flags(2) [of 7] flags(2) [of 6] by simp_all
  have "take (?n + ?k) (copy_at ?n (encode_utf8 ch) (cell_contents c)) = take ?n (cell_contents c) @ encode_utf8 ch"
    using fits by (simp add: copy_at_def)
  then have "cell_holds ?c' (cs @ [ch])"
    unfolding cell_holds_def grown wide
    using assms fits len by (simp add: cell_holds_def length_copy_at)
  moreover have "append_char ?n ch c = Some ?c'" using fits by (simp add: append_char_def)
  ultimately show thesis using that wide by simp
qed

lemma cell_set_ok:
  assumes "cell_ok c" and "is_scalar ch" and "attrs_ok a"
  obtains c' where "cell_set table ch a c = Some c'" and "cell_holds c' [ch]" and "cell_attrs c' = a"
    and "is_wide c' \<longleftrightarrow> char_width table ch \<noteq> None \<and> the (char_width table ch) > 1"
    and "\<not> is_wide_continuation c'"
proof -
  let ?c0 = "c\<lparr> cell_len := 0 \<rparr>"
  have zero: "cell_length ?c0 = 0" by simp
  have "cell_holds ?c0 []" using assms(1) by (auto simp: cell_ok_def cell_holds_def)
  then obtain c1 where c1: "append_char 0 ch ?c0 = Some c1" "cell_holds c1 [ch]"
      "\<not> is_wide c1" "\<not> is_wide_continuation c1"
    using append_char_holds [of ?c0 "[]" ch] assms(2) zero by auto
  define w where "w = ((case char_width table ch of None \<Rightarrow> 1 | Some w \<Rightarrow> w) > 1)"
  let ?c' = "(set_wide w c1)\<lparr> cell_attrs := a \<rparr>"
  have parts: "cell_length ?c' = cell_length c1" "is_wide ?c' = w" "\<not> is_wide_continuation ?c'"
    using c1(4) cell_length_flags(1) [of w c1] flag_setters(1,2) [of w c1]
    by (simp_all add: cell_length_def is_wide_def is_wide_continuation_def)
  have "cell_holds ?c' [ch]"
    unfolding cell_holds_def parts using c1(2) parts assms(3) by (simp add: cell_holds_def)
  moreover have "cell_set table ch a c = Some ?c'" by (simp add: cell_set_def c1(1) w_def)
  moreover have "w \<longleftrightarrow> char_width table ch \<noteq> None \<and> the (char_width table ch) > 1"
    by (simp add: w_def split: option.split)
  ultimately show thesis using that parts by simp
qed

lemma cell_append_ok:
  assumes "cell_holds c cs" and "is_scalar ch"
  obtains c' where "cell_append ch c = Some c'"
    and "cell_holds c' (if cell_length c \<ge> 18 then cs else (if cs = [] then [0x20] else cs) @ [ch])"
    and "is_wide c' = is_wide c" and "is_wide_continuation c' = is_wide_continuation c"
    and "cell_attrs c' = cell_attrs c"
proof -
  consider "cell_length c \<ge> 18" | "0 < cell_length c" "cell_length c < 18" | "cell_length c = 0" by linarith
  then show thesis
  proof cases
    case 1
    then show thesis using assms that [of c] by (simp add: cell_append_def)
  next
    case 2
    then have "cs \<noteq> []" using assms(1) by (auto simp: cell_holds_def)
    from 2 obtain c' where "append_char (cell_length c) ch c = Some c'" "cell_holds c' (cs @ [ch])"
        "is_wide c' = is_wide c" "is_wide_continuation c' = is_wide_continuation c" "cell_attrs c' = cell_attrs c"
      using append_char_holds [OF assms] by auto
    with 2 \<open>cs \<noteq> []\<close> show thesis using that [of c'] by (simp add: cell_append_def Let_def)
  next
    case 3
    have "cs = []"
      using assms(1) 3 by (cases cs) (auto simp: cell_holds_def)
    let ?c1 = "c\<lparr> cell_contents := (cell_contents c)[0 := 0x20], cell_len := cell_len c + 1 \<rparr>"
    have small: "unat (cell_len c) mod 32 + 1 < 32" using 3 by (simp add: cell_length_mod)
    note flags = length_add [OF small, simplified]
    have one: "cell_length ?c1 = 1" using flags(1) 3 by (simp add: cell_length_mod)
    have wide: "is_wide ?c1 = is_wide c" "is_wide_continuation ?c1 = is_wide_continuation c"
      unfolding is_wide_bit is_wide_continuation_bit using flags(2) [of 7] flags(2) [of 6] by simp_all
    have "cell_holds ?c1 [0x20]"
      unfolding cell_holds_def one wide
      using assms(1)
      by (cases "cell_contents c") (auto simp: cell_holds_def encode_utf8_def is_scalar_def len_utf8_def)
    then obtain c' where "append_char (cell_length ?c1) ch ?c1 = Some c'" "cell_holds c' ([0x20] @ [ch])"
        "is_wide c' = is_wide c" "is_wide_continuation c' = is_wide_continuation c" "cell_attrs c' = cell_attrs c"
      using append_char_holds [of ?c1 "[0x20]" ch] assms(2) one wide by auto
    with 3 \<open>cs = []\<close> show thesis using that [of c'] by (simp add: cell_append_def Let_def)
  qed
qed

end
