(* ===== verification/Row.thy ===== *)
theory Row
  imports Cell
begin

text \<open>
  One row of the screen, the state and the operations of \<open>src/vt100/row.rs\<close> that change it.
  Indexing outside of the row, and the conversions the source unwraps, panic: \<open>None\<close>.

  The invariant \<open>wide_ok\<close> pairs the halves of wide characters: a cell with the wide flag is followed
  by a continuation, and every continuation follows a wide cell. Shown here: every operation
  except \<open>resize\<close> to fewer columns keeps it, and under it no operation indexes out of range.
\<close>

section \<open>Operations\<close>

record Row =
  row_cells :: "Cell list"
  row_wrapped :: bool

definition Row_new :: "nat \<Rightarrow> Row"
  where "Row_new cols = \<lparr> row_cells = replicate cols Cell_new, row_wrapped = False \<rparr>"

definition row_cols :: "Row \<Rightarrow> nat option"
  where "row_cols r = (if length (row_cells r) < 65536 then Some (length (row_cells r)) else None)"

definition row_clear :: "Attrs \<Rightarrow> Row \<Rightarrow> Row"
  where "row_clear a r = \<lparr> row_cells = map (cell_clear a) (row_cells r), row_wrapped = False \<rparr>"

definition at :: "'a list \<Rightarrow> nat \<Rightarrow> 'a option"
  where "at xs i = (if i < length xs then Some (xs ! i) else None)"

definition row_get :: "Row \<Rightarrow> nat \<Rightarrow> Cell option"
  where "row_get r col = at (row_cells r) col"

definition row_insert :: "nat \<Rightarrow> Cell \<Rightarrow> Row \<Rightarrow> Row option"
  where "row_insert i c r =
    (if i \<le> length (row_cells r)
     then Some \<lparr> row_cells = take i (row_cells r) @ c # drop i (row_cells r), row_wrapped = False \<rparr>
     else None)"

definition clear_at :: "nat \<Rightarrow> Row \<Rightarrow> Row option"
  where "clear_at i r =
    do {
      c \<leftarrow> at (row_cells r) i;
      Some (r\<lparr> row_cells := (row_cells r)[i := cell_clear (cell_attrs c) c] \<rparr>)
    }"

definition clear_wide :: "nat \<Rightarrow> Row \<Rightarrow> Row option"
  where "clear_wide col r =
    do {
      c \<leftarrow> at (row_cells r) col;
      if is_wide c then clear_at (add16 col 1) r
      else if is_wide_continuation c then clear_at (sub16 col 1) r
      else Some r
    }"

definition row_remove :: "nat \<Rightarrow> Row \<Rightarrow> Row option"
  where "row_remove i r =
    do {
      r1 \<leftarrow> clear_wide i r;
      if i < length (row_cells r1)
      then Some \<lparr> row_cells = take i (row_cells r1) @ drop (i + 1) (row_cells r1), row_wrapped = False \<rparr>
      else None
    }"

definition row_erase :: "Attrs \<Rightarrow> nat \<Rightarrow> Row \<Rightarrow> Row option"
  where "row_erase a i r =
    do {
      c \<leftarrow> at (row_cells r) i;
      let wide = is_wide c;
      r1 \<leftarrow> clear_wide i r;
      c1 \<leftarrow> at (row_cells r1) i;
      let r2 = r1\<lparr> row_cells := (row_cells r1)[i := cell_clear a c1] \<rparr>;
      cols \<leftarrow> row_cols r2;
      Some (if i = sub16 cols (if wide then 2 else 1) then r2\<lparr> row_wrapped := False \<rparr> else r2)
    }"

definition row_truncate :: "nat \<Rightarrow> Row \<Rightarrow> Row option"
  where "row_truncate n r =
    (if n = 0 then None
     else
       (let r1 = \<lparr> row_cells = take n (row_cells r), row_wrapped = False \<rparr>
        in do {
             c \<leftarrow> at (row_cells r1) (n - 1);
             if is_wide c then clear_at (n - 1) r1 else Some r1
           }))"

definition row_resize :: "nat \<Rightarrow> Cell \<Rightarrow> Row \<Rightarrow> Row"
  where "row_resize n c r =
    \<lparr> row_cells = take n (row_cells r) @ replicate (n - length (row_cells r)) c, row_wrapped = False \<rparr>"

definition row_wrap :: "bool \<Rightarrow> Row \<Rightarrow> Row"
  where "row_wrap wrap r = r\<lparr> row_wrapped := wrap \<rparr>"

text \<open>A loop over a range of columns.\<close>

fun fold_option :: "('x \<Rightarrow> 's \<Rightarrow> 's option) \<Rightarrow> 'x list \<Rightarrow> 's \<Rightarrow> 's option"
  where
    "fold_option f [] s = Some s"
  | "fold_option f (x # xs) s = do { t \<leftarrow> f x s; fold_option f xs t }"

section \<open>Pairs of wide halves\<close>

datatype half = Plain | LeftHalf | RightHalf

definition half_of :: "Cell \<Rightarrow> half"
  where "half_of c = (if is_wide c then LeftHalf else if is_wide_continuation c then RightHalf else Plain)"

definition halves :: "Cell list \<Rightarrow> nat \<Rightarrow> half"
  where "halves cs i = (if i < length cs then half_of (cs ! i) else Plain)"

definition paired :: "(nat \<Rightarrow> half) \<Rightarrow> bool"
  where "paired k \<longleftrightarrow> k 0 \<noteq> RightHalf \<and> (\<forall>i. k i = LeftHalf \<longleftrightarrow> k (Suc i) = RightHalf)"

definition wide_ok :: "Cell list \<Rightarrow> bool"
  where "wide_ok cs \<longleftrightarrow> paired (halves cs)"

definition row_ok :: "nat \<Rightarrow> Row \<Rightarrow> bool"
  where "row_ok n r \<longleftrightarrow> length (row_cells r) = n \<and> list_all cell_ok (row_cells r) \<and> wide_ok (row_cells r)"

lemma half_of_simps [simp]:
  "half_of Cell_new = Plain" "half_of (cell_clear a c) = Plain"
  "half_of c = LeftHalf \<longleftrightarrow> is_wide c"
  "cell_ok c \<Longrightarrow> half_of c = RightHalf \<longleftrightarrow> is_wide_continuation c"
  using cell_ok_flags [of c] by (auto simp: half_of_def)

lemma half_Plain_iff: "half_of c = Plain \<longleftrightarrow> \<not> is_wide c \<and> \<not> is_wide_continuation c"
  by (simp add: half_of_def)

lemma halves_update: "i < length cs \<Longrightarrow> halves (cs[i := c]) = (halves cs)(i := half_of c)"
  by (auto simp: halves_def fun_eq_iff nth_list_update)

lemma halves_outside [simp]: "length cs \<le> i \<Longrightarrow> halves cs i = Plain"
  by (simp add: halves_def)

lemma paired_right: "paired k \<Longrightarrow> k i = RightHalf \<Longrightarrow> \<exists>j. i = Suc j \<and> k j = LeftHalf"
  by (cases i) (auto simp: paired_def)

lemma paired_left: "paired k \<Longrightarrow> k i = LeftHalf \<Longrightarrow> k (Suc i) = RightHalf"
  by (simp add: paired_def)

lemma paired_break:
  assumes "paired k" and "k i = LeftHalf"
  shows "paired (k(i := Plain, Suc i := Plain))"
proof -
  have right: "k (Suc i) = RightHalf" using paired_left [OF assms] .
  have pair: "k m = LeftHalf \<longleftrightarrow> k (Suc m) = RightHalf" for m using assms(1) by (simp add: paired_def)
  have before: "k j \<noteq> LeftHalf" if "Suc j = i" for j using pair [of j] that assms(2) by simp
  have after: "k (Suc (Suc i)) \<noteq> RightHalf" using pair [of "Suc i"] right by simp
  show ?thesis
    using assms right before after unfolding paired_def by auto
qed

lemma paired_join:
  assumes "paired k" and "k i = Plain" and "k (Suc i) = Plain"
  shows "paired (k(i := LeftHalf, Suc i := RightHalf))"
proof -
  have pair: "k m = LeftHalf \<longleftrightarrow> k (Suc m) = RightHalf" for m using assms(1) by (simp add: paired_def)
  have before: "k j \<noteq> LeftHalf" if "Suc j = i" for j using pair [of j] that assms(2) by simp
  have after: "k (Suc (Suc i)) \<noteq> RightHalf" using pair [of "Suc i"] assms(3) by simp
  show ?thesis using assms before after unfolding paired_def by auto
qed

lemma paired_remove:
  assumes "paired k" and "k i = Plain"
  shows "paired (\<lambda>j. if j < i then k j else k (Suc j))"
  unfolding paired_def
proof (intro conjI allI)
  have pair: "k m = LeftHalf \<longleftrightarrow> k (Suc m) = RightHalf" for m using assms(1) by (simp add: paired_def)
  show "(if 0 < i then k 0 else k (Suc 0)) \<noteq> RightHalf"
    using assms pair [of 0] by (cases i) (auto simp: paired_def)
  fix j
  show "((if j < i then k j else k (Suc j)) = LeftHalf) = ((if Suc j < i then k (Suc j) else k (Suc (Suc j))) = RightHalf)"
  proof (cases "Suc j = i")
    case True
    then have "k j \<noteq> LeftHalf" "k (Suc i) \<noteq> RightHalf" using pair [of j] pair [of i] assms(2) by auto
    with True show ?thesis by auto
  next
    case False
    then show ?thesis using pair by auto
  qed
qed

lemma paired_insert:
  assumes "paired k" and "k i \<noteq> RightHalf"
  shows "paired (\<lambda>j. if j < i then k j else if j = i then Plain else k (j - 1))"
  unfolding paired_def
proof (intro conjI allI)
  show "(if 0 < i then k 0 else if 0 = i then Plain else k (0 - 1)) \<noteq> RightHalf"
    using assms by (cases i) (auto simp: paired_def)
next
  fix j
  have pair: "k m = LeftHalf \<longleftrightarrow> k (Suc m) = RightHalf" for m using assms(1) by (simp add: paired_def)
  have before: "k j \<noteq> LeftHalf" if "Suc j = i" using assms(2) pair [of j] that by simp
  show "((if j < i then k j else if j = i then Plain else k (j - 1)) = LeftHalf) =
      ((if Suc j < i then k (Suc j) else if Suc j = i then Plain else k (Suc j - 1)) = RightHalf)"
  proof (cases "j < i")
    case True
    then show ?thesis using pair [of j] before by (cases "Suc j = i") auto
  next
    case False
    then show ?thesis using pair [of "j - 1"] assms(2) by (cases "j = i") auto
  qed
qed

lemma paired_truncate:
  assumes "paired k" and "0 < n"
  shows "paired (\<lambda>j. if j < n \<and> \<not> (Suc j = n \<and> k j = LeftHalf) then k j else Plain)"
  unfolding paired_def
proof (intro conjI allI)
  show "(if 0 < n \<and> \<not> (Suc 0 = n \<and> k 0 = LeftHalf) then k 0 else Plain) \<noteq> RightHalf"
    using assms by (auto simp: paired_def)
next
  fix j
  have pair: "k m = LeftHalf \<longleftrightarrow> k (Suc m) = RightHalf" for m using assms(1) by (simp add: paired_def)
  show "((if j < n \<and> \<not> (Suc j = n \<and> k j = LeftHalf) then k j else Plain) = LeftHalf) =
      ((if Suc j < n \<and> \<not> (Suc (Suc j) = n \<and> k (Suc j) = LeftHalf) then k (Suc j) else Plain) = RightHalf)"
    using pair [of j] by (cases "Suc j = n") auto
qed

section \<open>The operations keep rows well formed\<close>

lemma row_okD:
  assumes "row_ok n r"
  shows "length (row_cells r) = n" "list_all cell_ok (row_cells r)" "paired (halves (row_cells r))"
  using assms by (simp_all add: row_ok_def wide_ok_def)

lemma row_okI:
  "length (row_cells r) = n \<Longrightarrow> list_all cell_ok (row_cells r) \<Longrightarrow> paired (halves (row_cells r)) \<Longrightarrow> row_ok n r"
  by (simp add: row_ok_def wide_ok_def)

lemma row_ok_cell: "row_ok n r \<Longrightarrow> i < n \<Longrightarrow> cell_ok (row_cells r ! i)"
  by (auto simp: row_ok_def list_all_length)

lemma paired_Plain: "(\<And>i. k i = Plain) \<Longrightarrow> paired k"
  by (simp add: paired_def)

lemma row_ok_wrap [simp]: "row_ok n (row_wrap w r) = row_ok n r" "row_ok n (r\<lparr> row_wrapped := w \<rparr>) = row_ok n r"
  by (simp_all add: row_ok_def row_wrap_def)

lemma row_ok_new: "row_ok n (Row_new n)"
  by (rule row_okI) (auto simp: Row_new_def list_all_length halves_def intro!: paired_Plain)

lemma row_ok_clear: "row_ok n r \<Longrightarrow> attrs_ok a \<Longrightarrow> row_ok n (row_clear a r)"
  by (rule row_okI) (auto simp: row_clear_def row_ok_def list_all_iff halves_def intro!: paired_Plain)

lemma at_Some: "i < length xs \<Longrightarrow> at xs i = Some (xs ! i)"
  by (simp add: at_def)

lemma list_all_update: "list_all P xs \<Longrightarrow> P x \<Longrightarrow> list_all P (xs[i := x])"
  by (auto simp: list_all_iff dest!: subsetD [OF set_update_subset_insert])

text \<open>After \<open>clear_wide\<close> the cell may be made plain: its partner already is.\<close>

lemma clear_wide_ok:
  assumes "row_ok n r" and "i < n" and "n < 65536"
  obtains r' where "clear_wide i r = Some r'" and "length (row_cells r') = n" and "list_all cell_ok (row_cells r')"
    and "paired ((halves (row_cells r'))(i := Plain))" and "row_wrapped r' = row_wrapped r"
    and "\<And>j. j \<noteq> i \<Longrightarrow> halves (row_cells r') j \<in> {halves (row_cells r) j, Plain}"
proof -
  let ?cs = "row_cells r"
  note ok = row_okD [OF assms(1)]
  have clear: "clear_at j r = Some (r\<lparr> row_cells := ?cs[j := cell_clear (cell_attrs (?cs ! j)) (?cs ! j)] \<rparr>)"
    "list_all cell_ok (?cs[j := cell_clear (cell_attrs (?cs ! j)) (?cs ! j)])" if "j < n" for j
    using that ok row_ok_cell [OF assms(1) that]
    by (auto simp: clear_at_def at_def cell_ok_attrs intro!: list_all_update)
  have at_i: "halves ?cs i = half_of (?cs ! i)" using assms(2) ok(1) by (simp add: halves_def)
  consider "halves ?cs i = LeftHalf" | "halves ?cs i = RightHalf" | "halves ?cs i = Plain"
    by (cases "halves ?cs i") auto
  then show thesis
  proof cases
    case 1
    then have "halves ?cs (Suc i) = RightHalf" by (rule paired_left [OF ok(3)])
    then have j: "Suc i < n" using ok(1) by (metis half.distinct(3) halves_outside not_less)
    let ?r' = "r\<lparr> row_cells := ?cs[Suc i := cell_clear (cell_attrs (?cs ! Suc i)) (?cs ! Suc i)] \<rparr>"
    have "clear_wide i r = Some ?r'"
      using 1 at_i clear(1) [OF j] assms ok(1) j by (simp add: clear_wide_def at_def)
    moreover have "paired ((halves (row_cells ?r'))(i := Plain))"
      using paired_break [OF ok(3) 1] j ok(1) by (simp add: halves_update fun_upd_twist)
    moreover have "halves (row_cells ?r') m \<in> {halves ?cs m, Plain}" for m
      using j ok(1) by (simp add: halves_update)
    ultimately show thesis using that [of ?r'] clear(2) [OF j] ok(1) by simp
  next
    case 2
    then obtain m where m: "i = Suc m" "halves ?cs m = LeftHalf" using paired_right [OF ok(3)] by blast
    then have j: "m < n" using assms(2) by simp
    let ?r' = "r\<lparr> row_cells := ?cs[m := cell_clear (cell_attrs (?cs ! m)) (?cs ! m)] \<rparr>"
    have flags: "\<not> is_wide (?cs ! i)" "is_wide_continuation (?cs ! i)"
      using 2 at_i by (auto simp: half_of_def split: if_splits)
    have "clear_wide i r = Some ?r'"
      using flags clear(1) [OF j] assms ok(1) m by (simp add: clear_wide_def at_def)
    moreover have "paired ((halves (row_cells ?r'))(i := Plain))"
      using paired_break [OF ok(3) m(2)] j ok(1) m by (simp add: halves_update)
    moreover have "halves (row_cells ?r') l \<in> {halves ?cs l, Plain}" for l
      using j ok(1) by (simp add: halves_update)
    ultimately show thesis using that [of ?r'] clear(2) [OF j] ok(1) by simp
  next
    case 3
    then have "clear_wide i r = Some r"
      using assms(2) ok(1) at_i by (simp add: clear_wide_def at_def half_Plain_iff)
    moreover have "(halves ?cs)(i := Plain) = halves ?cs" using 3 by auto
    ultimately show thesis using that ok by simp
  qed
qed

lemma row_erase_ok:
  assumes "row_ok n r" and "i < n" and "n < 65536" and "attrs_ok a"
  obtains r' where "row_erase a i r = Some r'" and "row_ok n r'"
proof -
  obtain r1 where r1: "clear_wide i r = Some r1" "length (row_cells r1) = n" "list_all cell_ok (row_cells r1)"
      "paired ((halves (row_cells r1))(i := Plain))"
    by (rule clear_wide_ok [OF assms(1-3)])
  let ?r2 = "r1\<lparr> row_cells := (row_cells r1)[i := cell_clear a (row_cells r1 ! i)] \<rparr>"
  have "cell_ok (row_cells r1 ! i)" using r1(2,3) assms(2) by (simp add: list_all_length)
  then have "row_ok n ?r2"
    using r1 assms(2,4) by (intro row_okI) (simp_all add: halves_update list_all_update)
  moreover have "length (row_cells r) = n" using row_okD(1) [OF assms(1)] .
  ultimately show thesis
    using that assms(2,3) r1(1,2) by (simp add: row_erase_def at_def row_cols_def Let_def)
qed

lemma halves_remove:
  "halves (take i cs @ drop (Suc i) cs) = (\<lambda>j. if j < i then halves cs j else halves cs (Suc j))"
  if "i < length cs"
  using that by (auto simp: fun_eq_iff halves_def nth_append)

lemma list_all_take_drop: "list_all P xs \<Longrightarrow> list_all P (take i xs)" "list_all P xs \<Longrightarrow> list_all P (drop i xs)"
  by (auto simp: list_all_iff dest: in_set_takeD in_set_dropD)

lemma row_remove_ok:
  assumes "row_ok n r" and "i < n" and "n < 65536"
  obtains r' where "row_remove i r = Some r'" and "row_ok (n - 1) r'"
proof -
  obtain r1 where r1: "clear_wide i r = Some r1" "length (row_cells r1) = n" "list_all cell_ok (row_cells r1)"
      "paired ((halves (row_cells r1))(i := Plain))"
    by (rule clear_wide_ok [OF assms])
  have "(\<lambda>j. if j < i then ((halves (row_cells r1))(i := Plain)) j
          else ((halves (row_cells r1))(i := Plain)) (Suc j)) =
      (\<lambda>j. if j < i then halves (row_cells r1) j else halves (row_cells r1) (Suc j))"
    by auto
  with paired_remove [OF r1(4), of i] have "paired (halves (take i (row_cells r1) @ drop (Suc i) (row_cells r1)))"
    using assms(2) r1(2) by (simp add: halves_remove)
  then have "row_ok (n - 1) \<lparr> row_cells = take i (row_cells r1) @ drop (Suc i) (row_cells r1), row_wrapped = False \<rparr>"
    using r1(2,3) assms(2) by (intro row_okI) (simp_all add: list_all_take_drop)
  then show thesis using that assms(2) r1(1,2) by (simp add: row_remove_def)
qed

lemma halves_insert:
  "halves (take i cs @ c # drop i cs) = (\<lambda>j. if j < i then halves cs j else if j = i then half_of c else halves cs (j - 1))"
  if "i \<le> length cs"
  using that by (auto simp: fun_eq_iff halves_def nth_append nth_Cons')

lemma row_insert_ok:
  assumes "row_ok n r" and "i \<le> n" and "halves (row_cells r) i \<noteq> RightHalf"
  obtains r' where "row_insert i Cell_new r = Some r'" and "row_ok (Suc n) r'"
    and "row_cells r' = take i (row_cells r) @ Cell_new # drop i (row_cells r)"
proof -
  note ok = row_okD [OF assms(1)]
  have "row_ok (Suc n) \<lparr> row_cells = take i (row_cells r) @ Cell_new # drop i (row_cells r), row_wrapped = False \<rparr>"
    using ok assms(2) paired_insert [OF ok(3) assms(3)]
    by (intro row_okI) (simp_all add: halves_insert list_all_take_drop cong: if_cong)
  then show thesis using that assms(2) ok(1) by (simp add: row_insert_def)
qed

text \<open>One turn of the loop of \<open>insert_cells\<close> in front of a continuation: the new cell takes over the
  flag.\<close>

lemma row_insert_continuation_ok:
  assumes "row_ok n r" and "i < n" and "is_wide_continuation (row_cells r ! i)"
  defines "cs \<equiv> (row_cells r)[i := set_wide_continuation False (row_cells r ! i)]"
  defines "ds \<equiv> (take i cs @ Cell_new # drop i cs)[i := set_wide_continuation True Cell_new]"
  shows "row_ok (Suc n) \<lparr> row_cells = ds, row_wrapped = w \<rparr>" and "is_wide_continuation (ds ! i)"
proof -
  note ok = row_okD [OF assms(1)]
  have cell: "cell_ok (row_cells r ! i)" by (rule row_ok_cell [OF assms(1,2)])
  have right: "halves (row_cells r) i = RightHalf"
    using assms(2,3) ok(1) cell by (simp add: halves_def)
  have "halves (row_cells r) (Suc i) \<noteq> RightHalf"
    using ok(3) right by (metis half.distinct(5) paired_def)
  from paired_insert [OF ok(3) this]
  have "paired (\<lambda>j. if j < Suc i then halves (row_cells r) j else if j = Suc i then Plain
      else halves (row_cells r) (j - 1))" .
  moreover have "halves ds = (\<lambda>j. if j < Suc i then halves (row_cells r) j else if j = Suc i then Plain
      else halves (row_cells r) (j - 1))"
  proof -
    have i: "i < length (row_cells r)" using assms(2) ok(1) by simp
    have plain: "half_of (set_wide_continuation False (row_cells r ! i)) = Plain"
      using assms(3) cell cell_ok_flags by (auto simp: half_of_def)
    have fresh: "half_of (set_wide_continuation True Cell_new) = RightHalf" by (simp add: half_of_def)
    have cleared: "halves cs = (halves (row_cells r))(i := Plain)" "length cs = length (row_cells r)"
      unfolding cs_def using i plain by (simp_all add: halves_update)
    have "halves ds = (halves (take i cs @ Cell_new # drop i cs))(i := RightHalf)"
      unfolding ds_def fresh [symmetric] using i cleared(2) by (intro halves_update) simp
    also have "halves (take i cs @ Cell_new # drop i cs) =
        (\<lambda>j. if j < i then halves cs j else if j = i then half_of Cell_new else halves cs (j - 1))"
      using i cleared(2) by (intro halves_insert) simp
    finally show ?thesis using right by (auto simp: fun_eq_iff cleared(1))
  qed
  ultimately show "row_ok (Suc n) \<lparr> row_cells = ds, row_wrapped = w \<rparr>"
    using ok(1,2) assms(2) cell
    by (intro row_okI) (auto simp: ds_def cs_def intro!: list_all_update list_all_take_drop)
  show "is_wide_continuation (ds ! i)" using assms(2) ok(1) by (simp add: ds_def cs_def)
qed

lemma row_truncate_ok:
  assumes "row_ok m r" and "0 < n" and "n \<le> m"
  obtains r' where "row_truncate n r = Some r'" and "row_ok n r'"
proof -
  note ok = row_okD [OF assms(1)]
  let ?cs = "take n (row_cells r)"
  have last: "n - 1 < length ?cs" using assms ok(1) by simp
  have cut: "halves ?cs = (\<lambda>j. if j < n then halves (row_cells r) j else Plain)"
    using assms(3) ok(1) by (auto simp: halves_def fun_eq_iff)
  have wide: "is_wide (row_cells r ! (n - 1)) \<longleftrightarrow> halves (row_cells r) (n - 1) = LeftHalf"
    using assms ok(1) by (simp add: halves_def)
  have cell: "cell_ok (row_cells r ! (n - 1))" using row_ok_cell [OF assms(1), of "n - 1"] assms(2,3) by simp
  have paired_cut: "paired (\<lambda>j. if j < n \<and> \<not> (Suc j = n \<and> halves (row_cells r) j = LeftHalf)
      then halves (row_cells r) j else Plain)"
    by (rule paired_truncate [OF ok(3) assms(2)])
  show thesis
  proof (cases "is_wide (row_cells r ! (n - 1))")
    case True
    let ?c = "cell_clear (cell_attrs (row_cells r ! (n - 1))) (row_cells r ! (n - 1))"
    have "halves (?cs[n - 1 := ?c]) = (\<lambda>j. if j < n \<and> \<not> (Suc j = n \<and> halves (row_cells r) j = LeftHalf)
        then halves (row_cells r) j else Plain)"
      using True wide last assms(2) by (auto simp: halves_update cut fun_eq_iff)
    with paired_cut have "row_ok n \<lparr> row_cells = ?cs[n - 1 := ?c], row_wrapped = False \<rparr>"
      using ok assms cell
      by (intro row_okI) (auto simp: cell_ok_attrs intro!: list_all_update list_all_take_drop)
    then show thesis
      using that True last assms(2) by (simp add: row_truncate_def clear_at_def at_def Let_def)
  next
    case False
    then have "(\<lambda>j. if j < n \<and> \<not> (Suc j = n \<and> halves (row_cells r) j = LeftHalf)
        then halves (row_cells r) j else Plain) = halves ?cs"
      using wide by (auto simp: cut fun_eq_iff)
    with paired_cut have "row_ok n \<lparr> row_cells = ?cs, row_wrapped = False \<rparr>"
      using ok assms by (intro row_okI) (auto intro!: list_all_take_drop)
    then show thesis
      using that False last assms(2) by (simp add: row_truncate_def at_def Let_def)
  qed
qed

lemma halves_append_new: "halves (cs @ replicate m Cell_new) = halves cs"
  by (auto simp: halves_def fun_eq_iff nth_append)

lemma row_resize_grow:
  assumes "row_ok m r" and "m \<le> n"
  shows "row_ok n (row_resize n Cell_new r)"
  using row_okD [OF assms(1)] assms(2)
  by (intro row_okI) (auto simp: row_resize_def halves_append_new list_all_iff)

text \<open>A loop whose every turn succeeds and keeps a property succeeds and keeps it.\<close>

lemma fold_option_ok:
  assumes "P s" and "\<And>x t. x \<in> set xs \<Longrightarrow> P t \<Longrightarrow> \<exists>u. f x t = Some u \<and> P u"
  obtains s' where "fold_option f xs s = Some s'" and "P s'"
  using assms
proof (induction xs arbitrary: s thesis)
  case Nil
  then show ?case by simp
next
  case (Cons x xs)
  obtain u where u: "f x s = Some u" "P u" using Cons.prems(2,3) by auto
  obtain s' where "fold_option f xs u = Some s'" "P s'"
    by (rule Cons.IH [OF _ u(2)]) (use Cons.prems(3) in auto)
  then show ?case using u(1) Cons.prems(1) by simp
qed

lemma erase_columns_ok:
  assumes "row_ok n r" and "n < 65536" and "attrs_ok a" and "\<And>i. i \<in> set is \<Longrightarrow> i < n"
  obtains r' where "fold_option (row_erase a) is r = Some r'" and "row_ok n r'"
proof (rule fold_option_ok [of "row_ok n" r "is" "row_erase a"])
  show "row_ok n r" by (rule assms)
  show "\<exists>u. row_erase a x t = Some u \<and> row_ok n u" if "x \<in> set is" and "row_ok n t" for x t
    using row_erase_ok [OF that(2) assms(4) [OF that(1)] assms(2,3)] by blast
qed (rule that)

end
