(* ===== verification/Grid.thy ===== *)
theory Grid
  imports Row
begin

text \<open>
  The grid of rows with its cursor and scroll region, the operations of \<open>src/vt100/grid.rs\<close> that
  change it. An operation that indexes rows or unwraps an option may panic, which is \<open>None\<close>.

  The invariant \<open>grid_ok\<close> says what the comments of the source assume (the row of the cursor is
  always valid, the scroll region is always valid) together with the shape of the rows. An
  operation is \<open>safe\<close> when it succeeds on every such grid, keeps the invariant and keeps the size;
  the collection \<open>safe\<close> holds these lemmas.
\<close>

section \<open>State\<close>

record Size =
  size_rows :: nat
  size_cols :: nat

record Grid =
  g_size :: Size
  g_pos :: Pos
  g_saved_pos :: Pos
  g_rows :: "Row list"
  g_scroll_top :: nat
  g_scroll_bottom :: nat
  g_origin_mode :: bool
  g_saved_origin_mode :: bool
  g_scrollback :: "Row list"
  g_scrollback_len :: nat
  g_scrollback_offset :: nat

abbreviation rows_of :: "Grid \<Rightarrow> nat" where "rows_of g \<equiv> size_rows (g_size g)"
abbreviation cols_of :: "Grid \<Rightarrow> nat" where "cols_of g \<equiv> size_cols (g_size g)"

definition Grid_new :: "Size \<Rightarrow> nat \<Rightarrow> Grid"
  where "Grid_new sz scrollback_len =
    \<lparr> g_size = sz, g_pos = Pos_default, g_saved_pos = Pos_default, g_rows = [],
      g_scroll_top = 0, g_scroll_bottom = sub16 (size_rows sz) 1, g_origin_mode = False,
      g_saved_origin_mode = False, g_scrollback = [], g_scrollback_len = scrollback_len,
      g_scrollback_offset = 0 \<rparr>"

definition new_row :: "Grid \<Rightarrow> Row"
  where "new_row g = Row_new (cols_of g)"

definition allocate_rows :: "Grid \<Rightarrow> Grid"
  where "allocate_rows g =
    (if g_rows g = [] then g\<lparr> g_rows := replicate (rows_of g) (Row_new (cols_of g)) \<rparr> else g)"

definition grid_clear :: "Grid \<Rightarrow> Grid"
  where "grid_clear g =
    g\<lparr> g_pos := Pos_default, g_saved_pos := Pos_default, g_rows := map (row_clear Attrs_default) (g_rows g),
       g_scroll_top := 0, g_scroll_bottom := sub16 (rows_of g) 1, g_origin_mode := False,
       g_saved_origin_mode := False \<rparr>"

section \<open>Clamping\<close>

definition set_row :: "nat \<Rightarrow> Grid \<Rightarrow> Grid"
  where "set_row r g = g\<lparr> g_pos := (g_pos g)\<lparr> pos_row := r \<rparr> \<rparr>"

definition set_col :: "nat \<Rightarrow> Grid \<Rightarrow> Grid"
  where "set_col c g = g\<lparr> g_pos := (g_pos g)\<lparr> pos_col := c \<rparr> \<rparr>"

abbreviation cursor_row :: "Grid \<Rightarrow> nat" where "cursor_row g \<equiv> pos_row (g_pos g)"
abbreviation cursor_col :: "Grid \<Rightarrow> nat" where "cursor_col g \<equiv> pos_col (g_pos g)"

definition row_clamp_top :: "bool \<Rightarrow> Grid \<Rightarrow> nat \<times> Grid"
  where "row_clamp_top limit_to_scroll_region g =
    (if limit_to_scroll_region \<and> cursor_row g < g_scroll_top g
     then (sub16 (g_scroll_top g) (cursor_row g), set_row (g_scroll_top g) g)
     else (0, g))"

definition row_clamp_bottom :: "bool \<Rightarrow> Grid \<Rightarrow> nat \<times> Grid"
  where "row_clamp_bottom limit_to_scroll_region g =
    (let bottom_row = (if limit_to_scroll_region then g_scroll_bottom g else sub16 (rows_of g) 1)
     in if cursor_row g > bottom_row then (sub16 (cursor_row g) bottom_row, set_row bottom_row g) else (0, g))"

definition row_clamp :: "Grid \<Rightarrow> Grid"
  where "row_clamp g = (if cursor_row g > sub16 (rows_of g) 1 then set_row (sub16 (rows_of g) 1) g else g)"

definition col_clamp :: "Grid \<Rightarrow> Grid"
  where "col_clamp g = (if cursor_col g > sub16 (cols_of g) 1 then set_col (sub16 (cols_of g) 1) g else g)"

definition in_scroll_region :: "Grid \<Rightarrow> bool"
  where "in_scroll_region g \<longleftrightarrow> g_scroll_top g \<le> cursor_row g \<and> cursor_row g \<le> g_scroll_bottom g"

definition scroll_region_active :: "Grid \<Rightarrow> bool"
  where "scroll_region_active g \<longleftrightarrow> g_scroll_top g \<noteq> 0 \<or> g_scroll_bottom g \<noteq> sub16 (rows_of g) 1"

section \<open>Size and cursor\<close>

definition clamp_saved_pos :: "Grid \<Rightarrow> Grid"
  where "clamp_saved_pos g =
    (let p = g_saved_pos g;
         p1 = (if pos_row p > sub16 (rows_of g) 1 then p\<lparr> pos_row := sub16 (rows_of g) 1 \<rparr> else p);
         p2 = (if pos_col p1 > sub16 (cols_of g) 1 then p1\<lparr> pos_col := sub16 (cols_of g) 1 \<rparr> else p1)
     in g\<lparr> g_saved_pos := p2 \<rparr>)"

definition grid_set_size :: "Size \<Rightarrow> Grid \<Rightarrow> Grid"
  where "grid_set_size sz g =
    (let g1 = (if size_cols sz \<noteq> cols_of g then g\<lparr> g_rows := map (row_wrap False) (g_rows g) \<rparr> else g);
         g2 = (if g_scroll_bottom g1 = sub16 (rows_of g1) 1
               then g1\<lparr> g_scroll_bottom := sub16 (size_rows sz) 1 \<rparr> else g1);
         g3 = g2\<lparr> g_size := sz, g_rows := map (row_resize (size_cols sz) Cell_new) (g_rows g2) \<rparr>;
         g4 = g3\<lparr> g_rows := take (size_rows sz) (g_rows g3)
                    @ replicate (size_rows sz - length (g_rows g3)) (new_row g3) \<rparr>;
         g5 = (if g_scroll_bottom g4 \<ge> size_rows sz
               then g4\<lparr> g_scroll_bottom := sub16 (size_rows sz) 1 \<rparr> else g4);
         g6 = (if g_scroll_bottom g5 < g_scroll_top g5 then g5\<lparr> g_scroll_top := 0 \<rparr> else g5);
         g7 = snd (row_clamp_top False g6);
         g8 = snd (row_clamp_bottom False g7);
         g9 = col_clamp g8
     in clamp_saved_pos g9)"

definition set_pos :: "Pos \<Rightarrow> Grid \<Rightarrow> Grid"
  where "set_pos pos g =
    (let pos1 = (if g_origin_mode g
                 then pos\<lparr> pos_row := saturating_add16 (pos_row pos) (g_scroll_top g) \<rparr> else pos);
         g1 = g\<lparr> g_pos := pos1 \<rparr>;
         g2 = snd (row_clamp_top (g_origin_mode g1) g1);
         g3 = snd (row_clamp_bottom (g_origin_mode g2) g2)
     in col_clamp g3)"

definition grid_save_cursor :: "Grid \<Rightarrow> Grid"
  where "grid_save_cursor g = g\<lparr> g_saved_pos := g_pos g, g_saved_origin_mode := g_origin_mode g \<rparr>"

definition grid_restore_cursor :: "Grid \<Rightarrow> Grid"
  where "grid_restore_cursor g = g\<lparr> g_pos := g_saved_pos g, g_origin_mode := g_saved_origin_mode g \<rparr>"

definition set_origin_mode :: "bool \<Rightarrow> Grid \<Rightarrow> Grid"
  where "set_origin_mode mode g = set_pos Pos_default (g\<lparr> g_origin_mode := mode \<rparr>)"

definition set_scroll_region :: "nat \<Rightarrow> nat \<Rightarrow> Grid \<Rightarrow> Grid"
  where "set_scroll_region top_row bottom_row g =
    (let bottom1 = min bottom_row (sub16 (rows_of g) 1);
         g1 = (if top_row < bottom1 then g\<lparr> g_scroll_top := top_row, g_scroll_bottom := bottom1 \<rparr>
               else g\<lparr> g_scroll_top := 0, g_scroll_bottom := sub16 (rows_of g) 1 \<rparr>)
     in set_col 0 (set_row (g_scroll_top g1) g1))"

section \<open>Access\<close>

definition visible_rows :: "Grid \<Rightarrow> Row list"
  where "visible_rows g =
    take (length (g_rows g)) (drop (length (g_scrollback g) - g_scrollback_offset g) (g_scrollback g))
    @ take (length (g_rows g) - g_scrollback_offset g) (g_rows g)"

definition visible_cell :: "Grid \<Rightarrow> Pos \<Rightarrow> Cell option"
  where "visible_cell g pos = do { r \<leftarrow> at (visible_rows g) (pos_row pos); row_get r (pos_col pos) }"

definition drawing_row :: "Grid \<Rightarrow> nat \<Rightarrow> Row option"
  where "drawing_row g r = at (g_rows g) r"

definition drawing_cell :: "Grid \<Rightarrow> Pos \<Rightarrow> Cell option"
  where "drawing_cell g pos = do { r \<leftarrow> drawing_row g (pos_row pos); row_get r (pos_col pos) }"

text \<open>A mutable reference to a row, unwrapped, and what the caller does with it.\<close>

definition with_row :: "nat \<Rightarrow> (Row \<Rightarrow> Row option) \<Rightarrow> Grid \<Rightarrow> Grid option"
  where "with_row i f g =
    do {
      r \<leftarrow> drawing_row g i;
      r1 \<leftarrow> f r;
      Some (g\<lparr> g_rows := (g_rows g)[i := r1] \<rparr>)
    }"

definition with_cell :: "Pos \<Rightarrow> (Cell \<Rightarrow> Cell option) \<Rightarrow> Grid \<Rightarrow> Grid option"
  where "with_cell pos f =
    with_row (pos_row pos)
      (\<lambda>r. do {
         c \<leftarrow> row_get r (pos_col pos);
         c1 \<leftarrow> f c;
         Some (r\<lparr> row_cells := (row_cells r)[pos_col pos := c1] \<rparr>)
       })"

definition set_scrollback :: "nat \<Rightarrow> Grid \<Rightarrow> Grid"
  where "set_scrollback rows g = g\<lparr> g_scrollback_offset := min rows (length (g_scrollback g)) \<rparr>"

section \<open>Erasing\<close>

definition erase_all :: "Attrs \<Rightarrow> Grid \<Rightarrow> Grid option"
  where "erase_all a g = Some (g\<lparr> g_rows := map (row_clear a) (g_rows g) \<rparr>)"

definition erase_row :: "Attrs \<Rightarrow> Grid \<Rightarrow> Grid option"
  where "erase_row a g = with_row (cursor_row g) (\<lambda>r. Some (row_clear a r)) g"

definition erase_row_forward :: "Attrs \<Rightarrow> Grid \<Rightarrow> Grid option"
  where "erase_row_forward a g =
    with_row (cursor_row g) (fold_option (row_erase a) [cursor_col g ..< cols_of g]) g"

definition erase_row_backward :: "Attrs \<Rightarrow> Grid \<Rightarrow> Grid option"
  where "erase_row_backward a g =
    with_row (cursor_row g)
      (fold_option (row_erase a) [0 ..< Suc (min (cursor_col g) (sub16 (cols_of g) 1))]) g"

definition erase_all_forward :: "Attrs \<Rightarrow> Grid \<Rightarrow> Grid option"
  where "erase_all_forward a g =
    erase_row_forward a
      (g\<lparr> g_rows := take (cursor_row g + 1) (g_rows g) @ map (row_clear a) (drop (cursor_row g + 1) (g_rows g)) \<rparr>)"

definition erase_all_backward :: "Attrs \<Rightarrow> Grid \<Rightarrow> Grid option"
  where "erase_all_backward a g =
    erase_row_backward a
      (g\<lparr> g_rows := map (row_clear a) (take (cursor_row g) (g_rows g)) @ drop (cursor_row g) (g_rows g) \<rparr>)"

definition erase_cells :: "nat \<Rightarrow> Attrs \<Rightarrow> Grid \<Rightarrow> Grid option"
  where "erase_cells count a g =
    with_row (cursor_row g)
      (fold_option (row_erase a)
        [cursor_col g ..< min (saturating_add16 (cursor_col g) count) (cols_of g)]) g"

section \<open>Inserting and deleting\<close>

definition modify_at :: "nat \<Rightarrow> (Cell \<Rightarrow> Cell) \<Rightarrow> Row \<Rightarrow> Row option"
  where "modify_at i f r =
    do { c \<leftarrow> row_get r i; Some (r\<lparr> row_cells := (row_cells r)[i := f c] \<rparr>) }"

definition insert_cell_step :: "bool \<Rightarrow> nat \<Rightarrow> Row \<Rightarrow> Row option"
  where "insert_cell_step wide col r =
    do {
      r1 \<leftarrow> (if wide then modify_at col (set_wide_continuation False) r else Some r);
      r2 \<leftarrow> row_insert col Cell_new r1;
      if wide then modify_at col (set_wide_continuation True) r2 else Some r2
    }"

definition insert_cells :: "nat \<Rightarrow> Grid \<Rightarrow> Grid option"
  where "insert_cells count g =
    do {
      wide \<leftarrow> (if cursor_col g < cols_of g
               then map_option is_wide_continuation (drawing_cell g (g_pos g))
               else Some False);
      with_row (cursor_row g)
        (\<lambda>r. do {
           r1 \<leftarrow> fold_option (\<lambda>_. insert_cell_step wide (cursor_col g)) [0 ..< count] r;
           row_truncate (cols_of g) r1
         }) g
    }"

definition delete_cells :: "nat \<Rightarrow> Grid \<Rightarrow> Grid option"
  where "delete_cells count g =
    with_row (cursor_row g)
      (\<lambda>r. do {
         r1 \<leftarrow> fold_option (\<lambda>_. row_remove (cursor_col g)) [0 ..< min count (sub16 (cols_of g) (cursor_col g))] r;
         Some (row_resize (cols_of g) Cell_new r1)
       }) g"

text \<open>\<open>Vec::remove\<close> and \<open>Vec::insert\<close> panic out of range.\<close>

definition vec_remove :: "nat \<Rightarrow> 'a list \<Rightarrow> 'a list option"
  where "vec_remove i xs = (if i < length xs then Some (take i xs @ drop (Suc i) xs) else None)"

definition vec_insert :: "nat \<Rightarrow> 'a \<Rightarrow> 'a list \<Rightarrow> 'a list option"
  where "vec_insert i x xs = (if i \<le> length xs then Some (take i xs @ x # drop i xs) else None)"

definition lines_down :: "nat \<Rightarrow> Grid \<Rightarrow> Grid option"
  where "lines_down top_row g =
    do {
      rows1 \<leftarrow> vec_remove (g_scroll_bottom g) (g_rows g);
      rows2 \<leftarrow> vec_insert top_row (new_row g) rows1;
      r \<leftarrow> at rows2 (g_scroll_bottom g);
      Some (g\<lparr> g_rows := rows2[g_scroll_bottom g := row_wrap False r] \<rparr>)
    }"

definition insert_lines :: "nat \<Rightarrow> Grid \<Rightarrow> Grid option"
  where "insert_lines count = fold_option (\<lambda>_ g. lines_down (cursor_row g) g) [0 ..< count]"

definition scroll_down :: "nat \<Rightarrow> Grid \<Rightarrow> Grid option"
  where "scroll_down count = fold_option (\<lambda>_ g. lines_down (g_scroll_top g) g) [0 ..< count]"

definition delete_lines :: "nat \<Rightarrow> Grid \<Rightarrow> Grid option"
  where "delete_lines count g =
    fold_option
      (\<lambda>_ g. do {
         rows1 \<leftarrow> vec_insert (g_scroll_bottom g + 1) (new_row g) (g_rows g);
         rows2 \<leftarrow> vec_remove (cursor_row g) rows1;
         Some (g\<lparr> g_rows := rows2 \<rparr>)
       }) [0 ..< min count (sub16 (rows_of g) (cursor_row g))] g"

definition keep_scrollback :: "Row \<Rightarrow> Grid \<Rightarrow> Grid"
  where "keep_scrollback removed g =
    (if g_scrollback_len g > 0 \<and> \<not> scroll_region_active g
     then
       (let sb = g_scrollback g @ [removed];
            sb1 = drop (length sb - g_scrollback_len g) sb
        in g\<lparr> g_scrollback := sb1,
              g_scrollback_offset :=
                (if g_scrollback_offset g > 0 then min (length sb1) (g_scrollback_offset g + 1)
                 else g_scrollback_offset g) \<rparr>)
     else g)"

definition scroll_up :: "nat \<Rightarrow> Grid \<Rightarrow> Grid option"
  where "scroll_up count g =
    fold_option
      (\<lambda>_ g. do {
         rows1 \<leftarrow> vec_insert (g_scroll_bottom g + 1) (new_row g) (g_rows g);
         removed \<leftarrow> at rows1 (g_scroll_top g);
         rows2 \<leftarrow> vec_remove (g_scroll_top g) rows1;
         Some (keep_scrollback removed (g\<lparr> g_rows := rows2 \<rparr>))
       }) [0 ..< min count (sub16 (rows_of g) (g_scroll_top g))] g"

section \<open>Cursor movement\<close>

definition row_inc_clamp :: "nat \<Rightarrow> Grid \<Rightarrow> Grid"
  where "row_inc_clamp count g =
    snd (row_clamp_bottom (in_scroll_region g) (set_row (saturating_add16 (cursor_row g) count) g))"

definition row_inc_scroll :: "nat \<Rightarrow> Grid \<Rightarrow> (nat \<times> Grid) option"
  where "row_inc_scroll count g =
    (let inside = in_scroll_region g;
         (lines, g1) = row_clamp_bottom inside (set_row (saturating_add16 (cursor_row g) count) g)
     in if inside then map_option (\<lambda>g2. (lines, g2)) (scroll_up lines g1) else Some (0, g1))"

definition row_dec_clamp :: "nat \<Rightarrow> Grid \<Rightarrow> Grid"
  where "row_dec_clamp count g =
    snd (row_clamp_top (in_scroll_region g) (set_row (saturating_sub16 (cursor_row g) count) g))"

definition row_dec_scroll :: "nat \<Rightarrow> Grid \<Rightarrow> Grid option"
  where "row_dec_scroll count g =
    (let inside = in_scroll_region g;
         extra_lines = saturating_sub16 count (cursor_row g);
         (lines, g1) = row_clamp_top inside (set_row (saturating_sub16 (cursor_row g) count) g)
     in scroll_down (add16 lines extra_lines) g1)"

definition row_set :: "nat \<Rightarrow> Grid \<Rightarrow> Grid"
  where "row_set i g = row_clamp (set_row i g)"

definition col_inc :: "nat \<Rightarrow> Grid \<Rightarrow> Grid"
  where "col_inc count g = set_col (saturating_add16 (cursor_col g) count) g"

definition col_inc_clamp :: "nat \<Rightarrow> Grid \<Rightarrow> Grid"
  where "col_inc_clamp count g = col_clamp (col_inc count g)"

definition col_dec :: "nat \<Rightarrow> Grid \<Rightarrow> Grid"
  where "col_dec count g = set_col (saturating_sub16 (cursor_col g) count) g"

definition col_tab :: "Grid \<Rightarrow> Grid"
  where "col_tab g = col_clamp (set_col (add16 (sub16 (cursor_col g) (cursor_col g mod 8)) 8) g)"

definition col_set :: "nat \<Rightarrow> Grid \<Rightarrow> Grid"
  where "col_set i g = col_clamp (set_col i g)"

definition col_wrap :: "nat \<Rightarrow> bool \<Rightarrow> Grid \<Rightarrow> Grid option"
  where "col_wrap width wrap g =
    (if cursor_col g > sub16 (cols_of g) width
     then
       do {
         let prev_row = cursor_row g;
         (scrolled, g1) \<leftarrow> row_inc_scroll 1 (set_col 0 g);
         let prev_row1 = sub16 prev_row scrolled;
         with_row prev_row1 (\<lambda>r. Some (row_wrap (wrap \<and> add16 prev_row1 1 = cursor_row g1) r)) g1
       }
     else Some g)"

section \<open>The invariant\<close>

definition frame_ok :: "Grid \<Rightarrow> bool"
  where "frame_ok g \<longleftrightarrow>
    1 \<le> rows_of g \<and> rows_of g < 65535 \<and> 1 \<le> cols_of g \<and> cols_of g < 65535
    \<and> cursor_row g < rows_of g \<and> cursor_col g \<le> cols_of g
    \<and> pos_row (g_saved_pos g) < rows_of g \<and> pos_col (g_saved_pos g) \<le> cols_of g
    \<and> g_scroll_top g \<le> g_scroll_bottom g \<and> g_scroll_bottom g < rows_of g
    \<and> (rows_of g = 1 \<or> 1 \<le> g_scroll_bottom g)
    \<and> g_scrollback g = [] \<and> g_scrollback_len g = 0 \<and> g_scrollback_offset g = 0"

definition rows_ok :: "Grid \<Rightarrow> bool"
  where "rows_ok g \<longleftrightarrow> length (g_rows g) = rows_of g \<and> list_all (row_ok (cols_of g)) (g_rows g)"

definition grid_ok :: "Grid \<Rightarrow> bool"
  where "grid_ok g \<longleftrightarrow> frame_ok g \<and> rows_ok g"

text \<open>The alternate grid has no rows before it is first used.\<close>

definition grid_unallocated :: "Grid \<Rightarrow> bool"
  where "grid_unallocated g \<longleftrightarrow> frame_ok g \<and> g_rows g = []"

definition keeps :: "(Grid \<Rightarrow> Grid) \<Rightarrow> bool"
  where "keeps f \<longleftrightarrow> (\<forall>g. grid_ok g \<longrightarrow> grid_ok (f g) \<and> g_size (f g) = g_size g)"

definition safe :: "(Grid \<Rightarrow> Grid option) \<Rightarrow> bool"
  where "safe f \<longleftrightarrow> (\<forall>g. grid_ok g \<longrightarrow> (\<exists>g'. f g = Some g' \<and> grid_ok g' \<and> g_size g' = g_size g))"

named_theorems safe \<open>operations that neither panic nor break the invariant\<close>

lemma keepsI: "(\<And>g. grid_ok g \<Longrightarrow> grid_ok (f g) \<and> g_size (f g) = g_size g) \<Longrightarrow> keeps f"
  by (simp add: keeps_def)

lemma keepsD: "keeps f \<Longrightarrow> grid_ok g \<Longrightarrow> grid_ok (f g)" "keeps f \<Longrightarrow> grid_ok g \<Longrightarrow> g_size (f g) = g_size g"
  by (simp_all add: keeps_def)

lemma safeI: "(\<And>g. grid_ok g \<Longrightarrow> \<exists>g'. f g = Some g' \<and> grid_ok g' \<and> g_size g' = g_size g) \<Longrightarrow> safe f"
  by (simp add: safe_def)

lemma safeE:
  assumes "safe f" and "grid_ok g"
  obtains g' where "f g = Some g'" and "grid_ok g'" and "g_size g' = g_size g"
  using assms by (auto simp: safe_def)

lemma safe_keeps: "keeps f \<Longrightarrow> safe (\<lambda>g. Some (f g))"
  by (simp add: keeps_def safe_def)

lemma keeps_comp: "keeps f \<Longrightarrow> keeps h \<Longrightarrow> keeps (\<lambda>g. h (f g))"
  by (simp add: keeps_def)

lemma safe_bind: "safe f \<Longrightarrow> safe h \<Longrightarrow> safe (\<lambda>g. do { g1 \<leftarrow> f g; h g1 })"
  unfolding safe_def by (metis bind.bind_lunit)

lemma safe_loop: "(\<And>x. x \<in> set xs \<Longrightarrow> safe (f x)) \<Longrightarrow> safe (fold_option f xs)"
proof (rule safeI)
  fix g
  assume steps: "\<And>x. x \<in> set xs \<Longrightarrow> safe (f x)" and ok: "grid_ok g"
  obtain g' where "fold_option f xs g = Some g'" "grid_ok g' \<and> g_size g' = g_size g"
  proof (rule fold_option_ok [of "\<lambda>h. grid_ok h \<and> g_size h = g_size g" g xs f])
    show "\<exists>u. f x t = Some u \<and> grid_ok u \<and> g_size u = g_size g"
      if "x \<in> set xs" "grid_ok t \<and> g_size t = g_size g" for x t
      using steps [OF that(1)] that(2) unfolding safe_def by metis
  qed (use ok in auto)
  then show "\<exists>g'. fold_option f xs g = Some g' \<and> grid_ok g' \<and> g_size g' = g_size g" by blast
qed

lemmas grid_defs = grid_ok_def frame_ok_def rows_ok_def

section \<open>Movement keeps the invariant\<close>

lemma grid_ok_frame:
  "grid_ok g \<Longrightarrow> 1 \<le> rows_of g" "grid_ok g \<Longrightarrow> 1 \<le> cols_of g" "grid_ok g \<Longrightarrow> rows_of g < 65535"
  "grid_ok g \<Longrightarrow> cols_of g < 65535" "grid_ok g \<Longrightarrow> cursor_row g < rows_of g"
  "grid_ok g \<Longrightarrow> cursor_col g \<le> cols_of g" "grid_ok g \<Longrightarrow> g_scroll_bottom g < rows_of g"
  "grid_ok g \<Longrightarrow> g_scroll_top g \<le> g_scroll_bottom g" "grid_ok g \<Longrightarrow> length (g_rows g) = rows_of g"
  "grid_ok g \<Longrightarrow> list_all (row_ok (cols_of g)) (g_rows g)"
  by (simp_all add: grid_defs)

lemma grid_ok_set_cursor:
  assumes "grid_ok g" and "r < rows_of g" and "c \<le> cols_of g"
  shows "grid_ok (g\<lparr> g_pos := \<lparr> pos_row = r, pos_col = c \<rparr> \<rparr>)"
  using assms by (simp add: grid_defs)

lemma cursor_eta: "g_pos g = \<lparr> pos_row = cursor_row g, pos_col = cursor_col g \<rparr>"
  by simp

lemma grid_ok_set_row: "grid_ok g \<Longrightarrow> r < rows_of g \<Longrightarrow> grid_ok (set_row r g)"
  by (simp add: grid_defs set_row_def)

lemma grid_ok_set_col: "grid_ok g \<Longrightarrow> c \<le> cols_of g \<Longrightarrow> grid_ok (set_col c g)"
  by (simp add: grid_defs set_col_def)

lemma set_row_simps [simp]:
  "g_size (set_row r g) = g_size g" "cursor_row (set_row r g) = r" "cursor_col (set_row r g) = cursor_col g"
  "g_scroll_top (set_row r g) = g_scroll_top g" "g_scroll_bottom (set_row r g) = g_scroll_bottom g"
  "g_rows (set_row r g) = g_rows g" "g_origin_mode (set_row r g) = g_origin_mode g"
  "set_row r (set_row q g) = set_row r g"
  by (simp_all add: set_row_def)

lemma set_col_simps [simp]:
  "g_size (set_col c g) = g_size g" "cursor_col (set_col c g) = c" "cursor_row (set_col c g) = cursor_row g"
  "g_scroll_top (set_col c g) = g_scroll_top g" "g_scroll_bottom (set_col c g) = g_scroll_bottom g"
  "g_rows (set_col c g) = g_rows g" "g_origin_mode (set_col c g) = g_origin_mode g"
  "set_col c (set_col d g) = set_col c g"
  by (simp_all add: set_col_def)

text \<open>Clamping brings a cursor that has left the grid back into it; the row may be anywhere before
  \<open>row_clamp_bottom\<close>, the column before \<open>col_clamp\<close>.\<close>

lemma row_clamp_bottom_ok:
  assumes "grid_ok g"
  shows "grid_ok (snd (row_clamp_bottom b (set_row r g)))"
    and "g_size (snd (row_clamp_bottom b (set_row r g))) = g_size g"
proof -
  note f = grid_ok_frame [OF assms]
  have "r < rows_of g" if "\<not> (if b then g_scroll_bottom g else rows_of g - 1) < r"
    using that f by (auto split: if_splits)
  then show "grid_ok (snd (row_clamp_bottom b (set_row r g)))"
    using f by (auto simp: row_clamp_bottom_def Let_def intro!: grid_ok_set_row [OF assms] split: if_splits)
  show "g_size (snd (row_clamp_bottom b (set_row r g))) = g_size g"
    by (simp add: row_clamp_bottom_def Let_def)
qed

lemma row_clamp_top_ok:
  assumes "grid_ok g" and "r < rows_of g"
  shows "grid_ok (snd (row_clamp_top b (set_row r g)))"
    and "g_size (snd (row_clamp_top b (set_row r g))) = g_size g"
  using assms grid_ok_frame(7,8) [OF assms(1)]
  by (auto simp: row_clamp_top_def intro!: grid_ok_set_row [OF assms(1)])

lemma col_clamp_ok:
  assumes "grid_ok g"
  shows "grid_ok (col_clamp (set_col c g))" and "g_size (col_clamp (set_col c g)) = g_size g"
    and "cursor_row (col_clamp (set_col c g)) = cursor_row g"
  using grid_ok_frame(2) [OF assms]
  by (auto simp: col_clamp_def intro!: grid_ok_set_col [OF assms])

lemma keeps_movement [safe]:
  "keeps (row_inc_clamp n)" "keeps (row_dec_clamp n)" "keeps (row_set n)" "keeps (col_inc_clamp n)"
  "keeps (col_dec n)" "keeps col_tab" "keeps (col_set n)"
proof -
  show "keeps (row_inc_clamp n)"
    by (rule keepsI) (simp add: row_inc_clamp_def row_clamp_bottom_ok)
  show "keeps (row_dec_clamp n)"
    by (rule keepsI) (auto simp: row_dec_clamp_def saturating_sub16_def row_clamp_top_ok
        dest: grid_ok_frame(5) intro!: row_clamp_top_ok)
  show "keeps (row_set n)"
    by (rule keepsI) (auto simp: row_set_def row_clamp_def dest: grid_ok_frame(1) intro!: grid_ok_set_row)
  show "keeps (col_inc_clamp n)"
    by (rule keepsI) (simp add: col_inc_clamp_def col_inc_def col_clamp_ok)
  show "keeps (col_dec n)"
    by (rule keepsI) (auto simp: col_dec_def saturating_sub16_def dest: grid_ok_frame(6) intro!: grid_ok_set_col)
  show "keeps col_tab"
    by (rule keepsI) (simp add: col_tab_def col_clamp_ok)
  show "keeps (col_set n)"
    by (rule keepsI) (simp add: col_set_def col_clamp_ok)
qed

lemma keeps_set_pos [safe]: "keeps (set_pos pos)"
proof (rule keepsI)
  fix g
  assume ok: "grid_ok g"
  note f = grid_ok_frame [OF ok]
  define r where "r = (if g_origin_mode g then saturating_add16 (pos_row pos) (g_scroll_top g) else pos_row pos)"
  have start: "g\<lparr> g_pos := (if g_origin_mode g
      then pos\<lparr> pos_row := saturating_add16 (pos_row pos) (g_scroll_top g) \<rparr> else pos) \<rparr> =
      set_row r (set_col (pos_col pos) g)"
    by (simp add: r_def set_row_def set_col_def)
  define r1 where "r1 = (if g_origin_mode g \<and> r < g_scroll_top g then g_scroll_top g else r)"
  have top_row: "snd (row_clamp_top (g_origin_mode g) (set_row r (set_col (pos_col pos) g))) =
      set_row r1 (set_col (pos_col pos) g)"
    by (simp add: row_clamp_top_def r1_def)
  define b where "b = (if g_origin_mode g then g_scroll_bottom g else rows_of g - 1)"
  have bottom_row: "snd (row_clamp_bottom (g_origin_mode g) (set_row r1 (set_col (pos_col pos) g))) =
      set_row (min r1 b) (set_col (pos_col pos) g)"
    using f(1) by (auto simp: row_clamp_bottom_def Let_def b_def min_def)
  have swap: "set_row q (set_col c h) = set_col c (set_row q h)" for q c h
    by (simp add: set_row_def set_col_def)
  have "min r1 b < rows_of g" using f by (auto simp: b_def min_def)
  then have "grid_ok (set_row (min r1 b) g)" by (rule grid_ok_set_row [OF ok])
  moreover have "set_pos pos g = col_clamp (set_col (pos_col pos) (set_row (min r1 b) g))"
    unfolding set_pos_def Let_def start swap [symmetric] by (simp add: top_row bottom_row)
  ultimately show "grid_ok (set_pos pos g) \<and> g_size (set_pos pos g) = g_size g"
    by (simp add: col_clamp_ok)
qed

lemma keeps_cursor [safe]:
  "keeps grid_save_cursor" "keeps grid_restore_cursor" "keeps (set_origin_mode b)"
  "keeps (set_scroll_region t l)" "keeps (set_scrollback n)"
proof -
  show "keeps grid_save_cursor" "keeps grid_restore_cursor" "keeps (set_scrollback n)"
    by (rule keepsI; simp add: grid_defs grid_save_cursor_def grid_restore_cursor_def set_scrollback_def)+
  have "keeps (\<lambda>g. g\<lparr> g_origin_mode := b \<rparr>)" by (rule keepsI) (simp add: grid_defs)
  from keeps_comp [OF this keeps_set_pos] show "keeps (set_origin_mode b)"
    unfolding set_origin_mode_def [abs_def] .
  show "keeps (set_scroll_region t l)"
    by (rule keepsI)
      (auto simp: grid_defs set_scroll_region_def Let_def set_col_def set_row_def min_def)
qed

lemma grid_ok_clear: "grid_ok g \<Longrightarrow> grid_ok (grid_clear g) \<and> g_size (grid_clear g) = g_size g"
  by (auto simp: grid_defs grid_clear_def Pos_default_def list_all_iff intro: row_ok_clear)

lemma grid_unallocated_clear: "grid_unallocated g \<Longrightarrow> grid_unallocated (grid_clear g)"
  by (auto simp: grid_unallocated_def frame_ok_def grid_clear_def Pos_default_def)

lemma grid_ok_allocate:
  "grid_unallocated g \<or> grid_ok g \<Longrightarrow> grid_ok (allocate_rows g) \<and> g_size (allocate_rows g) = g_size g"
  by (auto simp: grid_unallocated_def grid_defs allocate_rows_def list_all_iff row_ok_new)

lemma grid_unallocated_new:
  "1 \<le> size_rows s \<Longrightarrow> size_rows s < 65535 \<Longrightarrow> 1 \<le> size_cols s \<Longrightarrow> size_cols s < 65535 \<Longrightarrow>
   grid_unallocated (Grid_new s 0)"
  by (auto simp: grid_unallocated_def frame_ok_def Grid_new_def Pos_default_def)

section \<open>Operations on one row\<close>

lemma grid_ok_row: "grid_ok g \<Longrightarrow> i < rows_of g \<Longrightarrow> row_ok (cols_of g) (g_rows g ! i)"
  by (simp add: grid_defs list_all_length)

lemma grid_ok_update_row:
  "grid_ok g \<Longrightarrow> row_ok (cols_of g) r \<Longrightarrow> grid_ok (g\<lparr> g_rows := (g_rows g)[i := r] \<rparr>)"
  by (simp add: grid_defs list_all_update)

lemma with_row_ok:
  assumes "grid_ok g" and "i < rows_of g"
    and "\<And>r. row_ok (cols_of g) r \<Longrightarrow> \<exists>r'. f r = Some r' \<and> row_ok (cols_of g) r'"
  obtains r' where "with_row i f g = Some (g\<lparr> g_rows := (g_rows g)[i := r'] \<rparr>)"
    and "grid_ok (g\<lparr> g_rows := (g_rows g)[i := r'] \<rparr>)" and "f (g_rows g ! i) = Some r'"
proof -
  obtain r' where r': "f (g_rows g ! i) = Some r'" "row_ok (cols_of g) r'"
    using assms(3) [OF grid_ok_row [OF assms(1,2)]] by blast
  have "with_row i f g = Some (g\<lparr> g_rows := (g_rows g)[i := r'] \<rparr>)"
    using assms(1,2) r'(1) by (simp add: with_row_def drawing_row_def at_def grid_defs)
  then show thesis using that r' grid_ok_update_row [OF assms(1) r'(2)] by blast
qed

lemma safe_current_row:
  assumes "\<And>g r. grid_ok g \<Longrightarrow> row_ok (cols_of g) r \<Longrightarrow> \<exists>r'. f g r = Some r' \<and> row_ok (cols_of g) r'"
  shows "safe (\<lambda>g. with_row (cursor_row g) (f g) g)"
proof (rule safeI)
  fix g
  assume ok: "grid_ok g"
  obtain r' where "with_row (cursor_row g) (f g) g = Some (g\<lparr> g_rows := (g_rows g)[cursor_row g := r'] \<rparr>)"
      "grid_ok (g\<lparr> g_rows := (g_rows g)[cursor_row g := r'] \<rparr>)"
    by (rule with_row_ok [OF ok grid_ok_frame(5) [OF ok], of "f g"]) (use assms [OF ok] in auto)
  then show "\<exists>g'. with_row (cursor_row g) (f g) g = Some g' \<and> grid_ok g' \<and> g_size g' = g_size g" by auto
qed

lemma safe_erase_columns:
  assumes "attrs_ok a" and "\<And>g i. grid_ok g \<Longrightarrow> i \<in> set (is g) \<Longrightarrow> i < cols_of g"
  shows "safe (\<lambda>g. with_row (cursor_row g) (fold_option (row_erase a) (is g)) g)"
proof (rule safe_current_row)
  fix g r
  assume ok: "grid_ok g" and r: "row_ok (cols_of g) r"
  have "cols_of g < 65536" using grid_ok_frame(4) [OF ok] by simp
  from erase_columns_ok [OF r this assms(1) assms(2) [OF ok]]
  show "\<exists>r'. fold_option (row_erase a) (is g) r = Some r' \<and> row_ok (cols_of g) r'" by blast
qed

lemma safe_erase [safe]:
  assumes "attrs_ok a"
  shows "safe (erase_row a)" "safe (erase_row_forward a)" "safe (erase_row_backward a)"
    "safe (erase_cells n a)" "safe (erase_all a)"
proof -
  show "safe (erase_row a)"
    unfolding erase_row_def [abs_def] by (rule safe_current_row) (auto intro: row_ok_clear assms)
  show "safe (erase_row_forward a)"
    unfolding erase_row_forward_def [abs_def] by (rule safe_erase_columns [OF assms]) simp
  show "safe (erase_row_backward a)"
    unfolding erase_row_backward_def [abs_def]
    by (rule safe_erase_columns [OF assms]) (auto dest: grid_ok_frame(2))
  show "safe (erase_cells n a)"
    unfolding erase_cells_def [abs_def] by (rule safe_erase_columns [OF assms]) simp
  show "safe (erase_all a)"
    by (rule safeI) (auto simp: erase_all_def grid_defs list_all_iff intro: row_ok_clear assms)
qed

lemma safe_erase_all_forward [safe]: "attrs_ok a \<Longrightarrow> safe (erase_all_forward a)"
proof (rule safeI)
  fix g
  assume a: "attrs_ok a" and ok: "grid_ok g"
  let ?g = "g\<lparr> g_rows := take (cursor_row g + 1) (g_rows g) @ map (row_clear a) (drop (cursor_row g + 1) (g_rows g)) \<rparr>"
  have "grid_ok ?g"
    using ok a by (auto simp: grid_defs list_all_iff dest: in_set_takeD in_set_dropD intro: row_ok_clear)
  from safeE [OF safe_erase(2) [OF a] this]
  show "\<exists>g'. erase_all_forward a g = Some g' \<and> grid_ok g' \<and> g_size g' = g_size g"
    unfolding erase_all_forward_def by (metis Grid.select_convs(1) Grid.surjective Grid.update_convs(4))
qed

lemma safe_erase_all_backward [safe]: "attrs_ok a \<Longrightarrow> safe (erase_all_backward a)"
proof (rule safeI)
  fix g
  assume a: "attrs_ok a" and ok: "grid_ok g"
  let ?g = "g\<lparr> g_rows := map (row_clear a) (take (cursor_row g) (g_rows g)) @ drop (cursor_row g) (g_rows g) \<rparr>"
  have "grid_ok ?g"
    using ok a by (auto simp: grid_defs list_all_iff dest: in_set_takeD in_set_dropD intro: row_ok_clear)
  from safeE [OF safe_erase(3) [OF a] this]
  show "\<exists>g'. erase_all_backward a g = Some g' \<and> grid_ok g' \<and> g_size g' = g_size g"
    unfolding erase_all_backward_def by (metis Grid.select_convs(1) Grid.surjective Grid.update_convs(4))
qed

lemma delete_columns_ok:
  assumes "row_ok n r" and "n < 65536" and "i + k \<le> n"
  obtains r' where "fold_option (\<lambda>_. row_remove i) [0 ..< k] r = Some r'" and "row_ok (n - k) r'"
proof -
  have "\<exists>r'. fold_option (\<lambda>_. row_remove i) xs r = Some r' \<and> row_ok (n - length xs) r'"
    if "row_ok n r" "n < 65536" "i + length xs \<le> n" for xs :: "nat list" and n r
    using that
  proof (induction xs arbitrary: n r)
    case (Cons x xs)
    then obtain r1 where r1: "row_remove i r = Some r1" "row_ok (n - 1) r1"
      using row_remove_ok [of n r i] by auto
    have "\<exists>r'. fold_option (\<lambda>_. row_remove i) xs r1 = Some r' \<and> row_ok (n - 1 - length xs) r'"
      by (rule Cons.IH) (use Cons.prems r1 in auto)
    with r1(1) show ?case by (auto simp: diff_diff_left)
  qed simp
  from this [of n r "[0 ..< k]"] assms show thesis using that by auto
qed

lemma safe_delete_cells [safe]: "safe (delete_cells n)"
  unfolding delete_cells_def [abs_def]
proof (rule safe_current_row)
  fix g r
  assume ok: "grid_ok g" and r: "row_ok (cols_of g) r"
  note f = grid_ok_frame [OF ok]
  let ?k = "min n (sub16 (cols_of g) (cursor_col g))"
  have "cursor_col g + ?k \<le> cols_of g" "cols_of g < 65536" using f by simp_all
  then obtain r1 where r1: "fold_option (\<lambda>_. row_remove (cursor_col g)) [0 ..< ?k] r = Some r1" "row_ok (cols_of g - ?k) r1"
    using delete_columns_ok [OF r] by blast
  have "row_ok (cols_of g) (row_resize (cols_of g) Cell_new r1)" by (rule row_resize_grow [OF r1(2)]) simp
  with r1(1) show "\<exists>r'. (do { r1 \<leftarrow> fold_option (\<lambda>_. row_remove (cursor_col g)) [0 ..< ?k] r;
       Some (row_resize (cols_of g) Cell_new r1) }) = Some r' \<and> row_ok (cols_of g) r'" by simp
qed

lemma insert_cell_step_ok:
  assumes "row_ok n r" and "i \<le> n" and "wide \<longleftrightarrow> i < n \<and> is_wide_continuation (row_cells r ! i)"
  obtains r' where "insert_cell_step wide i r = Some r'" and "row_ok (Suc n) r'"
    and "wide \<longleftrightarrow> i < Suc n \<and> is_wide_continuation (row_cells r' ! i)"
proof (cases wide)
  case True
  let ?cs = "(row_cells r)[i := set_wide_continuation False (row_cells r ! i)]"
  let ?r' = "\<lparr> row_cells = (take i ?cs @ Cell_new # drop i ?cs)[i := set_wide_continuation True Cell_new], row_wrapped = False \<rparr>"
  have i: "i < n" "is_wide_continuation (row_cells r ! i)" using True assms(3) by simp_all
  have "length (row_cells r) = n" by (rule row_okD(1) [OF assms(1)])
  then have "insert_cell_step wide i r = Some ?r'"
    using True i by (simp add: insert_cell_step_def modify_at_def row_get_def at_def row_insert_def nth_append)
  then show thesis
    using that row_insert_continuation_ok(1) [OF assms(1) i, where w = False]
      row_insert_continuation_ok(2) [OF assms(1) i] True i by simp
next
  case False
  have len: "length (row_cells r) = n" by (rule row_okD(1) [OF assms(1)])
  have "halves (row_cells r) i \<noteq> RightHalf"
    using False assms(3) len by (auto simp: halves_def half_of_def)
  then obtain r' where r': "row_insert i Cell_new r = Some r'" "row_ok (Suc n) r'"
      "row_cells r' = take i (row_cells r) @ Cell_new # drop i (row_cells r)"
    by (rule row_insert_ok [OF assms(1,2)])
  then show thesis
    using that False assms(2) len by (simp add: insert_cell_step_def nth_append)
qed

lemma insert_columns_ok:
  assumes "row_ok n r" and "i \<le> n" and "wide \<longleftrightarrow> i < n \<and> is_wide_continuation (row_cells r ! i)"
  shows "\<exists>r'. fold_option (\<lambda>_. insert_cell_step wide i) xs r = Some r' \<and> row_ok (n + length xs) r'"
  using assms
proof (induction xs arbitrary: n r)
  case (Cons x xs)
  obtain r1 where r1: "insert_cell_step wide i r = Some r1" "row_ok (Suc n) r1"
      "wide \<longleftrightarrow> i < Suc n \<and> is_wide_continuation (row_cells r1 ! i)"
    by (rule insert_cell_step_ok [OF Cons.prems])
  with Cons.IH [OF r1(2) _ r1(3)] Cons.prems(2) show ?case by auto
qed simp

lemma safe_insert_cells [safe]: "safe (insert_cells n)"
proof (rule safeI)
  fix g
  assume ok: "grid_ok g"
  note f = grid_ok_frame [OF ok]
  let ?row = "g_rows g ! cursor_row g" and ?i = "cursor_col g"
  define wide where "wide \<longleftrightarrow> ?i < cols_of g \<and> is_wide_continuation (row_cells ?row ! ?i)"
  have row: "row_ok (cols_of g) ?row" by (rule grid_ok_row [OF ok f(5)])
  have drawn: "drawing_row g (cursor_row g) = Some ?row" using f by (simp add: drawing_row_def at_def)
  have "(if ?i < cols_of g then map_option is_wide_continuation (drawing_cell g (g_pos g)) else Some False) = Some wide"
    using row_okD(1) [OF row] by (simp add: wide_def drawing_cell_def drawn row_get_def at_def)
  moreover obtain r1 where r1: "fold_option (\<lambda>_. insert_cell_step wide ?i) [0 ..< n] ?row = Some r1"
      "row_ok (cols_of g + n) r1"
    using insert_columns_ok [OF row f(6) wide_def, of "[0 ..< n]"] by auto
  moreover obtain r2 where r2: "row_truncate (cols_of g) r1 = Some r2" "row_ok (cols_of g) r2"
    using row_truncate_ok [OF r1(2), of "cols_of g"] f(2) by auto
  ultimately have "insert_cells n g = Some (g\<lparr> g_rows := (g_rows g)[cursor_row g := r2] \<rparr>)"
    by (simp add: insert_cells_def with_row_def drawn)
  with grid_ok_update_row [OF ok r2(2)]
  show "\<exists>g'. insert_cells n g = Some g' \<and> grid_ok g' \<and> g_size g' = g_size g" by auto
qed

section \<open>Operations on lines\<close>

lemma rows_ok_remove_insert:
  assumes "list_all P xs" and "P x" and "i < length xs" and "j < length xs"
  shows "\<exists>ys zs. vec_remove i xs = Some ys \<and> vec_insert j x ys = Some zs \<and> length zs = length xs \<and> list_all P zs"
  using assms by (auto simp: vec_remove_def vec_insert_def list_all_take_drop)

lemma rows_ok_insert_remove:
  assumes "list_all P xs" and "P x" and "i \<le> length xs" and "j \<le> length xs"
  shows "\<exists>ys zs. vec_insert i x xs = Some ys \<and> at ys j \<noteq> None \<and> vec_remove j ys = Some zs \<and> length zs = length xs
    \<and> list_all P zs"
  using assms by (auto simp: vec_remove_def vec_insert_def at_def intro!: list_all_take_drop)

lemma grid_ok_new_row: "grid_ok g \<Longrightarrow> row_ok (cols_of g) (new_row g)"
  by (simp add: new_row_def row_ok_new)

lemma grid_ok_rows:
  "grid_ok g \<Longrightarrow> length rs = rows_of g \<Longrightarrow> list_all (row_ok (cols_of g)) rs \<Longrightarrow> grid_ok (g\<lparr> g_rows := rs \<rparr>)"
  by (simp add: grid_defs)

lemma lines_down_ok:
  assumes "grid_ok g" and "top_row < rows_of g"
  shows "\<exists>g'. lines_down top_row g = Some g' \<and> grid_ok g' \<and> g_size g' = g_size g"
proof -
  note f = grid_ok_frame [OF assms(1)]
  obtain ys zs where ys: "vec_remove (g_scroll_bottom g) (g_rows g) = Some ys" "vec_insert top_row (new_row g) ys = Some zs"
      "length zs = rows_of g" "list_all (row_ok (cols_of g)) zs"
    using rows_ok_remove_insert [OF f(10) grid_ok_new_row [OF assms(1)], of "g_scroll_bottom g" top_row] f assms(2)
    by auto
  let ?zs = "zs[g_scroll_bottom g := row_wrap False (zs ! g_scroll_bottom g)]"
  have "lines_down top_row g = Some (g\<lparr> g_rows := ?zs \<rparr>)"
    using ys f by (simp add: lines_down_def at_def)
  moreover have "row_ok (cols_of g) (row_wrap False (zs ! g_scroll_bottom g))"
    using ys(3,4) f(7) by (simp add: list_all_length)
  then have "grid_ok (g\<lparr> g_rows := ?zs \<rparr>)"
    using ys(3,4) by (intro grid_ok_rows [OF assms(1)]) (simp_all add: list_all_update)
  ultimately show ?thesis by simp
qed

lemma safe_lines_down [safe]: "safe (insert_lines n)" "safe (scroll_down n)"
  unfolding insert_lines_def scroll_down_def
  by (rule safe_loop, rule safeI, rule lines_down_ok; use grid_ok_frame in force)+

lemma delete_line_ok:
  assumes "grid_ok g" and "j < rows_of g"
  obtains ys zs where "vec_insert (g_scroll_bottom g + 1) (new_row g) (g_rows g) = Some ys"
    and "at ys j \<noteq> None" and "vec_remove j ys = Some zs" and "grid_ok (g\<lparr> g_rows := zs \<rparr>)"
  using rows_ok_insert_remove [OF grid_ok_frame(10) [OF assms(1)] grid_ok_new_row [OF assms(1)],
      of "g_scroll_bottom g + 1" j] grid_ok_frame [OF assms(1)] assms(2) grid_ok_rows [OF assms(1)]
  by auto

lemma safe_delete_lines [safe]: "safe (delete_lines n)"
proof (rule safeI)
  fix g
  assume ok: "grid_ok g"
  have step: "safe (\<lambda>g. do {
       rows1 \<leftarrow> vec_insert (g_scroll_bottom g + 1) (new_row g) (g_rows g);
       rows2 \<leftarrow> vec_remove (cursor_row g) rows1;
       Some (g\<lparr> g_rows := rows2 \<rparr>) })"
  proof (rule safeI)
    fix h
    assume h: "grid_ok h"
    obtain ys zs where "vec_insert (g_scroll_bottom h + 1) (new_row h) (g_rows h) = Some ys"
        "vec_remove (cursor_row h) ys = Some zs" "grid_ok (h\<lparr> g_rows := zs \<rparr>)"
      by (rule delete_line_ok [OF h grid_ok_frame(5) [OF h]])
    then show "\<exists>g'. (do { rows1 \<leftarrow> vec_insert (g_scroll_bottom h + 1) (new_row h) (g_rows h);
       rows2 \<leftarrow> vec_remove (cursor_row h) rows1; Some (h\<lparr> g_rows := rows2 \<rparr>) }) = Some g'
       \<and> grid_ok g' \<and> g_size g' = g_size h" by auto
  qed
  show "\<exists>g'. delete_lines n g = Some g' \<and> grid_ok g' \<and> g_size g' = g_size g"
    unfolding delete_lines_def by (rule safe_loop [OF step, unfolded safe_def, rule_format, OF ok])
qed

text \<open>Without a scrollback buffer the removed row is dropped; the cursor does not move.\<close>

lemma scroll_up_step:
  assumes "grid_ok g"
  shows "\<exists>rs. (do {
       rows1 \<leftarrow> vec_insert (g_scroll_bottom g + 1) (new_row g) (g_rows g);
       removed \<leftarrow> at rows1 (g_scroll_top g);
       rows2 \<leftarrow> vec_remove (g_scroll_top g) rows1;
       Some (keep_scrollback removed (g\<lparr> g_rows := rows2 \<rparr>)) }) = Some (g\<lparr> g_rows := rs \<rparr>)
     \<and> grid_ok (g\<lparr> g_rows := rs \<rparr>)"
proof -
  have t: "g_scroll_top g < rows_of g" using grid_ok_frame(7,8) [OF assms] by simp
  obtain ys zs where ys: "vec_insert (g_scroll_bottom g + 1) (new_row g) (g_rows g) = Some ys"
      "at ys (g_scroll_top g) \<noteq> None" "vec_remove (g_scroll_top g) ys = Some zs" "grid_ok (g\<lparr> g_rows := zs \<rparr>)"
    by (rule delete_line_ok [OF assms t])
  then have "g_scrollback_len g = 0" using assms by (simp add: grid_defs)
  with ys show ?thesis by (auto simp: keep_scrollback_def)
qed

lemma scroll_up_ok:
  assumes "grid_ok g"
  obtains rs where "scroll_up n g = Some (g\<lparr> g_rows := rs \<rparr>)" and "grid_ok (g\<lparr> g_rows := rs \<rparr>)"
proof -
  obtain g' where "scroll_up n g = Some g'" "\<exists>rs. g' = g\<lparr> g_rows := rs \<rparr> \<and> grid_ok g'"
    unfolding scroll_up_def
  proof (rule fold_option_ok [where P = "\<lambda>h. \<exists>rs. h = g\<lparr> g_rows := rs \<rparr> \<and> grid_ok h"])
    have "g = g\<lparr> g_rows := g_rows g \<rparr>" by simp
    with assms show "\<exists>rs. g = g\<lparr> g_rows := rs \<rparr> \<and> grid_ok g" by blast
  next
    fix x t
    assume "\<exists>rs. t = g\<lparr> g_rows := rs \<rparr> \<and> grid_ok t"
    then obtain rs where t: "t = g\<lparr> g_rows := rs \<rparr>" "grid_ok t" by blast
    obtain ss where ss: "(do {
       rows1 \<leftarrow> vec_insert (g_scroll_bottom t + 1) (new_row t) (g_rows t);
       removed \<leftarrow> at rows1 (g_scroll_top t);
       rows2 \<leftarrow> vec_remove (g_scroll_top t) rows1;
       Some (keep_scrollback removed (t\<lparr> g_rows := rows2 \<rparr>)) }) = Some (t\<lparr> g_rows := ss \<rparr>)"
        "grid_ok (t\<lparr> g_rows := ss \<rparr>)"
      using scroll_up_step [OF t(2)] by blast
    have "t\<lparr> g_rows := ss \<rparr> = g\<lparr> g_rows := ss \<rparr>" by (simp add: t(1))
    with ss show "\<exists>u. (do {
       rows1 \<leftarrow> vec_insert (g_scroll_bottom t + 1) (new_row t) (g_rows t);
       removed \<leftarrow> at rows1 (g_scroll_top t);
       rows2 \<leftarrow> vec_remove (g_scroll_top t) rows1;
       Some (keep_scrollback removed (t\<lparr> g_rows := rows2 \<rparr>)) }) = Some u
       \<and> (\<exists>rs. u = g\<lparr> g_rows := rs \<rparr> \<and> grid_ok u)" by blast
  qed blast
  then show thesis using that by blast
qed

lemma safe_scroll_up [safe]: "safe (scroll_up n)"
  by (rule safeI) (metis scroll_up_ok Grid.select_convs(1) Grid.surjective Grid.update_convs(4))

lemma row_inc_scroll_ok:
  assumes "grid_ok g"
  obtains lines g' where "row_inc_scroll 1 g = Some (lines, g')" and "grid_ok g'" and "g_size g' = g_size g"
    and "cursor_col g' = cursor_col g" and "lines = 0 \<or> lines = 1 \<and> cursor_row g = g_scroll_bottom g"
proof -
  note f = grid_ok_frame [OF assms]
  let ?inside = "in_scroll_region g"
  obtain lines g1 where c: "row_clamp_bottom ?inside (set_row (saturating_add16 (cursor_row g) 1) g) = (lines, g1)"
    by (cases "row_clamp_bottom ?inside (set_row (saturating_add16 (cursor_row g) 1) g)")
  have ok1: "grid_ok g1" "g_size g1 = g_size g"
    using row_clamp_bottom_ok [OF assms, of ?inside "saturating_add16 (cursor_row g) 1"] c by simp_all
  have col: "cursor_col g1 = cursor_col g"
    using c by (auto simp: row_clamp_bottom_def Let_def split: if_splits)
  have lines: "?inside \<Longrightarrow> lines = 0 \<or> lines = 1 \<and> cursor_row g = g_scroll_bottom g"
    using c f by (auto simp: row_clamp_bottom_def Let_def in_scroll_region_def saturating_add16_def split: if_splits)
  show thesis
  proof (cases ?inside)
    case True
    obtain rs where "scroll_up lines g1 = Some (g1\<lparr> g_rows := rs \<rparr>)" "grid_ok (g1\<lparr> g_rows := rs \<rparr>)"
      by (rule scroll_up_ok [OF ok1(1)])
    then show thesis
      using that [of lines "g1\<lparr> g_rows := rs \<rparr>"] True c ok1(2) col lines by (simp add: row_inc_scroll_def)
  next
    case False
    then show thesis using that [of 0 g1] c ok1 col by (simp add: row_inc_scroll_def)
  qed
qed

lemma safe_row_dec_scroll [safe]: "safe (row_dec_scroll n)"
proof (rule safeI)
  fix g
  assume ok: "grid_ok g"
  let ?r = "saturating_sub16 (cursor_row g) n"
  obtain lines g1 where c: "row_clamp_top (in_scroll_region g) (set_row ?r g) = (lines, g1)"
    by (cases "row_clamp_top (in_scroll_region g) (set_row ?r g)")
  have "?r < rows_of g" using grid_ok_frame(5) [OF ok] by (simp add: saturating_sub16_def)
  from row_clamp_top_ok [OF ok this, of "in_scroll_region g"] c
  have "grid_ok g1" "g_size g1 = g_size g" by simp_all
  with safeE [OF safe_lines_down(2) \<open>grid_ok g1\<close>]
  show "\<exists>g'. row_dec_scroll n g = Some g' \<and> grid_ok g' \<and> g_size g' = g_size g"
    unfolding row_dec_scroll_def Let_def c by (metis prod.case)
qed

lemma safe_row_inc_scroll [safe]: "safe (\<lambda>g. map_option snd (row_inc_scroll 1 g))"
  by (rule safeI) (use row_inc_scroll_ok in \<open>metis option.simps(9) snd_conv\<close>)

text \<open>Wrapping at the end of a row. On a grid of one row the row before the cursor does not exist.\<close>

lemma col_wrap_ok:
  assumes "grid_ok g" and "2 \<le> rows_of g" and "width \<le> cols_of g"
  obtains g' where "col_wrap width wrap g = Some g'" and "grid_ok g'" and "g_size g' = g_size g"
    and "cursor_col g' + width \<le> cols_of g"
proof (cases "cursor_col g > cols_of g - width")
  case True
  note f = grid_ok_frame [OF assms(1)]
  have ok0: "grid_ok (set_col 0 g)" by (rule grid_ok_set_col [OF assms(1)]) simp
  obtain lines g1 where g1: "row_inc_scroll 1 (set_col 0 g) = Some (lines, g1)" "grid_ok g1" "g_size g1 = g_size g"
      "cursor_col g1 = 0" "lines = 0 \<or> lines = 1 \<and> cursor_row g = g_scroll_bottom g"
    using row_inc_scroll_ok [OF ok0] by auto
  have "1 \<le> g_scroll_bottom g" using assms(1,2) by (simp add: grid_defs)
  then have prev: "sub16 (cursor_row g) lines < rows_of g1" using g1(3,5) f by auto
  let ?f = "\<lambda>r. Some (row_wrap (wrap \<and> add16 (sub16 (cursor_row g) lines) 1 = cursor_row g1) r)"
  obtain r' where r': "with_row (sub16 (cursor_row g) lines) ?f g1 =
        Some (g1\<lparr> g_rows := (g_rows g1)[sub16 (cursor_row g) lines := r'] \<rparr>)"
      "grid_ok (g1\<lparr> g_rows := (g_rows g1)[sub16 (cursor_row g) lines := r'] \<rparr>)"
    by (rule with_row_ok [OF g1(2) prev, of ?f]) auto
  have "col_wrap width wrap g = Some (g1\<lparr> g_rows := (g_rows g1)[sub16 (cursor_row g) lines := r'] \<rparr>)"
    using True assms(3) g1(1) r'(1) by (simp add: col_wrap_def)
  then show thesis using that r'(2) g1(3,4) assms(3) by simp
next
  case False
  then show thesis using that [of g] assms by (simp add: col_wrap_def)
qed

section \<open>Resizing\<close>

text \<open>A new width cuts a wide character of the row in two.\<close>

definition splits_wide :: "nat \<Rightarrow> Row \<Rightarrow> bool"
  where "splits_wide n r \<longleftrightarrow> n < length (row_cells r) \<and> is_wide (row_cells r ! (n - 1))"

lemma row_resize_ok:
  assumes "row_ok m r" and "0 < n" and "\<not> splits_wide n r"
  shows "row_ok n (row_resize n Cell_new r)"
proof (cases "m \<le> n")
  case True
  then show ?thesis by (rule row_resize_grow [OF assms(1)])
next
  case False
  note ok = row_okD [OF assms(1)]
  have last: "halves (row_cells r) (n - 1) \<noteq> LeftHalf"
    using False assms(2,3) ok(1) by (simp add: splits_wide_def halves_def)
  have "halves (take n (row_cells r)) =
      (\<lambda>j. if j < n \<and> \<not> (Suc j = n \<and> halves (row_cells r) j = LeftHalf) then halves (row_cells r) j else Plain)"
    using False last ok(1) by (auto simp: halves_def fun_eq_iff)
  with paired_truncate [OF ok(3) assms(2)] have "paired (halves (take n (row_cells r)))" by simp
  with ok False show ?thesis
    by (intro row_okI) (simp_all add: row_resize_def list_all_take_drop)
qed

definition size_ok :: "Size \<Rightarrow> bool"
  where "size_ok s \<longleftrightarrow> 1 \<le> size_rows s \<and> size_rows s < 65535 \<and> 1 \<le> size_cols s \<and> size_cols s < 65535"

text \<open>The size, the scroll region and the scrollback of a well-formed grid, with the cursor anywhere.\<close>

definition region_ok :: "Grid \<Rightarrow> bool"
  where "region_ok g \<longleftrightarrow>
     size_ok (g_size g)
     \<and> g_scroll_top g \<le> g_scroll_bottom g \<and> g_scroll_bottom g < rows_of g
     \<and> (rows_of g = 1 \<or> 1 \<le> g_scroll_bottom g)
     \<and> g_scrollback g = [] \<and> g_scrollback_len g = 0 \<and> g_scrollback_offset g = 0"

lemma frame_ok_clamp_saved_pos:
  assumes "region_ok g" and "cursor_row g < rows_of g" and "cursor_col g < cols_of g"
  shows "frame_ok (clamp_saved_pos g)" and "g_rows (clamp_saved_pos g) = g_rows g"
    and "g_size (clamp_saved_pos g) = g_size g" and "g_pos (clamp_saved_pos g) = g_pos g"
  using assms by (auto simp: clamp_saved_pos_def frame_ok_def region_ok_def size_ok_def Let_def)

lemma region_ok_clamped:
  assumes "region_ok g"
  defines "h \<equiv> col_clamp (snd (row_clamp_bottom False g))"
  shows "region_ok h" and "cursor_row h < rows_of h" and "cursor_col h < cols_of h"
    and "g_rows h = g_rows g" and "g_size h = g_size g"
    and "cursor_row h = min (cursor_row g) (rows_of g - 1)" and "cursor_col h = min (cursor_col g) (cols_of g - 1)"
  using assms
  by (auto simp: col_clamp_def row_clamp_bottom_def Let_def region_ok_def size_ok_def set_row_def set_col_def)

lemma grid_set_size_frame:
  assumes "frame_ok g" and "size_ok s"
  shows "frame_ok (grid_set_size s g)" and "g_size (grid_set_size s g) = s"
    and "g_rows (grid_set_size s g) =
     take (size_rows s) (map (\<lambda>r. row_resize (size_cols s) Cell_new
        (if size_cols s \<noteq> cols_of g then row_wrap False r else r)) (g_rows g))
     @ replicate (size_rows s - length (g_rows g)) (Row_new (size_cols s))"
    and "cursor_row (grid_set_size s g) = min (cursor_row g) (size_rows s - 1)"
    and "cursor_col (grid_set_size s g) = min (cursor_col g) (size_cols s - 1)"
proof -
  define g1 where "g1 = (if size_cols s \<noteq> cols_of g then g\<lparr> g_rows := map (row_wrap False) (g_rows g) \<rparr> else g)"
  define g2 where "g2 = (if g_scroll_bottom g1 = sub16 (rows_of g1) 1
      then g1\<lparr> g_scroll_bottom := sub16 (size_rows s) 1 \<rparr> else g1)"
  define g3 where "g3 = g2\<lparr> g_size := s, g_rows := map (row_resize (size_cols s) Cell_new) (g_rows g2) \<rparr>"
  define g4 where "g4 = g3\<lparr> g_rows := take (size_rows s) (g_rows g3)
      @ replicate (size_rows s - length (g_rows g3)) (new_row g3) \<rparr>"
  define g5 where "g5 = (if g_scroll_bottom g4 \<ge> size_rows s
      then g4\<lparr> g_scroll_bottom := sub16 (size_rows s) 1 \<rparr> else g4)"
  define g6 where "g6 = (if g_scroll_bottom g5 < g_scroll_top g5 then g5\<lparr> g_scroll_top := 0 \<rparr> else g5)"
  have s: "1 \<le> size_rows s" "size_rows s < 65535" using assms(2) by (simp_all add: size_ok_def)
  have same: "g_scrollback g4 = []" "g_scrollback_len g4 = 0" "g_scrollback_offset g4 = 0" "g_size g4 = s"
    using assms(1) by (simp_all add: g4_def g3_def g2_def g1_def frame_ok_def)
  have "g_scroll_bottom g4 = (if g_scroll_bottom g = rows_of g - 1 then size_rows s - 1 else g_scroll_bottom g)"
    using assms(1) s by (simp add: g4_def g3_def g2_def g1_def frame_ok_def)
  moreover have "rows_of g = 1 \<or> 1 \<le> g_scroll_bottom g" "g_scroll_bottom g < rows_of g"
    using assms(1) by (simp_all add: frame_ok_def)
  ultimately have "size_rows s = 1 \<or> 1 \<le> g_scroll_bottom g4" using s(1) by (auto split: if_splits)
  then have "g_scroll_bottom g5 < size_rows s" "size_rows s = 1 \<or> 1 \<le> g_scroll_bottom g5"
    using s by (auto simp: g5_def)
  then have g6: "region_ok g6" using same s assms(2) by (auto simp: region_ok_def g6_def g5_def)
  have eq: "grid_set_size s g = clamp_saved_pos (col_clamp (snd (row_clamp_bottom False g6)))"
    by (simp only: grid_set_size_def Let_def g6_def g5_def g4_def g3_def g2_def g1_def row_clamp_top_def
        simp_thms if_False snd_conv)
  note c = region_ok_clamped [OF g6] and d = frame_ok_clamp_saved_pos [OF region_ok_clamped(1-3) [OF g6]]
  show "frame_ok (grid_set_size s g)" using d(1) by (simp add: eq)
  have "g_size g6 = s" using same by (simp add: g6_def g5_def)
  with c(5) d(3) show "g_size (grid_set_size s g) = s" by (simp add: eq)
  have "g_pos g6 = g_pos g" by (simp add: g6_def g5_def g4_def g3_def g2_def g1_def)
  then show "cursor_row (grid_set_size s g) = min (cursor_row g) (size_rows s - 1)"
    "cursor_col (grid_set_size s g) = min (cursor_col g) (size_cols s - 1)"
    using c(6,7) d(4) \<open>g_size g6 = s\<close> by (simp_all add: eq)
  have "g_rows g6 = g_rows g4" by (simp add: g6_def g5_def)
  then show "g_rows (grid_set_size s g) = take (size_rows s) (map (\<lambda>r. row_resize (size_cols s) Cell_new
        (if size_cols s \<noteq> cols_of g then row_wrap False r else r)) (g_rows g))
     @ replicate (size_rows s - length (g_rows g)) (Row_new (size_cols s))"
    using c(4) d(2) by (simp add: eq g4_def g3_def g2_def g1_def new_row_def comp_def)
qed

lemma grid_set_size_ok:
  assumes "grid_ok g \<or> grid_unallocated g" and "size_ok s"
    and "\<And>r. r \<in> set (g_rows g) \<Longrightarrow> \<not> splits_wide (size_cols s) r"
  shows "grid_ok (grid_set_size s g)"
proof -
  have g: "frame_ok g" using assms(1) by (auto simp: grid_ok_def grid_unallocated_def)
  note frame = grid_set_size_frame [OF g assms(2)]
  have "row_ok (size_cols s) (row_resize (size_cols s) Cell_new
      (if size_cols s \<noteq> cols_of g then row_wrap False r else r))" if "r \<in> set (g_rows g)" for r
  proof (rule row_resize_ok)
    have "row_ok (cols_of g) r"
      using assms(1) that by (auto simp: grid_unallocated_def grid_defs list_all_iff)
    then show "row_ok (cols_of g) (if size_cols s \<noteq> cols_of g then row_wrap False r else r)" by simp
    show "0 < size_cols s" using assms(2) by (simp add: size_ok_def)
    show "\<not> splits_wide (size_cols s) (if size_cols s \<noteq> cols_of g then row_wrap False r else r)"
      using assms(3) [OF that] by (auto simp: splits_wide_def row_wrap_def)
  qed
  then have "list_all (row_ok (size_cols s)) (g_rows (grid_set_size s g))"
    unfolding frame(3) by (auto simp: list_all_iff row_ok_new dest!: in_set_takeD)
  then have "rows_ok (grid_set_size s g)"
    by (simp add: rows_ok_def frame(2,3))
  with frame(1) show ?thesis by (simp add: grid_ok_def)
qed

end
