(* ===== verification/Screen.thy ===== *)
theory Screen
  imports Grid
begin

unbundle bit_operations_syntax

text \<open>
  The screen of \<open>src/vt100/screen.rs\<close>: the primary and the alternate grid, the current attributes and
  the modes, with the operation behind each control function. A panic is \<open>None\<close>; an operation that
  takes the callback \<open>unhandled\<close> returns how often it calls it.

  The invariant \<open>screen_ok\<close> is the one the comments of the source rely on. Every operation keeps it
  and does not panic on a screen of at least two rows and two columns (the condition is needed for
  printing only, see \<open>one_row_wrap\<close> and \<open>one_column_wide\<close> of \<open>Perform\<close>).
\<close>

section \<open>State\<close>

abbreviation (input) MODE_APPLICATION_KEYPAD :: u8 where "MODE_APPLICATION_KEYPAD \<equiv> 0x01"
abbreviation (input) MODE_APPLICATION_CURSOR :: u8 where "MODE_APPLICATION_CURSOR \<equiv> 0x02"
abbreviation (input) MODE_HIDE_CURSOR :: u8 where "MODE_HIDE_CURSOR \<equiv> 0x04"
abbreviation (input) MODE_ALTERNATE_SCREEN :: u8 where "MODE_ALTERNATE_SCREEN \<equiv> 0x08"
abbreviation (input) MODE_BRACKETED_PASTE :: u8 where "MODE_BRACKETED_PASTE \<equiv> 0x10"
abbreviation (input) MODE_REVERSE_VIDEO :: u8 where "MODE_REVERSE_VIDEO \<equiv> 0x20"

record Screen =
  s_grid :: Grid
  s_alternate_grid :: Grid
  s_attrs :: Attrs
  s_saved_attrs :: Attrs
  s_modes :: u8
  s_mouse_protocol_mode :: MouseProtocolMode
  s_mouse_protocol_encoding :: MouseProtocolEncoding

definition Screen_new :: "Size \<Rightarrow> nat \<Rightarrow> Screen"
  where "Screen_new sz scrollback_len =
    \<lparr> s_grid = allocate_rows (Grid_new sz scrollback_len), s_alternate_grid = Grid_new sz 0,
      s_attrs = Attrs_default, s_saved_attrs = Attrs_default, s_modes = 0,
      s_mouse_protocol_mode = NoMouse, s_mouse_protocol_encoding = DefaultEncoding \<rparr>"

definition screen_set_size :: "nat \<Rightarrow> nat \<Rightarrow> Screen \<Rightarrow> Screen"
  where "screen_set_size rows cols s =
    s\<lparr> s_grid := grid_set_size \<lparr> size_rows = rows, size_cols = cols \<rparr> (s_grid s),
       s_alternate_grid := grid_set_size \<lparr> size_rows = rows, size_cols = cols \<rparr> (s_alternate_grid s) \<rparr>"

definition mode :: "u8 \<Rightarrow> Screen \<Rightarrow> bool"
  where "mode m s \<longleftrightarrow> s_modes s AND m \<noteq> 0"

definition set_mode :: "u8 \<Rightarrow> Screen \<Rightarrow> Screen"
  where "set_mode m s = s\<lparr> s_modes := s_modes s OR m \<rparr>"

definition clear_mode :: "u8 \<Rightarrow> Screen \<Rightarrow> Screen"
  where "clear_mode m s = s\<lparr> s_modes := s_modes s AND NOT m \<rparr>"

definition screen_grid :: "Screen \<Rightarrow> Grid"
  where "screen_grid s = (if mode MODE_ALTERNATE_SCREEN s then s_alternate_grid s else s_grid s)"

text \<open>What a caller does with \<open>grid_mut()\<close>, without and with a possible panic.\<close>

definition on_grid :: "(Grid \<Rightarrow> Grid) \<Rightarrow> Screen \<Rightarrow> Screen"
  where "on_grid f s =
    (if mode MODE_ALTERNATE_SCREEN s then s\<lparr> s_alternate_grid := f (s_alternate_grid s) \<rparr>
     else s\<lparr> s_grid := f (s_grid s) \<rparr>)"

definition try_grid :: "(Grid \<Rightarrow> Grid option) \<Rightarrow> Screen \<Rightarrow> Screen option"
  where "try_grid f s = do { g \<leftarrow> f (screen_grid s); Some (on_grid (\<lambda>_. g) s) }"

definition screen_size :: "Screen \<Rightarrow> nat \<times> nat"
  where "screen_size s = (rows_of (screen_grid s), cols_of (screen_grid s))"

definition screen_cell :: "Screen \<Rightarrow> nat \<Rightarrow> nat \<Rightarrow> Cell option"
  where "screen_cell s r c = visible_cell (screen_grid s) \<lparr> pos_row = r, pos_col = c \<rparr>"

definition enter_alternate_grid :: "Screen \<Rightarrow> Screen"
  where "enter_alternate_grid s =
    (let s1 = set_mode MODE_ALTERNATE_SCREEN (on_grid (set_scrollback 0) s)
     in s1\<lparr> s_alternate_grid := allocate_rows (s_alternate_grid s1) \<rparr>)"

definition exit_alternate_grid :: "Screen \<Rightarrow> Screen"
  where "exit_alternate_grid s = clear_mode MODE_ALTERNATE_SCREEN s"

definition save_cursor :: "Screen \<Rightarrow> Screen"
  where "save_cursor s = (on_grid grid_save_cursor s)\<lparr> s_saved_attrs := s_attrs s \<rparr>"

definition restore_cursor :: "Screen \<Rightarrow> Screen"
  where "restore_cursor s = (on_grid grid_restore_cursor s)\<lparr> s_attrs := s_saved_attrs s \<rparr>"

definition set_mouse_mode :: "MouseProtocolMode \<Rightarrow> Screen \<Rightarrow> Screen"
  where "set_mouse_mode m s = s\<lparr> s_mouse_protocol_mode := m \<rparr>"

definition clear_mouse_mode :: "MouseProtocolMode \<Rightarrow> Screen \<Rightarrow> Screen"
  where "clear_mouse_mode m s = (if s_mouse_protocol_mode s = m then s\<lparr> s_mouse_protocol_mode := NoMouse \<rparr> else s)"

definition set_mouse_encoding :: "MouseProtocolEncoding \<Rightarrow> Screen \<Rightarrow> Screen"
  where "set_mouse_encoding e s = s\<lparr> s_mouse_protocol_encoding := e \<rparr>"

definition clear_mouse_encoding :: "MouseProtocolEncoding \<Rightarrow> Screen \<Rightarrow> Screen"
  where "clear_mouse_encoding e s =
    (if s_mouse_protocol_encoding s = e then s\<lparr> s_mouse_protocol_encoding := DefaultEncoding \<rparr> else s)"

section \<open>Printing\<close>

text \<open>The two branches of \<open>text\<close> after the wrap: a combining character joins the cell before the
  cursor, any other one is drawn at the cursor. The cursor and the size do not change in between.\<close>

definition append_before :: "scalar \<Rightarrow> Pos \<Rightarrow> Grid \<Rightarrow> Grid option"
  where "append_before ch pos g =
    do {
      prev_cell \<leftarrow> drawing_cell g pos;
      if is_wide_continuation prev_cell
      then with_cell (pos\<lparr> pos_col := sub16 (pos_col pos) 1 \<rparr>) (cell_append ch) g
      else with_cell pos (cell_append ch) g
    }"

definition combine_character :: "scalar \<Rightarrow> Grid \<Rightarrow> Grid option"
  where "combine_character ch g =
    (if cursor_col g > 0 then append_before ch \<lparr> pos_row = cursor_row g, pos_col = sub16 (cursor_col g) 1 \<rparr> g
     else if cursor_row g > 0 then
       do {
         prev_row \<leftarrow> drawing_row g (sub16 (cursor_row g) 1);
         if row_wrapped prev_row
         then append_before ch \<lparr> pos_row = sub16 (cursor_row g) 1, pos_col = sub16 (cols_of g) 1 \<rparr> g
         else Some g
       }
     else Some g)"

definition second_half :: "Attrs \<Rightarrow> Grid \<Rightarrow> Grid option"
  where "second_half a g =
    do {
      let pos = g_pos g;
      cell \<leftarrow> drawing_cell g pos;
      g1 \<leftarrow>
        (if is_wide cell then
           do {
             let next_next_pos = pos\<lparr> pos_col := add16 (pos_col pos) 1 \<rparr>;
             g1 \<leftarrow> with_cell next_next_pos (\<lambda>c. Some (cell_clear a c)) g;
             if pos_col next_next_pos = sub16 (cols_of g) 1
             then with_row (pos_row pos) (\<lambda>r. Some (row_wrap False r)) g1 else Some g1
           }
         else Some g);
      g2 \<leftarrow> with_cell pos (\<lambda>c. Some (set_wide_continuation True (cell_clear Attrs_default c))) g1;
      Some (col_inc 1 g2)
    }"

definition draw_character :: "width_table \<Rightarrow> scalar \<Rightarrow> nat \<Rightarrow> Attrs \<Rightarrow> Grid \<Rightarrow> Grid option"
  where "draw_character table ch width a g =
    do {
      let pos = g_pos g;
      cell \<leftarrow> drawing_cell g pos;
      g1 \<leftarrow> (if is_wide_continuation cell
             then with_cell (pos\<lparr> pos_col := sub16 (pos_col pos) 1 \<rparr>) (\<lambda>c. Some (cell_clear a c)) g else Some g);
      cell \<leftarrow> drawing_cell g1 pos;
      g2 \<leftarrow> (if is_wide cell
             then with_cell (pos\<lparr> pos_col := add16 (pos_col pos) 1 \<rparr>) (cell_set table 0x20 a) g1 else Some g1);
      g3 \<leftarrow> with_cell pos (cell_set table ch a) g2;
      let g4 = col_inc 1 g3;
      if width > 1 then second_half a g4 else Some g4
    }"

definition screen_text :: "width_table \<Rightarrow> scalar \<Rightarrow> Screen \<Rightarrow> Screen option"
  where "screen_text table ch s =
    (let g = screen_grid s; a = s_attrs s in
     if char_width table ch = None \<and> ch < 256 then Some s
     else
       do {
         width \<leftarrow> (let w = (case char_width table ch of None \<Rightarrow> 1 | Some w \<Rightarrow> w) in if w < 65536 then Some w else None);
         wrap \<leftarrow>
           (if cursor_col g > sub16 (cols_of g) width
            then map_option (\<lambda>c. has_contents c \<or> is_wide_continuation c)
                   (drawing_cell g \<lparr> pos_row = cursor_row g, pos_col = sub16 (cols_of g) 1 \<rparr>)
            else Some False);
         s1 \<leftarrow> try_grid (col_wrap width wrap) s;
         if width = 0 then try_grid (combine_character ch) s1
         else try_grid (draw_character table ch width a) s1
       })"

section \<open>Control codes\<close>

definition bs :: "Screen \<Rightarrow> Screen" where "bs = on_grid (col_dec 1)"
definition tab :: "Screen \<Rightarrow> Screen" where "tab = on_grid col_tab"
definition lf :: "Screen \<Rightarrow> Screen option" where "lf = try_grid (\<lambda>g. map_option snd (row_inc_scroll 1 g))"
definition vt :: "Screen \<Rightarrow> Screen option" where "vt = lf"
definition ff :: "Screen \<Rightarrow> Screen option" where "ff = lf"
definition cr :: "Screen \<Rightarrow> Screen" where "cr = on_grid (col_set 0)"

section \<open>Escape codes\<close>

definition decsc :: "Screen \<Rightarrow> Screen" where "decsc = save_cursor"
definition decrc :: "Screen \<Rightarrow> Screen" where "decrc = restore_cursor"
definition deckpam :: "Screen \<Rightarrow> Screen" where "deckpam = set_mode MODE_APPLICATION_KEYPAD"
definition deckpnm :: "Screen \<Rightarrow> Screen" where "deckpnm = clear_mode MODE_APPLICATION_KEYPAD"
definition ri :: "Screen \<Rightarrow> Screen option" where "ri = try_grid (row_dec_scroll 1)"
definition ris :: "Screen \<Rightarrow> Screen" where "ris s = Screen_new (g_size (s_grid s)) (g_scrollback_len (s_grid s))"

section \<open>CSI codes\<close>

definition ich :: "nat \<Rightarrow> Screen \<Rightarrow> Screen option" where "ich count = try_grid (insert_cells count)"
definition cuu :: "nat \<Rightarrow> Screen \<Rightarrow> Screen" where "cuu n = on_grid (row_dec_clamp n)"
definition cud :: "nat \<Rightarrow> Screen \<Rightarrow> Screen" where "cud n = on_grid (row_inc_clamp n)"
definition cuf :: "nat \<Rightarrow> Screen \<Rightarrow> Screen" where "cuf n = on_grid (col_inc_clamp n)"
definition cub :: "nat \<Rightarrow> Screen \<Rightarrow> Screen" where "cub n = on_grid (col_dec n)"
definition cnl :: "nat \<Rightarrow> Screen \<Rightarrow> Screen" where "cnl n s = on_grid (row_inc_clamp n) (on_grid (col_set 0) s)"
definition cpl :: "nat \<Rightarrow> Screen \<Rightarrow> Screen" where "cpl n s = on_grid (row_dec_clamp n) (on_grid (col_set 0) s)"
definition cha :: "nat \<Rightarrow> Screen \<Rightarrow> Screen" where "cha col = on_grid (col_set (sub16 col 1))"

definition cup :: "nat \<times> nat \<Rightarrow> Screen \<Rightarrow> Screen"
  where "cup p = on_grid (set_pos \<lparr> pos_row = sub16 (fst p) 1, pos_col = sub16 (snd p) 1 \<rparr>)"

definition ed :: "nat \<Rightarrow> Screen \<Rightarrow> (Screen \<times> nat) option"
  where "ed m s =
    (if m = 0 then map_option (\<lambda>s. (s, 0)) (try_grid (erase_all_forward (s_attrs s)) s)
     else if m = 1 then map_option (\<lambda>s. (s, 0)) (try_grid (erase_all_backward (s_attrs s)) s)
     else if m = 2 then map_option (\<lambda>s. (s, 0)) (try_grid (erase_all (s_attrs s)) s)
     else Some (s, 1))"

definition decsed :: "nat \<Rightarrow> Screen \<Rightarrow> (Screen \<times> nat) option" where "decsed = ed"

definition el :: "nat \<Rightarrow> Screen \<Rightarrow> (Screen \<times> nat) option"
  where "el m s =
    (if m = 0 then map_option (\<lambda>s. (s, 0)) (try_grid (erase_row_forward (s_attrs s)) s)
     else if m = 1 then map_option (\<lambda>s. (s, 0)) (try_grid (erase_row_backward (s_attrs s)) s)
     else if m = 2 then map_option (\<lambda>s. (s, 0)) (try_grid (erase_row (s_attrs s)) s)
     else Some (s, 1))"

definition decsel :: "nat \<Rightarrow> Screen \<Rightarrow> (Screen \<times> nat) option" where "decsel = el"

definition il :: "nat \<Rightarrow> Screen \<Rightarrow> Screen option" where "il count = try_grid (insert_lines count)"
definition dl :: "nat \<Rightarrow> Screen \<Rightarrow> Screen option" where "dl count = try_grid (delete_lines count)"
definition dch :: "nat \<Rightarrow> Screen \<Rightarrow> Screen option" where "dch count = try_grid (delete_cells count)"
definition su :: "nat \<Rightarrow> Screen \<Rightarrow> Screen option" where "su count = try_grid (scroll_up count)"
definition sd :: "nat \<Rightarrow> Screen \<Rightarrow> Screen option" where "sd count = try_grid (scroll_down count)"
definition ech :: "nat \<Rightarrow> Screen \<Rightarrow> Screen option" where "ech count s = try_grid (erase_cells count (s_attrs s)) s"
definition vpa :: "nat \<Rightarrow> Screen \<Rightarrow> Screen" where "vpa r = on_grid (row_set (sub16 r 1))"

text \<open>One parameter of \<open>decset\<close> and \<open>decrst\<close>; \<open>None\<close> is the branch that calls \<open>unhandled\<close>.\<close>

definition decset_param :: "nat list \<Rightarrow> Screen \<Rightarrow> Screen option"
  where "decset_param p s =
    (if p = [1] then Some (set_mode MODE_APPLICATION_CURSOR s)
     else if p = [5] then Some (set_mode MODE_REVERSE_VIDEO s)
     else if p = [6] then Some (on_grid (set_origin_mode True) s)
     else if p = [9] then Some (set_mouse_mode Press s)
     else if p = [25] then Some (clear_mode MODE_HIDE_CURSOR s)
     else if p = [47] then Some (enter_alternate_grid s)
     else if p = [1000] then Some (set_mouse_mode PressRelease s)
     else if p = [1002] then Some (set_mouse_mode ButtonMotion s)
     else if p = [1003] then Some (set_mouse_mode AnyMotion s)
     else if p = [1005] then Some (set_mouse_encoding Utf8Encoding s)
     else if p = [1006] then Some (set_mouse_encoding Sgr s)
     else if p = [1049] then
       (let s1 = decsc s; s2 = s1\<lparr> s_alternate_grid := grid_clear (s_alternate_grid s1) \<rparr>
        in Some (enter_alternate_grid s2))
     else if p = [2004] then Some (set_mode MODE_BRACKETED_PASTE s)
     else None)"

definition decrst_param :: "nat list \<Rightarrow> Screen \<Rightarrow> Screen option"
  where "decrst_param p s =
    (if p = [1] then Some (clear_mode MODE_APPLICATION_CURSOR s)
     else if p = [5] then Some (clear_mode MODE_REVERSE_VIDEO s)
     else if p = [6] then Some (on_grid (set_origin_mode False) s)
     else if p = [9] then Some (clear_mouse_mode Press s)
     else if p = [25] then Some (set_mode MODE_HIDE_CURSOR s)
     else if p = [47] then Some (exit_alternate_grid s)
     else if p = [1000] then Some (clear_mouse_mode PressRelease s)
     else if p = [1002] then Some (clear_mouse_mode ButtonMotion s)
     else if p = [1003] then Some (clear_mouse_mode AnyMotion s)
     else if p = [1005] then Some (clear_mouse_encoding Utf8Encoding s)
     else if p = [1006] then Some (clear_mouse_encoding Sgr s)
     else if p = [1049] then Some (decrc (exit_alternate_grid s))
     else if p = [2004] then Some (clear_mode MODE_BRACKETED_PASTE s)
     else None)"

definition each_param :: "(nat list \<Rightarrow> Screen \<Rightarrow> Screen option) \<Rightarrow> nat list list \<Rightarrow> Screen \<Rightarrow> Screen \<times> nat"
  where "each_param f params s =
    fold (\<lambda>p (s, n). case f p s of None \<Rightarrow> (s, n + 1) | Some s1 \<Rightarrow> (s1, n)) params (s, 0)"

definition decset :: "nat list list \<Rightarrow> Screen \<Rightarrow> Screen \<times> nat" where "decset = each_param decset_param"
definition decrst :: "nat list list \<Rightarrow> Screen \<Rightarrow> Screen \<times> nat" where "decrst = each_param decrst_param"

definition screen_sgr :: "nat list list \<Rightarrow> Screen \<Rightarrow> Screen \<times> nat"
  where "screen_sgr params s = (let (a, n) = sgr params (s_attrs s) in (s\<lparr> s_attrs := a \<rparr>, n))"

definition decstbm :: "nat \<times> nat \<Rightarrow> Screen \<Rightarrow> Screen"
  where "decstbm p = on_grid (set_scroll_region (sub16 (fst p) 1) (sub16 (snd p) 1))"

section \<open>Drawing into one row\<close>

text \<open>While a character is drawn the halves of wide characters in the row are not paired.
  \<open>drawing i H g\<close> says that row \<open>i\<close> has the halves \<open>H\<close> and that the rest of \<open>g\<close> is well-formed.\<close>

definition drawing :: "nat \<Rightarrow> (nat \<Rightarrow> half) \<Rightarrow> Grid \<Rightarrow> bool"
  where "drawing i H g \<longleftrightarrow>
    frame_ok g \<and> length (g_rows g) = rows_of g \<and> i < rows_of g
    \<and> (\<forall>j. j < rows_of g \<longrightarrow> j \<noteq> i \<longrightarrow> row_ok (cols_of g) (g_rows g ! j))
    \<and> length (row_cells (g_rows g ! i)) = cols_of g \<and> list_all cell_ok (row_cells (g_rows g ! i))
    \<and> halves (row_cells (g_rows g ! i)) = H"

lemma drawing_start:
  assumes "grid_ok g" and "i < rows_of g"
  obtains H where "drawing i H g" and "paired H"
  using assms by (auto simp: drawing_def grid_defs row_ok_def wide_ok_def list_all_length)

lemma drawing_end: "drawing i H g \<Longrightarrow> paired H \<Longrightarrow> grid_ok g"
  by (auto simp: drawing_def grid_ok_def rows_ok_def row_ok_def wide_ok_def list_all_length)

lemma drawing_outside: "drawing i H g \<Longrightarrow> H j \<noteq> Plain \<Longrightarrow> j < cols_of g"
  unfolding drawing_def by (metis halves_outside not_less)

lemma drawing_cell_at:
  assumes "drawing i H g" and "j < cols_of g"
  obtains c where "drawing_cell g \<lparr> pos_row = i, pos_col = j \<rparr> = Some c" and "cell_ok c" and "half_of c = H j"
  using assms
  by (auto simp: drawing_def drawing_cell_def drawing_row_def at_def row_get_def list_all_length halves_def)

lemma half_of_flags:
  "cell_ok c \<Longrightarrow> is_wide c \<longleftrightarrow> half_of c = LeftHalf"
  "cell_ok c \<Longrightarrow> is_wide_continuation c \<longleftrightarrow> half_of c = RightHalf"
  by (auto simp: half_of_def dest: cell_ok_flags)

lemma drawing_with_cell:
  assumes "drawing i H g" and "j < cols_of g"
    and "\<And>c. cell_ok c \<Longrightarrow> half_of c = H j \<Longrightarrow> \<exists>c'. f c = Some c' \<and> cell_ok c' \<and> half_of c' = k"
  obtains g' where "with_cell \<lparr> pos_row = i, pos_col = j \<rparr> f g = Some g'" and "drawing i (H(j := k)) g'"
    and "g_size g' = g_size g" and "g_pos g' = g_pos g"
proof -
  let ?r = "g_rows g ! i"
  have d: "i < length (g_rows g)" "j < length (row_cells ?r)" "cell_ok (row_cells ?r ! j)"
      "half_of (row_cells ?r ! j) = H j"
    using assms(1,2) by (auto simp: drawing_def list_all_length halves_def)
  obtain c' where c': "f (row_cells ?r ! j) = Some c'" "cell_ok c'" "half_of c' = k"
    using assms(3) [OF d(3,4)] by blast
  let ?g = "g\<lparr> g_rows := (g_rows g)[i := ?r\<lparr> row_cells := (row_cells ?r)[j := c'] \<rparr>] \<rparr>"
  have "with_cell \<lparr> pos_row = i, pos_col = j \<rparr> f g = Some ?g"
    using d c'(1) by (simp add: with_cell_def with_row_def drawing_row_def at_def row_get_def)
  moreover have "drawing i (H(j := k)) ?g"
    using assms(1) d c'(2,3)
    by (auto simp: drawing_def halves_update list_all_update frame_ok_def)
  ultimately show thesis using that by simp
qed

lemma drawing_with_row_wrap:
  assumes "drawing i H g"
  obtains g' where "with_row i (\<lambda>r. Some (row_wrap w r)) g = Some g'" and "drawing i H g'"
    and "g_size g' = g_size g" and "g_pos g' = g_pos g"
proof -
  let ?g = "g\<lparr> g_rows := (g_rows g)[i := row_wrap w (g_rows g ! i)] \<rparr>"
  have "with_row i (\<lambda>r. Some (row_wrap w r)) g = Some ?g"
    using assms by (simp add: drawing_def with_row_def drawing_row_def at_def)
  moreover have "drawing i H ?g"
    using assms by (auto simp: drawing_def frame_ok_def row_wrap_def)
  ultimately show thesis using that by simp
qed

lemma drawing_maybe_wrap:
  assumes "drawing i H g"
  obtains g' where "(if b then with_row i (\<lambda>r. Some (row_wrap w r)) g else Some g) = Some g'" and "drawing i H g'"
    and "g_size g' = g_size g" and "g_pos g' = g_pos g"
proof (cases b)
  case True
  then show thesis using that by (auto intro: drawing_with_row_wrap [OF assms, of w])
next
  case False
  then show thesis using that [of g] assms by simp
qed

lemma drawing_col_inc: "drawing i H g \<Longrightarrow> cursor_col g < cols_of g \<Longrightarrow> drawing i H (col_inc 1 g)"
  by (auto simp: drawing_def frame_ok_def col_inc_def set_col_def saturating_add16_def)

text \<open>The halves after the cell \<open>j\<close> and the other half of what stood there are overwritten.\<close>

definition overwritten :: "(nat \<Rightarrow> half) \<Rightarrow> nat \<Rightarrow> nat \<Rightarrow> half"
  where "overwritten H j =
    (case H j of RightHalf \<Rightarrow> H(j - 1 := Plain) | LeftHalf \<Rightarrow> H(Suc j := Plain) | Plain \<Rightarrow> H)(j := Plain)"

lemma paired_overwritten: "paired H \<Longrightarrow> paired (overwritten H j)"
proof (cases "H j")
  case Plain
  then have "overwritten H j = H" by (auto simp: overwritten_def)
  then show "paired H \<Longrightarrow> paired (overwritten H j)" by simp
next
  case LeftHalf
  then show "paired H \<Longrightarrow> paired (overwritten H j)"
    using paired_break [of H j] by (simp add: overwritten_def fun_upd_twist)
next
  case RightHalf
  assume "paired H"
  from paired_right [OF this RightHalf] obtain m where "j = Suc m" "H m = LeftHalf" by blast
  with RightHalf paired_break [OF \<open>paired H\<close>, of m] show "paired (overwritten H j)"
    by (simp add: overwritten_def)
qed

section \<open>Printing is safe\<close>

text \<open>Documented behaviour of \<open>unicode-width\<close>: widths are at most two and printable ASCII is narrow.\<close>

definition widths_ok :: "width_table \<Rightarrow> bool"
  where "widths_ok table \<longleftrightarrow> table_ok table \<and> (\<forall>c. 0x20 \<le> c \<and> c < 0x7f \<longrightarrow> table c = Some 1)"

lemma char_width_ascii: "widths_ok table \<Longrightarrow> 0x20 \<le> c \<Longrightarrow> c < 0x7f \<Longrightarrow> char_width table c = Some 1"
  by (simp add: char_width_def in_ranges_def wide_overrides_def narrow_overrides_def widths_ok_def)

lemma cell_set_half:
  assumes "cell_ok c" and "is_scalar ch" and "attrs_ok a"
  shows "\<exists>c'. cell_set table ch a c = Some c' \<and> cell_ok c'
    \<and> half_of c' = (if char_width table ch \<noteq> None \<and> the (char_width table ch) > 1 then LeftHalf else Plain)"
proof -
  obtain c' where "cell_set table ch a c = Some c'" "cell_holds c' [ch]"
      "is_wide c' \<longleftrightarrow> char_width table ch \<noteq> None \<and> the (char_width table ch) > 1" "\<not> is_wide_continuation c'"
    by (rule cell_set_ok [OF assms])
  then show ?thesis by (auto simp: cell_ok_def half_of_def)
qed

lemma draw_clear_before:
  assumes "drawing i H g" and "paired H" and "j < cols_of g" and "attrs_ok a" and "cols_of g < 65535"
  obtains c1 g1 where "drawing_cell g \<lparr> pos_row = i, pos_col = j \<rparr> = Some c1"
    and "(if is_wide_continuation c1
          then with_cell \<lparr> pos_row = i, pos_col = sub16 j 1 \<rparr> (\<lambda>c. Some (cell_clear a c)) g else Some g) = Some g1"
    and "drawing i (if H j = RightHalf then H(j - 1 := Plain) else H) g1"
    and "g_size g1 = g_size g" and "g_pos g1 = g_pos g"
proof -
  obtain c1 where c1: "drawing_cell g \<lparr> pos_row = i, pos_col = j \<rparr> = Some c1" "cell_ok c1" "half_of c1 = H j"
    by (rule drawing_cell_at [OF assms(1,3)])
  show thesis
  proof (cases "H j = RightHalf")
    case True
    then have "1 \<le> j" using assms(2) by (cases j) (auto simp: paired_def)
    then have j: "sub16 j 1 = j - 1" "j - 1 < cols_of g" using assms(3,5) by auto
    have "\<exists>c'. Some (cell_clear a c) = Some c' \<and> cell_ok c' \<and> half_of c' = Plain" if "cell_ok c" for c
      using that assms(4) by (simp add: half_of_def)
    then obtain g1 where "with_cell \<lparr> pos_row = i, pos_col = j - 1 \<rparr> (\<lambda>c. Some (cell_clear a c)) g = Some g1"
        "drawing i (H(j - 1 := Plain)) g1" "g_size g1 = g_size g" "g_pos g1 = g_pos g"
      by (rule drawing_with_cell [OF assms(1) j(2)])
    moreover have "is_wide_continuation c1" using True c1(2,3) by (simp only: half_of_flags)
    ultimately show thesis by (intro that [OF c1(1), of g1]) (simp_all only: True j(1) if_True simp_thms)
  next
    case False
    then have "\<not> is_wide_continuation c1" using c1(2,3) by (simp add: half_of_flags)
    with False show thesis by (intro that [OF c1(1), of g]) (simp_all only: assms(1) if_False simp_thms)
  qed
qed

lemma draw_clear_after:
  assumes "drawing i H g" and "H j = LeftHalf \<longrightarrow> H (Suc j) \<noteq> Plain" and "j < cols_of g" and "cols_of g < 65535"
    and "\<And>c. cell_ok c \<Longrightarrow> \<exists>c'. f c = Some c' \<and> cell_ok c' \<and> half_of c' = Plain"
  obtains c2 g2 where "drawing_cell g \<lparr> pos_row = i, pos_col = j \<rparr> = Some c2" and "is_wide c2 \<longleftrightarrow> H j = LeftHalf"
    and "(if is_wide c2 then with_cell \<lparr> pos_row = i, pos_col = add16 j 1 \<rparr> f g else Some g) = Some g2"
    and "drawing i (if H j = LeftHalf then H(Suc j := Plain) else H) g2"
    and "g_size g2 = g_size g" and "g_pos g2 = g_pos g"
proof -
  obtain c2 where c2: "drawing_cell g \<lparr> pos_row = i, pos_col = j \<rparr> = Some c2" "cell_ok c2" "half_of c2 = H j"
    by (rule drawing_cell_at [OF assms(1,3)])
  show thesis
  proof (cases "H j = LeftHalf")
    case True
    then have "Suc j < cols_of g" using assms(2) drawing_outside [OF assms(1), of "Suc j"] by simp
    then have j: "add16 j 1 = Suc j" "Suc j < cols_of g" using assms(4) by (auto simp: add16_def)
    obtain g2 where "with_cell \<lparr> pos_row = i, pos_col = Suc j \<rparr> f g = Some g2"
        "drawing i (H(Suc j := Plain)) g2" "g_size g2 = g_size g" "g_pos g2 = g_pos g"
      by (rule drawing_with_cell [OF assms(1) j(2) assms(5)])
    moreover have "is_wide c2" using True c2(2,3) by (simp only: half_of_flags)
    ultimately show thesis by (intro that [OF c2(1), of g2]) (simp_all only: True j(1) if_True simp_thms)
  next
    case False
    then have "\<not> is_wide c2" using c2(2,3) by (simp add: half_of_flags)
    with False show thesis by (intro that [OF c2(1), of g]) (simp_all only: assms(1) if_False simp_thms)
  qed
qed

lemma overwritten_steps:
  assumes "paired H" and "H1 = (if H j = RightHalf then H(j - 1 := Plain) else H)"
  shows "H1 j = H j" and "H1 j = LeftHalf \<longrightarrow> H1 (Suc j) \<noteq> Plain"
    and "(if H1 j = LeftHalf then H1(Suc j := Plain) else H1)(j := k) = (overwritten H j)(j := k)"
proof -
  show same: "H1 j = H j"
    using assms by (cases j) (auto simp: paired_def)
  show "H1 j = LeftHalf \<longrightarrow> H1 (Suc j) \<noteq> Plain"
    using assms same by (auto simp: paired_def)
  show "(if H1 j = LeftHalf then H1(Suc j := Plain) else H1)(j := k) = (overwritten H j)(j := k)"
    unfolding same assms(2) by (cases "H j") (simp_all add: overwritten_def)
qed

abbreviation half_drawn :: "width_table \<Rightarrow> scalar \<Rightarrow> half"
  where "half_drawn table ch \<equiv>
    (if char_width table ch \<noteq> None \<and> the (char_width table ch) > 1 then LeftHalf else Plain)"

lemma draw_first_half:
  assumes ok: "grid_ok g" and col: "cursor_col g < cols_of g" and ch: "is_scalar ch" "attrs_ok a" "widths_ok table"
  obtains g3 H where "draw_character table ch width a g = (if width > 1 then second_half a (col_inc 1 g3) else Some (col_inc 1 g3))"
    and "paired H" and "H (cursor_col g) = Plain"
    and "drawing (cursor_row g) (H(cursor_col g := half_drawn table ch)) g3"
    and "g_size g3 = g_size g" and "g_pos g3 = g_pos g"
proof -
  define i j where "i = cursor_row g" and "j = cursor_col g"
  have p: "g_pos g = \<lparr> pos_row = i, pos_col = j \<rparr>" by (simp add: i_def j_def)
  have cols: "cols_of g < 65535" by (rule grid_ok_frame(4) [OF ok])
  obtain H where H: "drawing i H g" "paired H" unfolding i_def by (rule drawing_start [OF ok grid_ok_frame(5) [OF ok]])
  define H1 where "H1 = (if H j = RightHalf then H(j - 1 := Plain) else H)"
  note over = overwritten_steps [OF H(2) H1_def]
  obtain c1 g1 where g1: "drawing_cell g \<lparr> pos_row = i, pos_col = j \<rparr> = Some c1"
      "(if is_wide_continuation c1
        then with_cell \<lparr> pos_row = i, pos_col = sub16 j 1 \<rparr> (\<lambda>c. Some (cell_clear a c)) g else Some g) = Some g1"
      "drawing i H1 g1" "g_size g1 = g_size g" "g_pos g1 = g_pos g"
    unfolding H1_def by (rule draw_clear_before [OF H col [folded j_def] ch(2) cols])
  have col1: "j < cols_of g1" "cols_of g1 < 65535" using col cols g1(4) by (simp_all add: j_def)
  have space: "\<exists>c'. cell_set table 0x20 a c = Some c' \<and> cell_ok c' \<and> half_of c' = Plain" if "cell_ok c" for c
    using cell_set_half [OF that, of "0x20" a table] ch(2) char_width_ascii [OF ch(3), of "0x20"]
    by (simp add: is_scalar_def)
  obtain c2 g2 where g2: "drawing_cell g1 \<lparr> pos_row = i, pos_col = j \<rparr> = Some c2"
      "(if is_wide c2 then with_cell \<lparr> pos_row = i, pos_col = add16 j 1 \<rparr> (cell_set table 0x20 a) g1 else Some g1) = Some g2"
      "drawing i (if H1 j = LeftHalf then H1(Suc j := Plain) else H1) g2" "g_size g2 = g_size g1" "g_pos g2 = g_pos g1"
    by (rule draw_clear_after [OF g1(3) over(2) col1 space])
  have col2: "j < cols_of g2" using col1 g2(4) by simp
  obtain g3 where g3: "with_cell \<lparr> pos_row = i, pos_col = j \<rparr> (cell_set table ch a) g2 = Some g3"
      "drawing i ((if H1 j = LeftHalf then H1(Suc j := Plain) else H1)(j := half_drawn table ch)) g3"
      "g_size g3 = g_size g2" "g_pos g3 = g_pos g2"
    by (rule drawing_with_cell [OF g2(3) col2 cell_set_half [OF _ ch(1,2)]])
  show thesis
  proof (rule that [of g3 "overwritten H j"])
    show "draw_character table ch width a g = (if width > 1 then second_half a (col_inc 1 g3) else Some (col_inc 1 g3))"
      unfolding draw_character_def Let_def p Pos.simps by (simp only: g1(1,2) g2(1,2) g3(1) bind.bind_lunit)
    show "paired (overwritten H j)" by (rule paired_overwritten [OF H(2)])
    show "overwritten H j (cursor_col g) = Plain" by (simp add: overwritten_def j_def)
    show "drawing (cursor_row g) ((overwritten H j)(cursor_col g := half_drawn table ch)) g3"
      using g3(2) unfolding over(3) by (simp add: i_def j_def)
    show "g_size g3 = g_size g" "g_pos g3 = g_pos g" using g1 g2 g3 by simp_all
  qed
qed

lemma paired_second_half:
  assumes "paired H" and "H j = Plain"
  shows "(H(j := LeftHalf)) (Suc j) = LeftHalf \<longrightarrow> (H(j := LeftHalf)) (Suc (Suc j)) \<noteq> Plain"
    and "paired ((if (H(j := LeftHalf)) (Suc j) = LeftHalf then H(j := LeftHalf, Suc (Suc j) := Plain)
      else H(j := LeftHalf))(Suc j := RightHalf))"
proof -
  show "(H(j := LeftHalf)) (Suc j) = LeftHalf \<longrightarrow> (H(j := LeftHalf)) (Suc (Suc j)) \<noteq> Plain"
    using assms(1) by (auto simp: paired_def)
  have "H (Suc j) \<noteq> RightHalf" using assms by (metis half.distinct(1) paired_def)
  then consider "H (Suc j) = LeftHalf" | "H (Suc j) = Plain" by (cases "H (Suc j)") auto
  then show "paired ((if (H(j := LeftHalf)) (Suc j) = LeftHalf then H(j := LeftHalf, Suc (Suc j) := Plain)
      else H(j := LeftHalf))(Suc j := RightHalf))"
  proof cases
    case 1
    from paired_join [OF paired_break [OF assms(1) 1], of j] assms(2)
    have "paired (H(Suc j := Plain, Suc (Suc j) := Plain, j := LeftHalf, Suc j := RightHalf))" by simp
    then show ?thesis using 1 by (simp add: fun_upd_twist)
  next
    case 2
    with paired_join [OF assms 2] show ?thesis by simp
  qed
qed

lemma drawing_size: "drawing i H g \<Longrightarrow> cols_of g < 65535" "drawing i H g \<Longrightarrow> i < rows_of g"
  by (simp_all add: drawing_def frame_ok_def)

lemma col_inc_simps [simp]:
  "g_size (col_inc n g) = g_size g" "cursor_row (col_inc n g) = cursor_row g" "g_rows (col_inc n g) = g_rows g"
  by (simp_all add: col_inc_def)

lemma col_inc_col: "cursor_col g < cols_of g \<Longrightarrow> cols_of g < 65535 \<Longrightarrow> cursor_col (col_inc 1 g) = Suc (cursor_col g)"
  by (simp add: col_inc_def saturating_add16_def)

lemma second_half_ok:
  assumes "drawing i (H(j := LeftHalf)) g" and "paired H" and "H j = Plain" and "attrs_ok a"
    and pos: "g_pos g = \<lparr> pos_row = i, pos_col = Suc j \<rparr>" and col: "Suc j < cols_of g"
  obtains g' where "second_half a g = Some g'" and "grid_ok g'" and "g_size g' = g_size g"
    and "cursor_row g' = i" and "cursor_col g' = Suc (Suc j)"
proof -
  note cols = drawing_size(1) [OF assms(1)]
  note p = paired_second_half [OF assms(2,3)]
  have clear: "\<exists>c'. Some (cell_clear a c) = Some c' \<and> cell_ok c' \<and> half_of c' = Plain" if "cell_ok c" for c
    using that assms(4) by (simp add: half_of_def)
  let ?K = "if (H(j := LeftHalf)) (Suc j) = LeftHalf then H(j := LeftHalf, Suc (Suc j) := Plain) else H(j := LeftHalf)"
  obtain c2 g1 where g1: "drawing_cell g \<lparr> pos_row = i, pos_col = Suc j \<rparr> = Some c2"
      "(if is_wide c2 then with_cell \<lparr> pos_row = i, pos_col = add16 (Suc j) 1 \<rparr> (\<lambda>c. Some (cell_clear a c)) g
        else Some g) = Some g1"
      "drawing i ?K g1" "g_size g1 = g_size g" "g_pos g1 = g_pos g"
    by (rule draw_clear_after [OF assms(1) p(1) col cols clear])
  obtain g2 where g2: "(if is_wide c2 then
        do { g1 \<leftarrow> with_cell \<lparr> pos_row = i, pos_col = add16 (Suc j) 1 \<rparr> (\<lambda>c. Some (cell_clear a c)) g;
             if add16 (Suc j) 1 = sub16 (cols_of g) 1 then with_row i (\<lambda>r. Some (row_wrap False r)) g1 else Some g1 }
        else Some g) = Some g2"
      "drawing i ?K g2" "g_size g2 = g_size g" "g_pos g2 = g_pos g"
  proof (cases "is_wide c2")
    case True
    obtain g2 where g2: "(if add16 (Suc j) 1 = sub16 (cols_of g) 1 then with_row i (\<lambda>r. Some (row_wrap False r)) g1
          else Some g1) = Some g2" "drawing i ?K g2" "g_size g2 = g_size g1" "g_pos g2 = g_pos g1"
      by (rule drawing_maybe_wrap [OF g1(3)])
    have "with_cell \<lparr> pos_row = i, pos_col = add16 (Suc j) 1 \<rparr> (\<lambda>c. Some (cell_clear a c)) g = Some g1"
      using g1(2) by (simp only: True if_True)
    then show thesis
      by (intro that [of g2]) (simp_all only: True if_True bind.bind_lunit g2 g1)
  next
    case False
    then have "g1 = g" using g1(2) by (simp only: if_False option.inject)
    then show thesis using g1(3) by (intro that [of g]) (simp_all only: False if_False)
  qed
  have col2: "Suc j < cols_of g2" using col g2(3) by simp
  have half: "\<exists>c'. Some (set_wide_continuation True (cell_clear Attrs_default c)) = Some c' \<and> cell_ok c'
      \<and> half_of c' = RightHalf" if "cell_ok c" for c
    using that by (simp add: half_of_def)
  obtain g3 where g3: "with_cell \<lparr> pos_row = i, pos_col = Suc j \<rparr>
        (\<lambda>c. Some (set_wide_continuation True (cell_clear Attrs_default c))) g2 = Some g3"
      "drawing i (?K(Suc j := RightHalf)) g3" "g_size g3 = g_size g2" "g_pos g3 = g_pos g2"
    by (rule drawing_with_cell [OF g2(2) col2 half])
  have c3: "cursor_col g3 = Suc j" "cursor_row g3 = i" "cursor_col g3 < cols_of g3"
    using g2 g3 pos col by simp_all
  show thesis
  proof (rule that [of "col_inc 1 g3"])
    show "second_half a g = Some (col_inc 1 g3)"
      unfolding second_half_def Let_def pos Pos.simps by (simp only: g1(1) g2(1) g3(1) bind.bind_lunit)
    show "grid_ok (col_inc 1 g3)" by (rule drawing_end [OF drawing_col_inc [OF g3(2) c3(3)] p(2)])
    show "g_size (col_inc 1 g3) = g_size g" "cursor_row (col_inc 1 g3) = i" using g2 g3 c3 by simp_all
    show "cursor_col (col_inc 1 g3) = Suc (Suc j)"
      using col_inc_col [OF c3(3) drawing_size(1) [OF g3(2)]] c3 by simp
  qed
qed

lemma draw_character_ok:
  assumes ok: "grid_ok g" and fits: "cursor_col g + width \<le> cols_of g" and ch: "is_scalar ch" "attrs_ok a" "widths_ok table"
    and width: "width = 1 \<and> \<not> (char_width table ch \<noteq> None \<and> the (char_width table ch) > 1)
      \<or> width = 2 \<and> char_width table ch = Some 2"
  obtains g' where "draw_character table ch width a g = Some g'" and "grid_ok g'" and "g_size g' = g_size g"
    and "cursor_row g' = cursor_row g" and "cursor_col g' = cursor_col g + width"
proof -
  have col: "cursor_col g < cols_of g" using fits width by auto
  obtain g3 H where g3: "draw_character table ch width a g = (if width > 1 then second_half a (col_inc 1 g3) else Some (col_inc 1 g3))"
      "paired H" "H (cursor_col g) = Plain" "drawing (cursor_row g) (H(cursor_col g := half_drawn table ch)) g3"
      "g_size g3 = g_size g" "g_pos g3 = g_pos g"
    by (rule draw_first_half [OF ok col ch])
  have col3: "cursor_col g3 < cols_of g3" "cols_of g3 < 65535"
    using col g3 grid_ok_frame(4) [OF ok] by simp_all
  note d = drawing_col_inc [OF g3(4) col3(1)] and c = col_inc_col [OF col3]
  show thesis
  proof (cases "width = 1")
    case True
    then have half: "half_drawn table ch = Plain" using width by auto
    have "H(cursor_col g := Plain) = H" using g3(3) by auto
    then have "grid_ok (col_inc 1 g3)" using drawing_end [OF d [unfolded half]] g3(2) by simp
    then show thesis using that [of "col_inc 1 g3"] g3 c True by simp
  next
    case False
    then have half: "half_drawn table ch = LeftHalf" "width = 2" using width by auto
    have pos: "g_pos (col_inc 1 g3) = \<lparr> pos_row = cursor_row g, pos_col = Suc (cursor_col g) \<rparr>"
      using c g3(6) col_inc_simps(2) [of 1 g3] by (intro Pos.equality) simp_all
    have "Suc (cursor_col g) < cols_of (col_inc 1 g3)" using fits half(2) g3(5) by simp
    from second_half_ok [OF d [unfolded half(1)] g3(2,3) ch(2) pos this]
    obtain g' where "second_half a (col_inc 1 g3) = Some g'" "grid_ok g'" "g_size g' = g_size g"
        "cursor_row g' = cursor_row g" "cursor_col g' = Suc (Suc (cursor_col g))"
      using g3(5) by auto
    then show thesis using that [of g'] g3(1) half(2) by simp
  qed
qed

lemma cell_append_half:
  assumes "cell_ok c" and "is_scalar ch"
  shows "\<exists>c'. cell_append ch c = Some c' \<and> cell_ok c' \<and> half_of c' = half_of c"
proof -
  obtain cs where "cell_holds c cs" using assms(1) by (auto simp: cell_ok_def)
  then obtain c' where "cell_append ch c = Some c'" "\<exists>cs'. cell_holds c' cs'" "is_wide c' = is_wide c"
      "is_wide_continuation c' = is_wide_continuation c"
    using cell_append_ok [of c cs ch] assms(2) by blast
  then show ?thesis by (auto simp: cell_ok_def half_of_def)
qed

lemma append_in_place:
  assumes "drawing i H g" and "paired H" and "j < cols_of g" and "is_scalar ch"
  shows "\<exists>g'. with_cell \<lparr> pos_row = i, pos_col = j \<rparr> (cell_append ch) g = Some g' \<and> grid_ok g' \<and> g_size g' = g_size g"
proof -
  have step: "\<exists>c'. cell_append ch c = Some c' \<and> cell_ok c' \<and> half_of c' = H j" if "cell_ok c" "half_of c = H j" for c
    using cell_append_half [OF that(1) assms(4)] that(2) by simp
  obtain g' where "with_cell \<lparr> pos_row = i, pos_col = j \<rparr> (cell_append ch) g = Some g'"
      "drawing i (H(j := H j)) g'" "g_size g' = g_size g"
    by (rule drawing_with_cell [OF assms(1,3) step])
  then show ?thesis using drawing_end assms(2) by fastforce
qed

lemma append_before_ok:
  assumes "grid_ok g" and "i < rows_of g" and "j < cols_of g" and "is_scalar ch"
  shows "\<exists>g'. append_before ch \<lparr> pos_row = i, pos_col = j \<rparr> g = Some g' \<and> grid_ok g' \<and> g_size g' = g_size g"
proof -
  obtain H where H: "drawing i H g" "paired H" by (rule drawing_start [OF assms(1,2)])
  obtain c where c: "drawing_cell g \<lparr> pos_row = i, pos_col = j \<rparr> = Some c" "cell_ok c" "half_of c = H j"
    by (rule drawing_cell_at [OF H(1) assms(3)])
  show ?thesis
  proof (cases "is_wide_continuation c")
    case True
    then have "H j = RightHalf" using half_of_flags(2) [OF c(2)] c(3) by simp
    then have "1 \<le> j" using H(2) by (cases j) (auto simp: paired_def)
    then have "sub16 j 1 = j - 1" using assms(3) grid_ok_frame(4) [OF assms(1)] by simp
    then have "sub16 j 1 < cols_of g" using assms(3) by linarith
    from append_in_place [OF H this assms(4)] show ?thesis
      unfolding append_before_def Pos.simps c(1) bind.bind_lunit by (simp only: True if_True)
  next
    case False
    from append_in_place [OF H assms(3,4)] show ?thesis
      unfolding append_before_def Pos.simps c(1) bind.bind_lunit by (simp only: False if_False)
  qed
qed

lemma safe_combine_character [safe]: "is_scalar ch \<Longrightarrow> safe (combine_character ch)"
proof (rule safeI)
  fix g
  assume ch: "is_scalar ch" and ok: "grid_ok g"
  note f = grid_ok_frame [OF ok]
  consider "cursor_col g > 0" | "cursor_col g = 0" "cursor_row g > 0" | "cursor_col g = 0" "cursor_row g = 0" by auto
  then show "\<exists>g'. combine_character ch g = Some g' \<and> grid_ok g' \<and> g_size g' = g_size g"
  proof cases
    case 1
    then have "sub16 (cursor_col g) 1 < cols_of g" using f by auto
    from append_before_ok [OF ok f(5) this ch] 1 show ?thesis by (simp only: combine_character_def if_True)
  next
    case 2
    then have i: "sub16 (cursor_row g) 1 < rows_of g" "sub16 (cols_of g) 1 < cols_of g" using f by auto
    obtain r where r: "drawing_row g (sub16 (cursor_row g) 1) = Some r"
      using i(1) f(9) by (simp only: drawing_row_def at_def if_True)
    have "combine_character ch g = (if row_wrapped r
        then append_before ch \<lparr> pos_row = sub16 (cursor_row g) 1, pos_col = sub16 (cols_of g) 1 \<rparr> g else Some g)"
      by (simp only: combine_character_def 2 r bind.bind_lunit less_irrefl if_True if_False)
    with append_before_ok [OF ok i ch] ok show ?thesis by (cases "row_wrapped r") (simp_all only: if_True if_False, blast)
  next
    case 3
    then show ?thesis using ok by (simp add: combine_character_def)
  qed
qed

section \<open>The invariant of the screen\<close>

definition screen_ok :: "Screen \<Rightarrow> bool"
  where "screen_ok s \<longleftrightarrow>
    grid_ok (s_grid s)
    \<and> (grid_ok (s_alternate_grid s) \<or> grid_unallocated (s_alternate_grid s) \<and> \<not> mode MODE_ALTERNATE_SCREEN s)
    \<and> g_size (s_alternate_grid s) = g_size (s_grid s)
    \<and> attrs_ok (s_attrs s) \<and> attrs_ok (s_saved_attrs s)"

text \<open>Printing needs room: two rows and two columns.\<close>

definition roomy :: "Screen \<Rightarrow> bool"
  where "roomy s \<longleftrightarrow> 2 \<le> rows_of (s_grid s) \<and> 2 \<le> cols_of (s_grid s)"

definition keeps_screen :: "(Screen \<Rightarrow> Screen) \<Rightarrow> bool"
  where "keeps_screen f \<longleftrightarrow> (\<forall>s. screen_ok s \<longrightarrow> screen_ok (f s) \<and> g_size (s_grid (f s)) = g_size (s_grid s))"

definition safe_screen :: "(Screen \<Rightarrow> Screen option) \<Rightarrow> bool"
  where "safe_screen f \<longleftrightarrow>
    (\<forall>s. screen_ok s \<longrightarrow> (\<exists>s'. f s = Some s' \<and> screen_ok s' \<and> g_size (s_grid s') = g_size (s_grid s)))"

lemma screen_ok_grid:
  assumes "screen_ok s"
  shows "grid_ok (screen_grid s)" and "g_size (screen_grid s) = g_size (s_grid s)" and "attrs_ok (s_attrs s)"
  using assms by (auto simp: screen_ok_def screen_grid_def)

lemma mode_simps [simp]:
  "mode m (s\<lparr> s_grid := g \<rparr>) = mode m s" "mode m (s\<lparr> s_alternate_grid := g \<rparr>) = mode m s"
  "mode m (s\<lparr> s_attrs := a \<rparr>) = mode m s" "mode m (s\<lparr> s_saved_attrs := a \<rparr>) = mode m s"
  "mode m (s\<lparr> s_mouse_protocol_mode := mm \<rparr>) = mode m s" "mode m (s\<lparr> s_mouse_protocol_encoding := e \<rparr>) = mode m s"
  by (simp_all add: mode_def)

lemma on_grid_ok:
  assumes "screen_ok s" and "grid_ok g" and "g_size g = g_size (s_grid s)"
  shows "screen_ok (on_grid (\<lambda>_. g) s)" and "g_size (s_grid (on_grid (\<lambda>_. g) s)) = g_size (s_grid s)"
    and "screen_grid (on_grid (\<lambda>_. g) s) = g" and "s_attrs (on_grid (\<lambda>_. g) s) = s_attrs s"
  using assms by (auto simp: screen_ok_def on_grid_def screen_grid_def)

lemma on_grid_screen_grid: "on_grid f s = on_grid (\<lambda>_. f (screen_grid s)) s"
  by (simp add: on_grid_def screen_grid_def)

lemma keeps_on_grid: "keeps f \<Longrightarrow> keeps_screen (on_grid f)"
  unfolding keeps_screen_def
  by (metis keepsD on_grid_ok(1,2) on_grid_screen_grid screen_ok_grid(1,2))

lemma safe_try_grid: "safe f \<Longrightarrow> safe_screen (try_grid f)"
  unfolding safe_screen_def try_grid_def
  by (metis bind.bind_lunit on_grid_ok(1,2) safeE screen_ok_grid(1,2))

lemma keeps_screen_comp: "keeps_screen f \<Longrightarrow> keeps_screen h \<Longrightarrow> keeps_screen (\<lambda>s. h (f s))"
  by (simp add: keeps_screen_def)

lemma safe_screen_keeps: "keeps_screen f \<Longrightarrow> safe_screen (\<lambda>s. Some (f s))"
  by (simp add: keeps_screen_def safe_screen_def)

lemma try_grid_eq: "f (screen_grid s) = Some g \<Longrightarrow> try_grid f s = Some (on_grid (\<lambda>_. g) s)"
  by (simp add: try_grid_def)

lemma screen_text_ok:
  assumes ok: "screen_ok s" "roomy s" and ch: "is_scalar ch" "widths_ok table"
  shows "\<exists>s'. screen_text table ch s = Some s' \<and> screen_ok s' \<and> g_size (s_grid s') = g_size (s_grid s)"
proof (cases "char_width table ch = None \<and> ch < 256")
  case True
  then show ?thesis using ok by (simp add: screen_text_def Let_def)
next
  case printed: False
  define w where "w = (case char_width table ch of None \<Rightarrow> 1 | Some w \<Rightarrow> w)"
  let ?g = "screen_grid s"
  note g = screen_ok_grid [OF ok(1)] and f = grid_ok_frame [OF screen_ok_grid(1) [OF ok(1)]]
  have w: "w \<le> 2" using char_width_le [of table ch] ch(2) by (auto simp: w_def widths_ok_def split: option.split)
  have wide16: "w < 65536" using w by simp
  have room: "2 \<le> rows_of ?g" "w \<le> cols_of ?g" using ok(2) w g(2) by (simp_all add: roomy_def)
  have last: "sub16 (cols_of ?g) 1 < cols_of ?g" using f by simp
  obtain H where H: "drawing (cursor_row ?g) H ?g" by (rule drawing_start [OF g(1) f(5)])
  obtain c where c: "drawing_cell ?g \<lparr> pos_row = cursor_row ?g, pos_col = sub16 (cols_of ?g) 1 \<rparr> = Some c"
    by (rule drawing_cell_at [OF H last])
  define wrap where "wrap \<longleftrightarrow> cursor_col ?g > sub16 (cols_of ?g) w \<and> (has_contents c \<or> is_wide_continuation c)"
  have wrap: "(if cursor_col ?g > sub16 (cols_of ?g) w
      then map_option (\<lambda>c. has_contents c \<or> is_wide_continuation c)
             (drawing_cell ?g \<lparr> pos_row = cursor_row ?g, pos_col = sub16 (cols_of ?g) 1 \<rparr>)
      else Some False) = Some wrap"
    by (cases "cursor_col ?g > sub16 (cols_of ?g) w")
      (simp_all only: c wrap_def if_True if_False option.map simp_thms)
  obtain g1 where g1: "col_wrap w wrap ?g = Some g1" "grid_ok g1" "g_size g1 = g_size ?g" "cursor_col g1 + w \<le> cols_of ?g"
    by (rule col_wrap_ok [OF g(1) room])
  define s1 where "s1 = on_grid (\<lambda>_. g1) s"
  have s1: "try_grid (col_wrap w wrap) s = Some s1" "screen_ok s1" "g_size (s_grid s1) = g_size (s_grid s)"
      "screen_grid s1 = g1" "s_attrs s1 = s_attrs s"
    using try_grid_eq [of "col_wrap w wrap" s, OF g1(1)] on_grid_ok [OF ok(1) g1(2)] g1(3) g(2)
    by (simp_all add: s1_def)
  have drawn: "screen_text table ch s =
      (if w = 0 then try_grid (combine_character ch) s1 else try_grid (draw_character table ch w (s_attrs s)) s1)"
    using printed w
    by (simp only: screen_text_def Let_def w_def [symmetric] if_False wide16 if_True bind.bind_lunit wrap s1(1))
  have "\<exists>s'. try_grid (draw_character table ch w (s_attrs s)) s1 = Some s' \<and> screen_ok s'
      \<and> g_size (s_grid s') = g_size (s_grid s1)" if "w \<noteq> 0"
  proof -
    have "w = 1 \<and> \<not> (char_width table ch \<noteq> None \<and> the (char_width table ch) > 1) \<or> w = 2 \<and> char_width table ch = Some 2"
      using that w by (auto simp: w_def split: option.splits)
    from draw_character_ok [OF g1(2) _ ch(1) g(3) ch(2) this] g1(3,4)
    obtain g2 where "draw_character table ch w (s_attrs s) g1 = Some g2" "grid_ok g2" "g_size g2 = g_size g1" by auto
    then show ?thesis
      using try_grid_eq [of "draw_character table ch w (s_attrs s)" s1 g2] on_grid_ok [OF s1(2)] s1(3,4) g1(3) g(2)
      by simp
  qed
  with safe_try_grid [OF safe_combine_character [OF ch(1)]] s1(2,3) show ?thesis
    unfolding drawn safe_screen_def by (cases "w = 0") auto
qed

section \<open>Every operation is safe\<close>

named_theorems screen_safe \<open>operations of the screen that keep the invariant\<close>

lemma keeps_modes [screen_safe]:
  assumes "m \<noteq> MODE_ALTERNATE_SCREEN" and "m \<in> {0x01, 0x02, 0x04, 0x10, 0x20}"
  shows "keeps_screen (set_mode m)" and "keeps_screen (clear_mode m)"
proof -
  have "(x OR m) AND 0x08 = x AND 0x08" "(x AND NOT m) AND 0x08 = x AND 0x08" for x :: u8
    using assms(2) by (auto simp: bit.conj_disj_distrib2 and.assoc)
  then show "keeps_screen (set_mode m)" and "keeps_screen (clear_mode m)"
    by (simp_all add: keeps_screen_def screen_ok_def mode_def set_mode_def clear_mode_def)
qed

lemma keeps_mouse [screen_safe]:
  "keeps_screen (set_mouse_mode mm)" "keeps_screen (clear_mouse_mode mm)"
  "keeps_screen (set_mouse_encoding e)" "keeps_screen (clear_mouse_encoding e)"
  by (simp_all add: keeps_screen_def screen_ok_def set_mouse_mode_def clear_mouse_mode_def
      set_mouse_encoding_def clear_mouse_encoding_def)

lemma keeps_exit_alternate [screen_safe]: "keeps_screen exit_alternate_grid"
proof -
  have "(x AND NOT 0x08) AND 0x08 = 0" for x :: u8 by (simp add: and.assoc)
  then show ?thesis
    by (auto simp: keeps_screen_def screen_ok_def mode_def exit_alternate_grid_def clear_mode_def)
qed

lemma keeps_enter_alternate [screen_safe]: "keeps_screen enter_alternate_grid"
  unfolding keeps_screen_def
proof (intro allI impI)
  fix s
  assume "screen_ok s"
  then have s: "screen_ok (on_grid (set_scrollback 0) s)" "g_size (s_grid (on_grid (set_scrollback 0) s)) = g_size (s_grid s)"
    using keeps_on_grid [OF keeps_cursor(5)] by (simp_all add: keeps_screen_def)
  then show "screen_ok (enter_alternate_grid s) \<and> g_size (s_grid (enter_alternate_grid s)) = g_size (s_grid s)"
    using grid_ok_allocate [of "s_alternate_grid (on_grid (set_scrollback 0) s)"]
    by (auto simp: screen_ok_def enter_alternate_grid_def Let_def set_mode_def)
qed

lemma keeps_cursor_screen [screen_safe]: "keeps_screen save_cursor" "keeps_screen restore_cursor"
proof -
  have "keeps_screen (on_grid grid_save_cursor)" "keeps_screen (on_grid grid_restore_cursor)"
    by (rule keeps_on_grid, rule keeps_cursor)+
  moreover have "s_attrs (on_grid f s) = s_attrs s" "s_saved_attrs (on_grid f s) = s_saved_attrs s" for f s
    by (simp_all add: on_grid_def)
  ultimately show "keeps_screen save_cursor" "keeps_screen restore_cursor"
    by (auto simp: keeps_screen_def screen_ok_def save_cursor_def restore_cursor_def)
qed

lemma keeps_clear_alternate [screen_safe]:
  "keeps_screen (\<lambda>s. s\<lparr> s_alternate_grid := grid_clear (s_alternate_grid s) \<rparr>)"
proof -
  have "g_size (grid_clear g) = g_size g" for g by (simp add: grid_clear_def)
  then show ?thesis
    using grid_ok_clear grid_unallocated_clear by (auto simp: keeps_screen_def screen_ok_def)
qed

lemma screen_ok_new:
  assumes "size_ok sz"
  shows "screen_ok (Screen_new sz 0)" and "g_size (s_grid (Screen_new sz 0)) = sz"
proof -
  have "grid_unallocated (Grid_new sz 0)" using assms by (simp add: size_ok_def grid_unallocated_new)
  moreover have "g_size (Grid_new sz 0) = sz" by (simp add: Grid_new_def)
  ultimately show "screen_ok (Screen_new sz 0)" and "g_size (s_grid (Screen_new sz 0)) = sz"
    using grid_ok_allocate [of "Grid_new sz 0"] by (simp_all add: screen_ok_def Screen_new_def mode_def)
qed

lemma keeps_ris [screen_safe]: "keeps_screen ris"
proof -
  have "g_scrollback_len (s_grid s) = 0 \<and> size_ok (g_size (s_grid s))" if "screen_ok s" for s
    using that by (simp add: screen_ok_def grid_defs size_ok_def)
  then show ?thesis by (simp add: keeps_screen_def ris_def screen_ok_new)
qed

lemma keeps_sgr [screen_safe]: "keeps_screen (\<lambda>s. fst (screen_sgr ps s))"
  using attrs_ok_sgr by (auto simp: keeps_screen_def screen_ok_def screen_sgr_def split_beta)

lemma keeps_mode_bits [screen_safe]:
  "keeps_screen (set_mode 0x01)" "keeps_screen (set_mode 0x02)" "keeps_screen (set_mode 0x04)"
  "keeps_screen (set_mode 0x10)" "keeps_screen (set_mode 0x20)"
  "keeps_screen (clear_mode 0x01)" "keeps_screen (clear_mode 0x02)" "keeps_screen (clear_mode 0x04)"
  "keeps_screen (clear_mode 0x10)" "keeps_screen (clear_mode 0x20)"
  by (rule keeps_modes; simp)+

lemma keeps_screenD:
  "keeps_screen f \<Longrightarrow> screen_ok s \<Longrightarrow> screen_ok (f s)"
  "keeps_screen f \<Longrightarrow> screen_ok s \<Longrightarrow> g_size (s_grid (f s)) = g_size (s_grid s)"
  by (simp_all add: keeps_screen_def)

lemma keeps_moves [screen_safe]:
  "keeps_screen bs" "keeps_screen tab" "keeps_screen cr" "keeps_screen (cuu n)" "keeps_screen (cud n)"
  "keeps_screen (cuf n)" "keeps_screen (cub n)" "keeps_screen (cnl n)" "keeps_screen (cpl n)"
  "keeps_screen (cha n)" "keeps_screen (cup p)" "keeps_screen (vpa n)" "keeps_screen (decstbm p)"
  "keeps_screen decsc" "keeps_screen decrc" "keeps_screen deckpam" "keeps_screen deckpnm"
  unfolding bs_def tab_def cr_def cuu_def cud_def cuf_def cub_def cnl_def [abs_def] cpl_def [abs_def] cha_def
    cup_def vpa_def decstbm_def decsc_def decrc_def deckpam_def deckpnm_def
  by (rule keeps_on_grid keeps_cursor_screen keeps_mode_bits
      keeps_screen_comp [OF keeps_on_grid keeps_on_grid]; (rule keeps_movement keeps_set_pos keeps_cursor)?)+

lemma safe_operations [screen_safe]:
  "safe_screen lf" "safe_screen vt" "safe_screen ff" "safe_screen ri" "safe_screen (ich n)" "safe_screen (il n)"
  "safe_screen (dl n)" "safe_screen (dch n)" "safe_screen (su n)" "safe_screen (sd n)"
  unfolding vt_def ff_def lf_def ri_def ich_def il_def dl_def dch_def su_def sd_def
  by (intro safe_try_grid safe_row_inc_scroll safe_row_dec_scroll safe_insert_cells safe_lines_down
      safe_delete_lines safe_delete_cells safe_scroll_up)+

lemma safe_with_attrs:
  assumes "\<And>a. attrs_ok a \<Longrightarrow> safe (f a)"
  shows "safe_screen (\<lambda>s. try_grid (f (s_attrs s)) s)"
  using safe_try_grid [OF assms] screen_ok_grid(3) by (auto simp: safe_screen_def)

lemma safe_erasing [screen_safe]:
  "safe_screen (ech n)" "safe_screen (\<lambda>s. map_option fst (ed m s))" "safe_screen (\<lambda>s. map_option fst (el m s))"
proof -
  have f: "safe_screen (\<lambda>s. try_grid (erase_all_forward (s_attrs s)) s)"
    "safe_screen (\<lambda>s. try_grid (erase_all_backward (s_attrs s)) s)"
    "safe_screen (\<lambda>s. try_grid (erase_all (s_attrs s)) s)" "safe_screen (\<lambda>s. try_grid (erase_row (s_attrs s)) s)"
    "safe_screen (\<lambda>s. try_grid (erase_row_forward (s_attrs s)) s)"
    "safe_screen (\<lambda>s. try_grid (erase_row_backward (s_attrs s)) s)"
    by (intro safe_with_attrs safe_erase safe_erase_all_forward safe_erase_all_backward; assumption)+
  show "safe_screen (ech n)" unfolding ech_def [abs_def] by (intro safe_with_attrs safe_erase)
  show "safe_screen (\<lambda>s. map_option fst (ed m s))" "safe_screen (\<lambda>s. map_option fst (el m s))"
    using f unfolding ed_def el_def
    by (cases "m = 0"; cases "m = 1"; cases "m = 2"; simp add: option.map_comp comp_def option.map_ident safe_screen_def)+
qed

lemma keeps_params:
  assumes "\<And>p s s'. f p s = Some s' \<Longrightarrow> screen_ok s \<Longrightarrow> screen_ok s' \<and> g_size (s_grid s') = g_size (s_grid s)"
  shows "keeps_screen (\<lambda>s. fst (each_param f ps s))"
proof -
  have "screen_ok s \<Longrightarrow> screen_ok (fst (fold (\<lambda>p (s, n). case f p s of None \<Rightarrow> (s, n + 1) | Some s1 \<Rightarrow> (s1, n)) ps (s, n)))
    \<and> g_size (s_grid (fst (fold (\<lambda>p (s, n). case f p s of None \<Rightarrow> (s, n + 1) | Some s1 \<Rightarrow> (s1, n)) ps (s, n)))) =
      g_size (s_grid s)" for s and n :: nat
    by (induction ps arbitrary: s n) (auto split: option.split dest: assms)
  then show ?thesis by (simp add: keeps_screen_def each_param_def)
qed

lemma decset_param_ok:
  assumes "decset_param p s = Some s'" and "screen_ok s"
  shows "screen_ok s' \<and> g_size (s_grid s') = g_size (s_grid s)"
proof -
  note k = keeps_mode_bits keeps_mouse keeps_enter_alternate keeps_on_grid [OF keeps_cursor(3)]
    keeps_screen_comp [OF keeps_screen_comp [OF keeps_moves(14) keeps_clear_alternate] keeps_enter_alternate]
  from assms(1) show ?thesis
    unfolding decset_param_def Let_def
    by (auto split: if_splits intro!: keeps_screenD [OF _ assms(2)] k)
qed

lemma decrst_param_ok:
  assumes "decrst_param p s = Some s'" and "screen_ok s"
  shows "screen_ok s' \<and> g_size (s_grid s') = g_size (s_grid s)"
proof -
  note k = keeps_mode_bits keeps_mouse keeps_exit_alternate keeps_on_grid [OF keeps_cursor(3)]
    keeps_screen_comp [OF keeps_exit_alternate keeps_moves(15)]
  from assms(1) show ?thesis
    unfolding decrst_param_def
    by (auto split: if_splits intro!: keeps_screenD [OF _ assms(2)] k)
qed

lemma keeps_decset [screen_safe]: "keeps_screen (\<lambda>s. fst (decset ps s))" "keeps_screen (\<lambda>s. fst (decrst ps s))"
  unfolding decset_def decrst_def
  by (rule keeps_params [OF decset_param_ok] keeps_params [OF decrst_param_ok]; assumption)+

end
