(* ===== verification/Perform.thy ===== *)
theory Perform
  imports Screen
begin

text \<open>
  The dispatcher of \<open>src/vt100/perform.rs\<close> and the parser of \<open>src/vt100/parser.rs\<close>. The crate \<open>vte\<close>
  turns bytes into calls of the methods of its trait \<open>Perform\<close>; it is a parameter that yields the
  list of calls, \<open>vte_event\<close>. A callback of \<open>src/vt100/callbacks.rs\<close> never changes the screen (the
  two implementations in the repository ignore it), so the dispatcher returns the list of the
  callbacks it makes beside the screen.

  Shown here: no sequence of calls makes the dispatcher panic or leave the invariant of the screen,
  given a screen of at least two rows and two columns, and the size of the screen never changes.
\<close>

section \<open>Events and callbacks\<close>

datatype vte_event =
    Print scalar
  | Execute u8
  | Hook "nat list list" bytes bool scalar
  | Put u8
  | Unhook
  | OscDispatch "bytes list" bool
  | CsiDispatch "nat list list" bytes bool scalar
  | EscDispatch bytes bool u8

datatype Callback =
    AudibleBell
  | VisualBell
  | ResizeRequest "nat \<times> nat"
  | SetWindowIconName bytes
  | SetWindowTitle bytes
  | CopyToClipboard bytes bytes
  | PasteFromClipboard bytes
  | UnhandledChar scalar
  | UnhandledControl u8
  | UnhandledEscape "u8 option" "u8 option" u8
  | UnhandledCsi "u8 option" "u8 option" "nat list list" scalar
  | UnhandledOsc "bytes list"

abbreviation ascii :: "string \<Rightarrow> bytes" where "ascii s \<equiv> map of_char s"
abbreviation letter :: "char \<Rightarrow> scalar" where "letter c \<equiv> of_char c"

definition BASE64 :: bytes
  where "BASE64 = ascii ''ABCDEFGHIJKLMNOPQRSTUVWXYZabcdefghijklmnopqrstuvwxyz0123456789+/=''"

definition CLIPBOARD_SELECTOR :: bytes
  where "CLIPBOARD_SELECTOR = ascii ''cpqs01234567''"

section \<open>Parameters\<close>

definition first_or :: "nat \<Rightarrow> nat list \<Rightarrow> nat"
  where "first_or d x = (case x of [] \<Rightarrow> d | v # _ \<Rightarrow> v)"

definition param_at :: "nat \<Rightarrow> nat list list \<Rightarrow> nat"
  where "param_at i params = (if i < length params then first_or 0 (params ! i) else 0)"

definition canonicalize_params_1 :: "nat list list \<Rightarrow> nat \<Rightarrow> nat"
  where "canonicalize_params_1 params d = (let first = param_at 0 params in if first = 0 then d else first)"

definition canonicalize_params_2 :: "nat list list \<Rightarrow> nat \<Rightarrow> nat \<Rightarrow> nat \<times> nat"
  where "canonicalize_params_2 params d1 d2 =
    (let first = param_at 0 params; first = (if first = 0 then d1 else first);
         second = param_at 1 params; second = (if second = 0 then d2 else second)
     in (first, second))"

definition canonicalize_params_decstbm :: "nat list list \<Rightarrow> Size \<Rightarrow> nat \<times> nat"
  where "canonicalize_params_decstbm params sz =
    (let top_row = param_at 0 params; top_row = (if top_row = 0 then 1 else top_row);
         bottom_row = param_at 1 params; bottom_row = (if bottom_row = 0 then size_rows sz else bottom_row)
     in (top_row, bottom_row))"

section \<open>Dispatch\<close>

type_synonym performed = "(Screen \<times> Callback list) option"

definition quiet :: "Screen option \<Rightarrow> performed"
  where "quiet r = map_option (\<lambda>s. (s, [])) r"

definition calls :: "Callback list \<Rightarrow> Screen \<Rightarrow> performed"
  where "calls cs s = Some (s, cs)"

text \<open>What an operation does with the closure \<open>unhandled\<close> of \<open>csi_dispatch\<close>.\<close>

definition unhandled :: "Callback \<Rightarrow> Screen \<times> nat \<Rightarrow> Screen \<times> Callback list"
  where "unhandled c r = (fst r, replicate (snd r) c)"

definition perform_print :: "width_table \<Rightarrow> scalar \<Rightarrow> Screen \<Rightarrow> performed"
  where "perform_print table c s =
    (if 0x80 \<le> c \<and> c < 0xa0 then calls [UnhandledChar c] s else quiet (screen_text table c s))"

definition perform_execute :: "u8 \<Rightarrow> Screen \<Rightarrow> performed"
  where "perform_execute b s =
    (if b = 7 then calls [AudibleBell] s
     else if b = 8 then quiet (Some (bs s))
     else if b = 9 then quiet (Some (tab s))
     else if b = 10 then quiet (lf s)
     else if b = 11 then quiet (vt s)
     else if b = 12 then quiet (ff s)
     else if b = 13 then quiet (Some (cr s))
     else if b = 14 \<or> b = 15 then quiet (Some s)
     else calls [UnhandledControl b] s)"

definition esc_dispatch :: "bytes \<Rightarrow> u8 \<Rightarrow> Screen \<Rightarrow> performed"
  where "esc_dispatch intermediates b s =
    (case intermediates of
       i # rest \<Rightarrow> calls [UnhandledEscape (Some i) (at rest 0) b] s
     | [] \<Rightarrow>
         if b = of_char CHR ''7'' then quiet (Some (decsc s))
         else if b = of_char CHR ''8'' then quiet (Some (decrc s))
         else if b = of_char CHR ''='' then quiet (Some (deckpam s))
         else if b = of_char CHR ''>'' then quiet (Some (deckpnm s))
         else if b = of_char CHR ''M'' then quiet (ri s)
         else if b = of_char CHR ''c'' then quiet (Some (ris s))
         else if b = of_char CHR ''g'' then calls [VisualBell] s
         else calls [UnhandledEscape None None b] s)"

definition csi_window :: "nat list list \<Rightarrow> scalar \<Rightarrow> Screen \<Rightarrow> performed"
  where "csi_window params c s =
    (let screen_rows = fst (screen_size s); screen_cols = snd (screen_size s) in
     if params \<noteq> [] \<and> at (params ! 0) 0 = Some 8 then
       calls [ResizeRequest (case at params 1 of None \<Rightarrow> screen_rows | Some x \<Rightarrow> first_or screen_rows x,
                      case at params 2 of None \<Rightarrow> screen_cols | Some x \<Rightarrow> first_or screen_cols x)] s
     else calls [UnhandledCsi None None params c] s)"

definition csi_plain :: "nat list list \<Rightarrow> scalar \<Rightarrow> Screen \<Rightarrow> performed"
  where "csi_plain params c s =
    (let n = canonicalize_params_1 params 1; m = canonicalize_params_1 params 0;
         other = UnhandledCsi None None params c in
     if c = letter CHR 0x40 then quiet (ich n s)
     else if c = letter CHR ''A'' then quiet (Some (cuu n s))
     else if c = letter CHR ''B'' then quiet (Some (cud n s))
     else if c = letter CHR ''C'' then quiet (Some (cuf n s))
     else if c = letter CHR ''D'' then quiet (Some (cub n s))
     else if c = letter CHR ''E'' then quiet (Some (cnl n s))
     else if c = letter CHR ''F'' then quiet (Some (cpl n s))
     else if c = letter CHR ''G'' then quiet (Some (cha n s))
     else if c = letter CHR ''H'' then quiet (Some (cup (canonicalize_params_2 params 1 1) s))
     else if c = letter CHR ''J'' then map_option (unhandled other) (ed m s)
     else if c = letter CHR ''K'' then map_option (unhandled other) (el m s)
     else if c = letter CHR ''L'' then quiet (il n s)
     else if c = letter CHR ''M'' then quiet (dl n s)
     else if c = letter CHR ''P'' then quiet (dch n s)
     else if c = letter CHR ''S'' then quiet (su n s)
     else if c = letter CHR ''T'' then quiet (sd n s)
     else if c = letter CHR ''X'' then quiet (ech n s)
     else if c = letter CHR ''d'' then quiet (Some (vpa n s))
     else if c = letter CHR ''m'' then Some (unhandled other (screen_sgr params s))
     else if c = letter CHR ''r'' then
       quiet (Some (decstbm (canonicalize_params_decstbm params (g_size (screen_grid s))) s))
     else if c = letter CHR ''t'' then csi_window params c s
     else calls [other] s)"

definition csi_private :: "nat list list \<Rightarrow> u8 option \<Rightarrow> scalar \<Rightarrow> Screen \<Rightarrow> performed"
  where "csi_private params i2 c s =
    (let m = canonicalize_params_1 params 0; other = UnhandledCsi (Some (of_char CHR ''?'')) i2 params c in
     if c = letter CHR ''J'' then map_option (unhandled other) (decsed m s)
     else if c = letter CHR ''K'' then map_option (unhandled other) (decsel m s)
     else if c = letter CHR ''h'' then Some (unhandled other (decset params s))
     else if c = letter CHR ''l'' then Some (unhandled other (decrst params s))
     else calls [other] s)"

definition csi_dispatch :: "nat list list \<Rightarrow> bytes \<Rightarrow> scalar \<Rightarrow> Screen \<Rightarrow> performed"
  where "csi_dispatch params intermediates c s =
    (case intermediates of
       [] \<Rightarrow> csi_plain params c s
     | i # rest \<Rightarrow>
         if i = of_char CHR ''?'' then csi_private params (at rest 0) c s
         else calls [UnhandledCsi (Some i) (at rest 0) params c] s)"

fun join_parts :: "bytes list \<Rightarrow> bytes"
  where "join_parts [] = []"
  | "join_parts [p] = p"
  | "join_parts (p # q # ps) = p @ ascii '';'' @ join_parts (q # ps)"

definition osc_clipboard :: "bytes list \<Rightarrow> bytes \<Rightarrow> bytes \<Rightarrow> Callback"
  where "osc_clipboard params ty d =
    (if list_all (\<lambda>c. c \<in> set CLIPBOARD_SELECTOR) ty then
       if d = ascii ''?'' then PasteFromClipboard ty
       else if list_all (\<lambda>c. c \<in> set BASE64) d then CopyToClipboard ty d
       else UnhandledOsc params
     else UnhandledOsc params)"

definition osc_dispatch :: "bytes list \<Rightarrow> Screen \<Rightarrow> performed"
  where "osc_dispatch params s =
    (case params of
       [] \<Rightarrow> calls [UnhandledOsc params] s
     | kind # parts \<Rightarrow>
         if kind = ascii ''0'' \<and> parts \<noteq> [] then
           calls [SetWindowIconName (join_parts parts), SetWindowTitle (join_parts parts)] s
         else if kind = ascii ''1'' \<and> parts \<noteq> [] then calls [SetWindowIconName (join_parts parts)] s
         else if kind = ascii ''2'' \<and> parts \<noteq> [] then calls [SetWindowTitle (join_parts parts)] s
         else if kind = ascii ''52'' \<and> length parts = 2 then calls [osc_clipboard params (parts ! 0) (parts ! 1)] s
         else calls [UnhandledOsc params] s)"

text \<open>The methods of the trait that \<open>WrappedScreen\<close> does not override do nothing.\<close>

fun perform :: "width_table \<Rightarrow> vte_event \<Rightarrow> Screen \<Rightarrow> performed"
  where "perform table (Print c) s = perform_print table c s"
  | "perform table (Execute b) s = perform_execute b s"
  | "perform table (OscDispatch params bell) s = osc_dispatch params s"
  | "perform table (CsiDispatch params intermediates ignore c) s = csi_dispatch params intermediates c s"
  | "perform table (EscDispatch intermediates ignore b) s = esc_dispatch intermediates b s"
  | "perform table (Hook params intermediates ignore c) s = Some (s, [])"
  | "perform table (Put b) s = Some (s, [])"
  | "perform table Unhook s = Some (s, [])"

fun perform_all :: "width_table \<Rightarrow> vte_event list \<Rightarrow> Screen \<Rightarrow> performed"
  where "perform_all table [] s = Some (s, [])"
  | "perform_all table (e # es) s =
      do {
        r \<leftarrow> perform table e s;
        r1 \<leftarrow> perform_all table es (fst r);
        Some (fst r1, snd r @ snd r1)
      }"

section \<open>The parser\<close>

text \<open>The state machine of \<open>vte\<close>: its start and what it does with a chunk of bytes.\<close>

record 'p vte =
  vte_new :: 'p
  vte_advance :: "'p \<Rightarrow> bytes \<Rightarrow> 'p \<times> vte_event list"

record 'p Parser =
  parser_state :: 'p
  parser_screen :: Screen
  parser_callbacks :: "Callback list"

definition Parser_new :: "'p vte \<Rightarrow> nat \<Rightarrow> nat \<Rightarrow> nat \<Rightarrow> 'p Parser"
  where "Parser_new V rows cols scrollback_len =
    \<lparr> parser_state = vte_new V,
      parser_screen = Screen_new \<lparr> size_rows = rows, size_cols = cols \<rparr> scrollback_len,
      parser_callbacks = [] \<rparr>"

definition parser_process :: "'p vte \<Rightarrow> width_table \<Rightarrow> bytes \<Rightarrow> 'p Parser \<Rightarrow> 'p Parser option"
  where "parser_process V table input p =
    (let (q, events) = vte_advance V (parser_state p) input in
     do {
       r \<leftarrow> perform_all table events (parser_screen p);
       Some (p\<lparr> parser_state := q, parser_screen := fst r, parser_callbacks := parser_callbacks p @ snd r \<rparr>)
     })"

text \<open>What the types of \<open>vte\<close> guarantee: a printed character is a scalar value.\<close>

fun event_ok :: "vte_event \<Rightarrow> bool"
  where "event_ok (Print c) = is_scalar c"
  | "event_ok e = True"

definition vte_ok :: "'p vte \<Rightarrow> bool"
  where "vte_ok V \<longleftrightarrow> (\<forall>p input. list_all event_ok (snd (vte_advance V p input)))"

section \<open>No call panics\<close>

definition performs :: "Screen \<Rightarrow> performed \<Rightarrow> bool"
  where "performs s r \<longleftrightarrow> (\<exists>s' cs. r = Some (s', cs) \<and> screen_ok s' \<and> g_size (s_grid s') = g_size (s_grid s))"

lemma performs_simple:
  "screen_ok s \<Longrightarrow> performs s (calls cs s)"
  "keeps_screen f \<Longrightarrow> screen_ok s \<Longrightarrow> performs s (quiet (Some (f s)))"
  "safe_screen h \<Longrightarrow> screen_ok s \<Longrightarrow> performs s (quiet (h s))"
  by (auto simp: performs_def calls_def quiet_def keeps_screen_def safe_screen_def)

lemma performs_unhandled:
  "keeps_screen (\<lambda>s. fst (f s)) \<Longrightarrow> screen_ok s \<Longrightarrow> performs s (Some (unhandled c (f s)))"
  "safe_screen (\<lambda>s. map_option fst (h s)) \<Longrightarrow> screen_ok s \<Longrightarrow> performs s (map_option (unhandled c) (h s))"
  by (force simp: performs_def unhandled_def keeps_screen_def safe_screen_def)+

lemma performs_same: "screen_ok s \<Longrightarrow> performs s (quiet (Some s))"
  by (simp add: performs_def quiet_def)

lemmas performs_intros = performs_simple(1) performs_same
  keeps_moves [THEN performs_simple(2)] keeps_ris [THEN performs_simple(2)]
  safe_operations [THEN performs_simple(3)] safe_erasing(1) [THEN performs_simple(3)]
  keeps_sgr [THEN performs_unhandled(1)] keeps_decset [THEN performs_unhandled(1)]
  safe_erasing(2,3) [THEN performs_unhandled(2)]

lemma performs_if: "(b \<Longrightarrow> performs s x) \<Longrightarrow> (\<not> b \<Longrightarrow> performs s y) \<Longrightarrow> performs s (if b then x else y)"
  by simp

lemma perform_execute_ok: "screen_ok s \<Longrightarrow> performs s (perform_execute b s)"
  unfolding perform_execute_def by (intro performs_if performs_intros)

lemma esc_dispatch_ok: "screen_ok s \<Longrightarrow> performs s (esc_dispatch i b s)"
  unfolding esc_dispatch_def by (cases i; simp only: list.case; intro performs_if performs_intros)

lemma csi_plain_ok: "screen_ok s \<Longrightarrow> performs s (csi_plain ps c s)"
  unfolding csi_plain_def csi_window_def Let_def by (intro performs_if performs_intros)

lemma csi_dispatch_ok: "screen_ok s \<Longrightarrow> performs s (csi_dispatch ps i c s)"
  unfolding csi_dispatch_def csi_private_def Let_def decsed_def decsel_def
  by (cases i; simp only: list.case; intro performs_if performs_intros csi_plain_ok)

lemma osc_dispatch_ok: "screen_ok s \<Longrightarrow> performs s (osc_dispatch ps s)"
  unfolding osc_dispatch_def by (cases ps; simp only: list.case; intro performs_if performs_intros)

lemma perform_print_ok:
  "screen_ok s \<Longrightarrow> roomy s \<Longrightarrow> is_scalar c \<Longrightarrow> widths_ok table \<Longrightarrow> performs s (perform_print table c s)"
  using screen_text_ok [of s c table] by (auto simp: perform_print_def calls_def quiet_def performs_def)

lemma perform_ok:
  assumes "screen_ok s" and "roomy s" and "event_ok e" and "widths_ok table"
  shows "performs s (perform table e s)"
proof -
  have "performs s (Some (s, []))" using assms(1) by (simp add: performs_def)
  then show ?thesis
    using assms
    by (cases e) (auto intro: perform_print_ok perform_execute_ok esc_dispatch_ok csi_dispatch_ok osc_dispatch_ok)
qed

lemma perform_all_ok:
  assumes "screen_ok s" and "roomy s" and "list_all event_ok es" and "widths_ok table"
  shows "performs s (perform_all table es s)"
  using assms
proof (induction es arbitrary: s)
  case Nil
  then show ?case by (simp add: performs_def)
next
  case (Cons e es)
  then obtain s1 cs where s1: "perform table e s = Some (s1, cs)" "screen_ok s1" "g_size (s_grid s1) = g_size (s_grid s)"
    using perform_ok [of s e table] by (auto simp: performs_def)
  then have "performs s1 (perform_all table es s1)" using Cons by (intro Cons.IH) (simp_all add: roomy_def)
  with s1 show ?case by (auto simp: performs_def)
qed

text \<open>C9: On a well-formed screen of at least two rows and two columns, no sequence of printed characters, control
  codes, escape sequences, CSI sequences or OSC strings makes the terminal panic. Afterwards the screen is
  well-formed again (the cursor and the scroll region are inside the grid, every row has the width of the screen,
  every cell holds valid UTF-8 and the two halves of a wide character stand side by side) and its size has not
  changed.\<close>

theorem terminal_never_panics:
  assumes "screen_ok s" and "roomy s" and "list_all event_ok es" and "widths_ok table"
  shows "\<exists>s' cs. perform_all table es s = Some (s', cs) \<and> screen_ok s' \<and> screen_size s' = screen_size s"
  using perform_all_ok [OF assms] screen_ok_grid(2) assms(1) by (auto simp: performs_def screen_size_def)

definition demo_widths :: width_table
  where "demo_widths c = (if c < 0x20 then None else if c < 0x1100 then Some 1 else Some 2)"

lemma widths_ok_demo: "widths_ok demo_widths"
  by (auto simp: widths_ok_def table_ok_def demo_widths_def split: if_splits)

definition demo_events :: "vte_event list"
  where "demo_events =
    [Print 0x4e2d, Print 0x61, Execute 8, Print 0x4e2d, CsiDispatch [[3], [7]] [] False (letter CHR ''H''),
     CsiDispatch [[1049]] [of_char CHR ''?''] False (letter CHR ''h''), EscDispatch [] False (of_char CHR ''M''),
     OscDispatch [ascii ''2'', ascii ''title''] True, CsiDispatch [] [] False (letter CHR ''J'')]"

lemma demo_events_ok: "list_all event_ok demo_events"
  by (simp add: demo_events_def is_scalar_def)

lemma roomy_new: "2 \<le> size_rows sz \<Longrightarrow> 2 \<le> size_cols sz \<Longrightarrow> roomy (Screen_new sz n)"
  by (simp add: roomy_def Screen_new_def allocate_rows_def Grid_new_def)

theorem terminal_never_panics_witness:
  "\<exists>s' cs. perform_all demo_widths demo_events (Screen_new \<lparr> size_rows = 2, size_cols = 3 \<rparr> 0) = Some (s', cs)
     \<and> screen_ok s' \<and> screen_size s' = screen_size (Screen_new \<lparr> size_rows = 2, size_cols = 3 \<rparr> 0)"
  by (rule terminal_never_panics [OF screen_ok_new(1) roomy_new demo_events_ok widths_ok_demo])
    (simp_all add: size_ok_def)

section \<open>Where printing does panic\<close>

text \<open>A wide character does not fit on a screen of one column; on a screen of one row the row before the cursor does not
  exist when a line wraps. Both sizes pass \<open>checked_size\<close> of \<open>src/terminal/state.rs\<close>. Fewer columns may cut a wide
  character in two, and the half that is left panics when it is overwritten.\<close>

definition row_lengths :: "Grid \<Rightarrow> nat list"
  where "row_lengths g = map (\<lambda>r. length (row_cells r)) (g_rows g)"

lemma with_row_frame:
  assumes "with_row i f g = Some g'" and "\<And>r r'. f r = Some r' \<Longrightarrow> length (row_cells r') = length (row_cells r)"
  shows "g_pos g' = g_pos g \<and> row_lengths g' = row_lengths g"
proof -
  obtain r r' where r: "drawing_row g i = Some r" "f r = Some r'" "g' = g\<lparr> g_rows := (g_rows g)[i := r'] \<rparr>"
    using assms(1) by (auto simp: with_row_def split: Option.bind_splits)
  then have "i < length (g_rows g)" "g_rows g ! i = r" by (auto simp: drawing_row_def at_def split: if_splits)
  with r(3) assms(2) [OF r(2)] show ?thesis by (simp add: row_lengths_def map_update list_update_same_conv)
qed

lemma with_cell_frame: "with_cell pos f g = Some g' \<Longrightarrow> g_pos g' = g_pos g \<and> row_lengths g' = row_lengths g"
  unfolding with_cell_def by (rule with_row_frame) (auto split: Option.bind_splits)

lemma bind_NoneI: "(\<And>x. m = Some x \<Longrightarrow> f x = None) \<Longrightarrow> Option.bind m f = None"
  by (cases m) simp_all

lemma second_half_outside:
  assumes "\<forall>n \<in> set (row_lengths g). n \<le> cursor_col g"
  shows "second_half a g = None"
proof -
  have "drawing_cell g (g_pos g) = None"
    using assms nth_mem [of "cursor_row g" "g_rows g"]
    by (fastforce simp: drawing_cell_def drawing_row_def at_def row_get_def row_lengths_def not_less)
  then show ?thesis by (simp add: second_half_def Let_def)
qed

lemma draw_wide_at_edge:
  assumes edge: "\<forall>n \<in> set (row_lengths g). n \<le> Suc (cursor_col g)" and col: "cursor_col g < 65535" and "width > 1"
  shows "draw_character table ch width a g = None"
  unfolding draw_character_def Let_def
proof (intro bind_NoneI)
  fix c1 g1 c2 g2 g3
  assume "(if is_wide_continuation c1
      then with_cell ((g_pos g)\<lparr> pos_col := sub16 (cursor_col g) 1 \<rparr>) (\<lambda>c. Some (cell_clear a c)) g else Some g) = Some g1"
    and "(if is_wide c2 then with_cell ((g_pos g)\<lparr> pos_col := add16 (cursor_col g) 1 \<rparr>) (cell_set table 0x20 a) g1 else Some g1) = Some g2"
    and "with_cell (g_pos g) (cell_set table ch a) g2 = Some g3"
  then have "g_pos g3 = g_pos g \<and> row_lengths g3 = row_lengths g"
    by (auto dest!: with_cell_frame split: if_splits)
  then have "row_lengths (col_inc 1 g3) = row_lengths g" "cursor_col (col_inc 1 g3) = Suc (cursor_col g)"
    using col by (simp_all add: row_lengths_def col_inc_def set_col_def saturating_add16_def)
  then have "second_half a (col_inc 1 g3) = None" using edge by (intro second_half_outside) simp
  then show "(if width > 1 then second_half a (col_inc 1 g3) else Some (col_inc 1 g3)) = None" using assms(3) by simp
qed

lemma draw_on_cut_wide:
  assumes "drawing_row g (cursor_row g) = Some r" and "length (row_cells r) = Suc (cursor_col g)"
    and "is_wide (row_cells r ! cursor_col g)" and "cell_ok (row_cells r ! cursor_col g)" and "cursor_col g < 65535"
  shows "draw_character table ch width a g = None"
proof -
  have cell: "drawing_cell g (g_pos g) = Some (row_cells r ! cursor_col g)"
    using assms(1,2) by (simp add: drawing_cell_def row_get_def at_def)
  have "\<not> is_wide_continuation (row_cells r ! cursor_col g)" using assms(3,4) cell_ok_flags by blast
  moreover have "with_cell ((g_pos g)\<lparr> pos_col := add16 (cursor_col g) 1 \<rparr>) f g = None" for f
    using assms(1,2,5) by (simp add: with_cell_def with_row_def row_get_def at_def add16_def)
  ultimately show ?thesis using assms(3) by (simp add: draw_character_def Let_def cell)
qed

lemma one_row_wrap:
  assumes "grid_ok g" and "rows_of g = 1" and "sub16 (cols_of g) width < cursor_col g"
  shows "col_wrap width wrap g = None"
proof -
  note f = grid_ok_frame [OF assms(1)]
  have at: "cursor_row g = 0" "g_scroll_top g = 0" "g_scroll_bottom g = 0" using f assms(2) by auto
  have g0: "grid_ok (set_col 0 g)" using assms(1) by (simp add: set_col_def grid_defs)
  obtain lines g1 where g1: "row_inc_scroll 1 (set_col 0 g) = Some (lines, g1)" "grid_ok g1" "g_size g1 = g_size (set_col 0 g)"
    by (rule row_inc_scroll_ok [OF g0])
  have lines: "lines = 1"
    using g1(1) at by (auto simp: row_inc_scroll_def in_scroll_region_def row_clamp_bottom_def set_col_def set_row_def
        saturating_add16_def sub16_def Let_def split: if_splits)
  have "length (g_rows g1) = 1" using grid_ok_frame(9) [OF g1(2)] g1(3) assms(2) by (simp add: set_col_def)
  then have "drawing_row g1 (sub16 0 1) = None" by (simp add: drawing_row_def at_def sub16_def)
  with assms(3) g1(1) lines at(1) show ?thesis by (simp add: col_wrap_def with_row_def)
qed

lemma screen_text_wrapped:
  assumes "char_width table ch = Some w" and "\<And>wrap. col_wrap w wrap (screen_grid s) = None"
  shows "screen_text table ch s = None"
  using assms by (simp add: screen_text_def Let_def try_grid_def split: Option.bind_split)

lemma screen_text_in_line:
  assumes "char_width table ch = Some w" and "w \<noteq> 0" and "cursor_col (screen_grid s) \<le> sub16 (cols_of (screen_grid s)) w"
    and "draw_character table ch w (s_attrs s) (screen_grid s) = None"
  shows "screen_text table ch s = None"
proof -
  have "screen_grid (on_grid (\<lambda>_. screen_grid s) s) = screen_grid s" by (simp add: screen_grid_def on_grid_def mode_def)
  with assms show ?thesis
    by (simp add: screen_text_def Let_def try_grid_def col_wrap_def split: Option.bind_split)
qed

lemma one_column_wide:
  assumes "screen_ok s" and "cols_of (screen_grid s) = 1" and "char_width table ch = Some w" and "2 \<le> w"
  shows "screen_text table ch s = None"
proof (cases "w < 65536")
  case True
  note g = screen_ok_grid(1) [OF assms(1)]
  have "\<forall>n \<in> set (row_lengths (screen_grid s)). n = 1"
    using grid_ok_frame(10) [OF g] assms(2) by (auto simp: row_lengths_def list_all_iff row_ok_def)
  then have "draw_character table ch w (s_attrs s) (screen_grid s) = None"
    using grid_ok_frame(4,6) [OF g] assms(2,4) by (intro draw_wide_at_edge) auto
  moreover have "cursor_col (screen_grid s) \<le> sub16 (cols_of (screen_grid s)) w"
    using grid_ok_frame(6) [OF g] assms(2,4) True by (simp add: sub16_def)
  ultimately show ?thesis using assms(3,4) by (intro screen_text_in_line) auto
qed (use assms(3) in \<open>simp add: screen_text_def Let_def\<close>)

lemma cut_wide_overwritten:
  assumes ok: "screen_ok s" "size_ok \<lparr> size_rows = r, size_cols = c \<rparr>" and cut: "c < cols_of (screen_grid s)" "cursor_row (screen_grid s) < r"
      "c \<le> Suc (cursor_col (screen_grid s))" "is_wide (row_cells (g_rows (screen_grid s) ! cursor_row (screen_grid s)) ! (c - 1))"
    and ch: "char_width table ch = Some 1"
  shows "screen_text table ch (screen_set_size r c s) = None"
proof -
  let ?g = "screen_grid s" and ?sz = "\<lparr> size_rows = r, size_cols = c \<rparr>"
  let ?q = "g_rows ?g ! cursor_row ?g" and ?h = "grid_set_size ?sz ?g"
  note g = screen_ok_grid(1) [OF ok(1)]
  note at = grid_ok_frame [OF g]
  have c: "1 \<le> c" "c < 65535" using ok(2) by (simp_all add: size_ok_def)
  have "?q \<in> set (g_rows ?g)" using at(5,9) by simp
  then have q: "row_ok (cols_of ?g) ?q" using at(10) by (simp add: list_all_iff)
  then have cell: "cell_ok (row_cells ?q ! (c - 1))" using cut(1) by (simp add: row_ok_def list_all_length)
  note f = grid_set_size_frame [OF _ ok(2), of ?g]
  have frame: "frame_ok ?g" using g by (simp add: grid_ok_def)
  let ?p = "row_resize c Cell_new (row_wrap False ?q)"
  have cursor: "cursor_row ?h = cursor_row ?g" "cursor_col ?h = c - 1" "cols_of ?h = c"
    using f(2,4,5) [OF frame] cut c by simp_all
  have row: "drawing_row ?h (cursor_row ?h) = Some ?p"
    using f(3) [OF frame] at(5,9) cut(1,2) cursor(1) by (simp add: drawing_row_def at_def nth_append)
  have p: "length (row_cells ?p) = c" "row_cells ?p ! (c - 1) = row_cells ?q ! (c - 1)"
    using q cut(1) c by (simp_all add: row_resize_def row_wrap_def row_ok_def)
  have "draw_character table ch 1 a ?h = None" for a
    using row p cell cut(4) cursor c by (intro draw_on_cut_wide [of _ ?p]) simp_all
  moreover have "screen_grid (screen_set_size r c s) = ?h" by (simp add: screen_grid_def screen_set_size_def mode_def)
  ultimately show ?thesis using cursor c by (intro screen_text_in_line [OF ch]) (simp_all add: sub16_def)
qed

text \<open>Two screens: a single cell that is filled, and a wide character behind a letter on three columns.\<close>

lemmas printing_defs = perform_print_def quiet_def calls_def screen_text_def Let_def Screen_new_def Grid_new_def
  allocate_rows_def screen_grid_def mode_def char_width_def in_ranges_def wide_overrides_def narrow_overrides_def
  demo_widths_def try_grid_def on_grid_def col_wrap_def draw_character_def second_half_def drawing_cell_def
  drawing_row_def at_def row_get_def Row_new_def with_cell_def with_row_def cell_set_def append_char_def set_wide_def
  Cell_new_def Pos_default_def col_inc_def set_col_def len_utf8_def encode_utf8_def copy_at_def is_wide_def
  is_wide_continuation_def cell_length_def has_contents_def Attrs_default_def cell_clear_def
  set_wide_continuation_def row_wrap_def row_inc_scroll_def in_scroll_region_def row_clamp_bottom_def set_row_def
  scroll_up_def vec_insert_def vec_remove_def new_row_def keep_scrollback_def saturating_add16_def sub16_def add16_def

lemma split_wide_state:
  obtains s where "perform_all demo_widths [Print 0x61, Print 0x4e2d] (Screen_new \<lparr> size_rows = 2, size_cols = 3 \<rparr> 0) = Some (s, [])"
    and "\<not> mode 0x08 s" and "g_pos (s_grid s) = \<lparr> pos_row = 0, pos_col = 3 \<rparr>"
    and "is_wide (row_cells (g_rows (s_grid s) ! 0) ! 1)"
  by (simp add: printing_defs)

lemma one_cell_filled:
  obtains s where "screen_text demo_widths 0x61 (Screen_new \<lparr> size_rows = 1, size_cols = 1 \<rparr> 0) = Some s" and "screen_ok s"
    and "rows_of (screen_grid s) = 1" and "cols_of (screen_grid s) = 1" and "cursor_col (screen_grid s) = 1"
proof -
  let ?s = "Screen_new \<lparr> size_rows = 1, size_cols = 1 \<rparr> 0"
  have ok: "screen_ok ?s" by (simp add: screen_ok_new size_ok_def)
  obtain g where g: "draw_character demo_widths 0x61 1 (s_attrs ?s) (screen_grid ?s) = Some g" "grid_ok g"
      "g_size g = g_size (screen_grid ?s)" "cursor_col g = cursor_col (screen_grid ?s) + 1"
    by (rule draw_character_ok [OF screen_ok_grid(1) [OF ok], of 1 "0x61" "s_attrs ?s" demo_widths])
       (use screen_ok_grid(3) [OF ok] widths_ok_demo char_width_ascii [OF widths_ok_demo, of "0x61"] in
         \<open>simp_all add: Screen_new_def screen_grid_def mode_def Grid_new_def allocate_rows_def Pos_default_def is_scalar_def\<close>)
  show thesis
  proof (rule that [of "on_grid (\<lambda>_. g) ?s"])
    show "screen_text demo_widths 0x61 ?s = Some (on_grid (\<lambda>_. g) ?s)"
      using g(1) char_width_ascii [OF widths_ok_demo, of "0x61"]
      by (simp add: screen_text_def Let_def try_grid_def col_wrap_def Screen_new_def screen_grid_def on_grid_def mode_def Grid_new_def
          allocate_rows_def Pos_default_def sub16_def)
    show "screen_ok (on_grid (\<lambda>_. g) ?s)" using on_grid_ok [OF ok g(2)] g(3) screen_ok_grid(2) [OF ok] by simp
  qed (use g(3,4) in \<open>simp_all add: Screen_new_def screen_grid_def on_grid_def mode_def Grid_new_def allocate_rows_def Pos_default_def\<close>)
qed

lemma split_wide_screen:
  obtains s where "perform_all demo_widths [Print 0x61, Print 0x4e2d] (Screen_new \<lparr> size_rows = 2, size_cols = 3 \<rparr> 0) = Some (s, [])"
    and "screen_ok s" and "cols_of (screen_grid s) = 3" and "cursor_row (screen_grid s) = 0" and "cursor_col (screen_grid s) = 3"
    and "is_wide (row_cells (g_rows (screen_grid s) ! 0) ! 1)"
proof -
  obtain s where s: "perform_all demo_widths [Print 0x61, Print 0x4e2d] (Screen_new \<lparr> size_rows = 2, size_cols = 3 \<rparr> 0) = Some (s, [])"
      "\<not> mode 0x08 s" "g_pos (s_grid s) = \<lparr> pos_row = 0, pos_col = 3 \<rparr>" "is_wide (row_cells (g_rows (s_grid s) ! 0) ! 1)"
    by (rule split_wide_state)
  have "screen_ok s \<and> g_size (s_grid s) = g_size (s_grid (Screen_new \<lparr> size_rows = 2, size_cols = 3 \<rparr> 0))"
    using perform_all_ok [OF screen_ok_new(1) roomy_new _ widths_ok_demo, of "\<lparr> size_rows = 2, size_cols = 3 \<rparr>"
        "[Print 0x61, Print 0x4e2d]"] s(1)
    by (simp add: performs_def size_ok_def is_scalar_def)
  with s show thesis
    by (intro that [of s]) (simp_all add: screen_grid_def screen_ok_new(2) size_ok_def)
qed

end
