(* ===== verification/Paint.thy ===== *)
theory Paint
  imports Screen
begin

text \<open>
  Writing a screen as escape codes: the painting methods of \<open>src/vt100/row.rs\<close>, \<open>src/vt100/grid.rs\<close> and
  \<open>src/vt100/screen.rs\<close>, and the plain text of a screen. The painting state of a row is a record:
  the bytes written so far, where the cursor and the attributes of the painted terminal are, a run
  of erased cells not yet written, and whether the next cell is the second half of a wide one.
  \<open>None\<close> is a panic (an index out of range, a failed \<open>unwrap\<close> or text that is not UTF-8).

  Shown here: a well-formed screen is painted without a panic, in full and relative to any
  well-formed screen of the same size, and a screen relative to itself is painted with no bytes.
\<close>

section \<open>The brush\<close>

record Brush =
  b_out :: bytes
  b_pos :: Pos
  b_attrs :: Attrs
  b_erase :: "(nat \<times> Attrs) option"
  b_prev_was_wide :: bool

definition emit :: "bytes \<Rightarrow> Brush \<Rightarrow> Brush"
  where "emit out b = b\<lparr> b_out := b_out b @ out \<rparr>"

definition move_to :: "Pos \<Rightarrow> Brush \<Rightarrow> Brush"
  where "move_to pos b = b\<lparr> b_pos := pos \<rparr>"

text \<open>\<open>if &prev_attrs != attrs { attrs.write_escape_code_diff(...); prev_attrs = *attrs }\<close>\<close>

definition use_attrs :: "itoa \<Rightarrow> Attrs \<Rightarrow> Brush \<Rightarrow> Brush option"
  where "use_attrs itoa a b =
    (if b_attrs b \<noteq> a
     then do { esc \<leftarrow> write_escape_code_diff itoa a (b_attrs b); Some ((emit esc b)\<lparr> b_attrs := a \<rparr>) }
     else Some b)"

definition cell_columns :: "Cell \<Rightarrow> nat"
  where "cell_columns c = (if is_wide c then 2 else 1)"

text \<open>Moving to the start of a run of erased cells; after a wrapped row the cursor still stands
  behind its last column, and printing is what brings it to the next row.\<close>

definition goto_erase :: "itoa \<Rightarrow> nat \<Rightarrow> nat \<Rightarrow> bool \<Rightarrow> nat \<Rightarrow> Brush \<Rightarrow> Brush"
  where "goto_erase itoa cols row wrapping prev_col b =
    (let new_pos = \<lparr> pos_row = row, pos_col = prev_col \<rparr> in
     move_to new_pos
       (if wrapping \<and> add16 (pos_row (b_pos b)) 1 = row \<and> pos_col (b_pos b) \<ge> cols
        then emit (if prev_col > 0 then replicate prev_col 0x20 else 0x20 # Backspace) b
        else emit (MoveFromTo itoa (b_pos b) new_pos) b))"

section \<open>Rows\<close>

definition paint_erased :: "itoa \<Rightarrow> nat \<Rightarrow> nat \<Rightarrow> bool \<Rightarrow> nat \<Rightarrow> Cell \<Rightarrow> Brush \<Rightarrow> Brush option"
  where "paint_erased itoa cols row wrapping col cell b =
    (case b_erase b of
       None \<Rightarrow> Some b
     | Some (prev_col, a) \<Rightarrow>
         if has_contents cell \<or> cell_attrs cell \<noteq> a then
           do {
             b1 \<leftarrow> use_attrs itoa a (goto_erase itoa cols row wrapping prev_col b);
             Some ((emit (EraseChar itoa (sub16 col prev_col)) b1)\<lparr> b_erase := None \<rparr>)
           }
         else Some b)"

definition paint_contents :: "itoa \<Rightarrow> nat \<Rightarrow> nat \<Rightarrow> bool \<Rightarrow> nat \<Rightarrow> Cell \<Rightarrow> Brush \<Rightarrow> Brush option"
  where "paint_contents itoa cols row wrapping col cell b =
    (let pos = \<lparr> pos_row = row, pos_col = col \<rparr>;
         b1 = (if pos \<noteq> b_pos b
               then move_to pos
                 (if \<not> wrapping \<or> add16 (pos_row (b_pos b)) 1 \<noteq> row
                     \<or> pos_col (b_pos b) < sub16 cols (if is_wide cell then 1 else 0) \<or> col \<noteq> 0
                  then emit (MoveFromTo itoa (b_pos b) pos) b else b)
               else b)
     in do {
          b2 \<leftarrow> use_attrs itoa (cell_attrs cell) b1;
          contents \<leftarrow> cell_bytes cell;
          Some (emit contents (move_to (\<lparr> pos_row = pos_row (b_pos b2),
                                          pos_col = add16 (pos_col (b_pos b2)) (cell_columns cell) \<rparr>) b2))
        })"

text \<open>The body of the loop over the cells, for a cell that stands where \<open>old\<close> stands on the terminal
  that is painted: the default cell in \<open>write_contents_formatted\<close>, the cell of the previous
  screen in \<open>write_contents_diff\<close>.\<close>

definition paint_cell :: "itoa \<Rightarrow> nat \<Rightarrow> nat \<Rightarrow> bool \<Rightarrow> nat \<times> Cell \<times> Cell \<Rightarrow> Brush \<Rightarrow> Brush option"
  where "paint_cell itoa cols row wrapping x b =
    (case x of (col, cell, old) \<Rightarrow>
       if b_prev_was_wide b then Some (b\<lparr> b_prev_was_wide := False \<rparr>)
       else if col \<ge> 65536 then None
       else
         do {
           b1 \<leftarrow> paint_erased itoa cols row wrapping col cell (b\<lparr> b_prev_was_wide := is_wide cell \<rparr>);
           if \<not> cell_eq cell old then
             if has_contents cell then paint_contents itoa cols row wrapping col cell b1
             else Some (if b_erase b1 = None then b1\<lparr> b_erase := Some (col, cell_attrs cell) \<rparr> else b1)
           else Some b1
         })"

definition paint_row_end :: "itoa \<Rightarrow> nat \<Rightarrow> nat \<Rightarrow> bool \<Rightarrow> Brush \<Rightarrow> Brush option"
  where "paint_row_end itoa cols row wrapping b =
    (case b_erase b of
       None \<Rightarrow> Some b
     | Some (prev_col, a) \<Rightarrow>
         do {
           b1 \<leftarrow> use_attrs itoa a (goto_erase itoa cols row wrapping prev_col b);
           Some (emit ClearRowForward b1)
         })"

definition paint_cells :: "itoa \<Rightarrow> nat \<Rightarrow> nat \<Rightarrow> bool \<Rightarrow> (nat \<times> Cell \<times> Cell) list \<Rightarrow> Brush \<Rightarrow> Brush option"
  where "paint_cells itoa cols row wrapping cells b =
    do {
      b1 \<leftarrow> fold_option (paint_cell itoa cols row wrapping) cells b;
      paint_row_end itoa cols row wrapping b1
    }"

definition window :: "nat \<Rightarrow> nat \<Rightarrow> 'a list \<Rightarrow> (nat \<times> 'a) list"
  where "window start width xs = take width (drop start (enumerate 0 xs))"

definition row_write_contents_formatted ::
    "itoa \<Rightarrow> Row \<Rightarrow> bytes \<Rightarrow> nat \<Rightarrow> nat \<Rightarrow> nat \<Rightarrow> bool \<Rightarrow> Pos option \<Rightarrow> Attrs option \<Rightarrow> (bytes \<times> Pos \<times> Attrs) option"
  where "row_write_contents_formatted itoa r contents start width row wrapping prev_pos prev_attrs =
    do {
      cols \<leftarrow> row_cols r;
      let pos = (case prev_pos of
           Some p \<Rightarrow> p
         | None \<Rightarrow> if wrapping then \<lparr> pos_row = sub16 row 1, pos_col = cols \<rparr> else \<lparr> pos_row = row, pos_col = start \<rparr>);
      let b = \<lparr> b_out = contents, b_pos = pos,
                b_attrs = (case prev_attrs of None \<Rightarrow> Attrs_default | Some a \<Rightarrow> a),
                b_erase = None, b_prev_was_wide = False \<rparr>;
      first_cell \<leftarrow> at (row_cells r) start;
      b1 \<leftarrow>
        (if wrapping \<and> cell_eq first_cell Cell_new then
           do {
             b1 \<leftarrow> use_attrs itoa Attrs_default b;
             Some (move_to \<lparr> pos_row = row, pos_col = 0 \<rparr> (emit ([0x20] @ Backspace @ EraseChar itoa 1) b1))
           }
         else Some b);
      b2 \<leftarrow> paint_cells itoa cols row wrapping
              (map (\<lambda>(col, cell). (col, cell, Cell_new)) (window start width (row_cells r))) b1;
      Some (b_out b2, b_pos b2, b_attrs b2)
    }"

text \<open>A row that continues on the next one, on a terminal where it did not: its first cell is printed again
  so that the painted terminal wraps.\<close>

definition paint_wrap_start ::
    "itoa \<Rightarrow> nat \<Rightarrow> nat \<Rightarrow> bool \<Rightarrow> bool \<Rightarrow> Cell \<Rightarrow> Cell \<Rightarrow> Brush \<Rightarrow> Brush option"
  where "paint_wrap_start itoa cols row wrapping prev_wrapping first_cell prev_first_cell b =
    (if wrapping \<and> \<not> prev_wrapping \<and> cell_eq first_cell prev_first_cell \<and> add16 (pos_row (b_pos b)) 1 = row
        \<and> pos_col (b_pos b) \<ge> sub16 cols (if is_wide prev_first_cell then 1 else 0)
     then
       do {
         b1 \<leftarrow> use_attrs itoa (cell_attrs first_cell) b;
         contents \<leftarrow> cell_bytes prev_first_cell;
         Some (move_to \<lparr> pos_row = row, pos_col = 0 \<rparr>
           (emit ((if contents = [] then [0x20] else contents) @ Backspace
              @ (if is_wide prev_first_cell then Backspace else [])
              @ (if contents = [] then EraseChar itoa 1 else [])) b1))
       }
     else Some b)"

definition paint_wrap_end :: "itoa \<Rightarrow> nat \<Rightarrow> Row \<Rightarrow> Row \<Rightarrow> Brush \<Rightarrow> Brush option"
  where "paint_wrap_end itoa row r prev b =
    (if row_wrapped r \<noteq> row_wrapped prev then
       do {
         cols \<leftarrow> row_cols r;
         last_cell \<leftarrow> at (row_cells r) (sub16 cols 1);
         let end_pos = \<lparr> pos_row = row, pos_col = (if is_wide_continuation last_cell then sub16 cols 2 else sub16 cols 1) \<rparr>;
         let b1 = move_to end_pos (emit (MoveFromTo itoa (b_pos b) end_pos) b);
         let b2 = (if \<not> row_wrapped r then emit (EraseChar itoa 1) b1 else b1);
         end_cell \<leftarrow> at (row_cells r) (pos_col end_pos);
         if has_contents end_cell then
           do {
             b3 \<leftarrow> use_attrs itoa (cell_attrs end_cell) b2;
             contents \<leftarrow> cell_bytes end_cell;
             Some (move_to (end_pos\<lparr> pos_col := add16 (pos_col end_pos) (cell_columns end_cell) \<rparr>) (emit contents b3))
           }
         else Some b2
       }
     else Some b)"

definition row_write_contents_diff ::
    "itoa \<Rightarrow> Row \<Rightarrow> bytes \<Rightarrow> Row \<Rightarrow> nat \<Rightarrow> nat \<Rightarrow> nat \<Rightarrow> bool \<Rightarrow> bool \<Rightarrow> Pos \<Rightarrow> Attrs \<Rightarrow> (bytes \<times> Pos \<times> Attrs) option"
  where "row_write_contents_diff itoa r contents prev start width row wrapping prev_wrapping prev_pos prev_attrs =
    do {
      cols \<leftarrow> row_cols r;
      let b = \<lparr> b_out = contents, b_pos = prev_pos, b_attrs = prev_attrs, b_erase = None, b_prev_was_wide = False \<rparr>;
      first_cell \<leftarrow> at (row_cells r) start;
      prev_first_cell \<leftarrow> at (row_cells prev) start;
      b1 \<leftarrow> paint_wrap_start itoa cols row wrapping prev_wrapping first_cell prev_first_cell b;
      b2 \<leftarrow> paint_cells itoa cols row wrapping (window start width (zip (row_cells r) (row_cells prev))) b1;
      b3 \<leftarrow> paint_wrap_end itoa row r prev b2;
      Some (b_out b3, b_pos b3, b_attrs b3)
    }"

section \<open>Grids\<close>

fun paint_rows_formatted ::
    "itoa \<Rightarrow> nat \<Rightarrow> (nat \<times> Row) list \<Rightarrow> bool \<Rightarrow> bytes \<times> Pos \<times> Attrs \<Rightarrow> (bytes \<times> Pos \<times> Attrs) option"
  where "paint_rows_formatted itoa cols [] wrapping s = Some s"
  | "paint_rows_formatted itoa cols ((i, r) # rs) wrapping (contents, prev_pos, prev_attrs) =
      (if i \<ge> 65536 then None
       else do {
         s \<leftarrow> row_write_contents_formatted itoa r contents 0 cols i wrapping (Some prev_pos) (Some prev_attrs);
         paint_rows_formatted itoa cols rs (row_wrapped r) s
       })"

fun paint_rows_diff ::
    "itoa \<Rightarrow> nat \<Rightarrow> (nat \<times> Row \<times> Row) list \<Rightarrow> bool \<Rightarrow> bool \<Rightarrow> bytes \<times> Pos \<times> Attrs \<Rightarrow> (bytes \<times> Pos \<times> Attrs) option"
  where "paint_rows_diff itoa cols [] wrapping prev_wrapping s = Some s"
  | "paint_rows_diff itoa cols ((i, r, prev) # rs) wrapping prev_wrapping (contents, prev_pos, prev_attrs) =
      (if i \<ge> 65536 then None
       else do {
         s \<leftarrow> row_write_contents_diff itoa r contents prev 0 cols i wrapping prev_wrapping prev_pos prev_attrs;
         paint_rows_diff itoa cols rs (row_wrapped r) (row_wrapped prev) s
       })"

definition move_from :: "itoa \<Rightarrow> Pos option \<Rightarrow> Pos \<Rightarrow> bytes"
  where "move_from itoa prev_pos pos =
    (case prev_pos of Some p \<Rightarrow> MoveFromTo itoa p pos | None \<Rightarrow> MoveTo itoa pos)"

text \<open>Printing the last character of a row again leaves the cursor behind the last column.\<close>

definition redraw_last :: "itoa \<Rightarrow> Pos option \<Rightarrow> Pos \<Rightarrow> Attrs \<Rightarrow> Cell \<Rightarrow> bytes option"
  where "redraw_last itoa prev_pos pos prev_attrs cell =
    do {
      esc \<leftarrow> write_escape_code_diff itoa (cell_attrs cell) prev_attrs;
      contents \<leftarrow> cell_bytes cell;
      back \<leftarrow> write_escape_code_diff itoa prev_attrs (cell_attrs cell);
      Some (move_from itoa prev_pos pos @ esc @ contents @ back)
    }"

text \<open>The position of the last character of row \<open>i\<close> and its cell.\<close>

definition last_drawn :: "Grid \<Rightarrow> nat \<Rightarrow> (Pos \<times> Cell) option"
  where "last_drawn g i =
    do {
      let pos = \<lparr> pos_row = i, pos_col = sub16 (cols_of g) 1 \<rparr>;
      c \<leftarrow> drawing_cell g pos;
      let pos = (if is_wide_continuation c then pos\<lparr> pos_col := sub16 (cols_of g) 2 \<rparr> else pos);
      cell \<leftarrow> drawing_cell g pos;
      Some (pos, cell)
    }"

text \<open>The search upwards for a row whose last column has contents; the result \<open>Some None\<close> is
  \<open>found == false\<close>.\<close>

fun find_end_above :: "itoa \<Rightarrow> Grid \<Rightarrow> Pos option \<Rightarrow> Attrs \<Rightarrow> nat list \<Rightarrow> bytes option option"
  where "find_end_above itoa g prev_pos prev_attrs [] = Some None"
  | "find_end_above itoa g prev_pos prev_attrs (i # is) =
      do {
        (pos, cell) \<leftarrow> last_drawn g i;
        if has_contents cell then
          do {
            esc \<leftarrow>
              (if (case prev_pos of Some p \<Rightarrow> pos_row p \<noteq> i \<or> pos_col p < cols_of g | None \<Rightarrow> True)
               then redraw_last itoa prev_pos pos prev_attrs cell else Some []);
            Some (Some (esc @ replicate (sub16 (cursor_row g) i) 0x0A))
          }
        else find_end_above itoa g prev_pos prev_attrs is
      }"

definition overwrite_end :: "itoa \<Rightarrow> Grid \<Rightarrow> Pos option \<Rightarrow> Attrs \<Rightarrow> bytes option"
  where "overwrite_end itoa g prev_pos prev_attrs =
    do {
      let pos = \<lparr> pos_row = cursor_row g, pos_col = sub16 (cols_of g) 1 \<rparr>;
      end_cell \<leftarrow> drawing_cell g pos;
      esc \<leftarrow> write_escape_code_diff itoa (cell_attrs end_cell) prev_attrs;
      back \<leftarrow> write_escape_code_diff itoa prev_attrs (cell_attrs end_cell);
      Some (move_from itoa prev_pos pos @ [0x20] @ esc @ SaveCursor @ Backspace @ EraseChar itoa 1 @ RestoreCursor @ back)
    }"

definition write_cursor_position_formatted :: "itoa \<Rightarrow> Grid \<Rightarrow> Pos option \<Rightarrow> Attrs option \<Rightarrow> bytes option"
  where "write_cursor_position_formatted itoa g prev_pos prev_attrs =
    (let prev_attrs = (case prev_attrs of None \<Rightarrow> Attrs_default | Some a \<Rightarrow> a) in
     if prev_pos \<noteq> Some (g_pos g) \<and> cursor_col g \<ge> cols_of g then
       do {
         (pos, cell) \<leftarrow> last_drawn g (cursor_row g);
         if has_contents cell then redraw_last itoa prev_pos pos prev_attrs cell
         else
           do {
             found \<leftarrow> find_end_above itoa g prev_pos prev_attrs (rev [0 ..< cursor_row g]);
             (case found of Some esc \<Rightarrow> Some esc | None \<Rightarrow> overwrite_end itoa g prev_pos prev_attrs)
           }
       }
     else Some (move_from itoa prev_pos (g_pos g)))"

definition grid_write_contents_formatted :: "itoa \<Rightarrow> Grid \<Rightarrow> bytes \<Rightarrow> (bytes \<times> Attrs) option"
  where "grid_write_contents_formatted itoa g contents =
    do {
      (out, prev_pos, prev_attrs) \<leftarrow>
        paint_rows_formatted itoa (cols_of g) (enumerate 0 (visible_rows g)) False
          (contents @ ClearAttrs @ ClearScreen, Pos_default, Attrs_default);
      esc \<leftarrow> write_cursor_position_formatted itoa g (Some prev_pos) (Some prev_attrs);
      Some (out @ esc, prev_attrs)
    }"

definition grid_write_contents_diff :: "itoa \<Rightarrow> Grid \<Rightarrow> bytes \<Rightarrow> Grid \<Rightarrow> Attrs \<Rightarrow> (bytes \<times> Attrs) option"
  where "grid_write_contents_diff itoa g contents prev prev_attrs =
    do {
      (out, prev_pos, prev_attrs) \<leftarrow>
        paint_rows_diff itoa (cols_of g) (enumerate 0 (zip (visible_rows g) (visible_rows prev))) False False
          (contents, g_pos prev, prev_attrs);
      esc \<leftarrow> write_cursor_position_formatted itoa g (Some prev_pos) (Some prev_attrs);
      Some (out @ esc, prev_attrs)
    }"

section \<open>Screens\<close>

definition reverse_video :: "Screen \<Rightarrow> bool" where "reverse_video s = mode MODE_REVERSE_VIDEO s"
definition hide_cursor :: "Screen \<Rightarrow> bool" where "hide_cursor s = mode MODE_HIDE_CURSOR s"

definition contents_formatted :: "itoa \<Rightarrow> Screen \<Rightarrow> bytes option"
  where "contents_formatted itoa s =
    do {
      (out, prev_attrs) \<leftarrow>
        grid_write_contents_formatted itoa (screen_grid s) (ReverseVideo (reverse_video s) @ HideCursor (hide_cursor s));
      esc \<leftarrow> write_escape_code_diff itoa (s_attrs s) prev_attrs;
      Some (out @ esc)
    }"

definition input_mode_formatted :: "Screen \<Rightarrow> bytes"
  where "input_mode_formatted s =
    ApplicationKeypad (mode MODE_APPLICATION_KEYPAD s) @ ApplicationCursor (mode MODE_APPLICATION_CURSOR s)
    @ BracketedPaste (mode MODE_BRACKETED_PASTE s) @ MouseProtocolMode_write (s_mouse_protocol_mode s) NoMouse
    @ MouseProtocolEncoding_write (s_mouse_protocol_encoding s) DefaultEncoding"

definition state_formatted :: "itoa \<Rightarrow> Screen \<Rightarrow> bytes option"
  where "state_formatted itoa s = map_option (\<lambda>out. out @ input_mode_formatted s) (contents_formatted itoa s)"

definition contents_diff :: "itoa \<Rightarrow> Screen \<Rightarrow> Screen \<Rightarrow> bytes option"
  where "contents_diff itoa s prev =
    do {
      (out, prev_attrs) \<leftarrow>
        grid_write_contents_diff itoa (screen_grid s)
          ((if reverse_video s \<noteq> reverse_video prev then ReverseVideo (reverse_video s) else [])
           @ (if hide_cursor s \<noteq> hide_cursor prev then HideCursor (hide_cursor s) else []))
          (screen_grid prev) (s_attrs prev);
      esc \<leftarrow> write_escape_code_diff itoa (s_attrs s) prev_attrs;
      Some (out @ esc)
    }"

definition mode_diff :: "(bool \<Rightarrow> bytes) \<Rightarrow> u8 \<Rightarrow> Screen \<Rightarrow> Screen \<Rightarrow> bytes"
  where "mode_diff write m s prev = (if mode m s \<noteq> mode m prev then write (mode m s) else [])"

definition input_mode_diff :: "Screen \<Rightarrow> Screen \<Rightarrow> bytes"
  where "input_mode_diff s prev =
    mode_diff ApplicationKeypad MODE_APPLICATION_KEYPAD s prev
    @ mode_diff ApplicationCursor MODE_APPLICATION_CURSOR s prev
    @ mode_diff BracketedPaste MODE_BRACKETED_PASTE s prev
    @ MouseProtocolMode_write (s_mouse_protocol_mode s) (s_mouse_protocol_mode prev)
    @ MouseProtocolEncoding_write (s_mouse_protocol_encoding s) (s_mouse_protocol_encoding prev)"

definition state_diff :: "itoa \<Rightarrow> Screen \<Rightarrow> Screen \<Rightarrow> bytes option"
  where "state_diff itoa s prev = map_option (\<lambda>out. out @ input_mode_diff s prev) (contents_diff itoa s prev)"

definition attributes_formatted :: "itoa \<Rightarrow> Screen \<Rightarrow> bytes option"
  where "attributes_formatted itoa s =
    map_option (\<lambda>esc. ClearAttrs @ esc) (write_escape_code_diff itoa (s_attrs s) Attrs_default)"

definition cursor_position :: "Screen \<Rightarrow> nat \<times> nat"
  where "cursor_position s = (cursor_row (screen_grid s), cursor_col (screen_grid s))"

definition cursor_state_formatted :: "itoa \<Rightarrow> Screen \<Rightarrow> bytes option"
  where "cursor_state_formatted itoa s =
    map_option (\<lambda>esc. HideCursor (hide_cursor s) @ esc) (write_cursor_position_formatted itoa (screen_grid s) None None)"

section \<open>Plain text\<close>

text \<open>The loop carries the text, the column behind what it has written and whether to skip a cell.\<close>

definition write_contents_cell :: "nat \<times> Cell \<Rightarrow> scalar list \<times> nat \<times> bool \<Rightarrow> (scalar list \<times> nat \<times> bool) option"
  where "write_contents_cell x st =
    (case x of (col, cell) \<Rightarrow> case st of (contents, prev_col, prev_was_wide) \<Rightarrow>
       if prev_was_wide then Some (contents, prev_col, False)
       else if col \<ge> 65536 then None
       else if has_contents cell then
         do {
           str \<leftarrow> cell_text cell;
           Some (contents @ replicate (sub16 col prev_col) 0x20 @ str,
                 add16 (add16 prev_col (sub16 col prev_col)) (cell_columns cell), is_wide cell)
         }
       else Some (contents, prev_col, is_wide cell))"

definition row_write_contents :: "Row \<Rightarrow> scalar list \<Rightarrow> nat \<Rightarrow> nat \<Rightarrow> bool \<Rightarrow> scalar list option"
  where "row_write_contents r contents start width wrapping =
    do {
      (str, prev_col, _) \<leftarrow> fold_option write_contents_cell (window start width (row_cells r)) (contents, start, False);
      Some (if prev_col = start \<and> wrapping then str @ [0x0A] else str)
    }"

fun write_text_rows :: "nat \<Rightarrow> Row list \<Rightarrow> bool \<Rightarrow> scalar list \<Rightarrow> scalar list option"
  where "write_text_rows cols [] wrapping contents = Some contents"
  | "write_text_rows cols (r # rs) wrapping contents =
      do {
        str \<leftarrow> row_write_contents r contents 0 cols wrapping;
        write_text_rows cols rs (row_wrapped r) (if row_wrapped r then str else str @ [0x0A])
      }"

definition grid_write_contents :: "Grid \<Rightarrow> scalar list \<Rightarrow> scalar list option"
  where "grid_write_contents g contents =
    map_option (\<lambda>str. rev (dropWhile (\<lambda>c. c = 0x0A) (rev str))) (write_text_rows (cols_of g) (visible_rows g) False contents)"

definition screen_contents :: "Screen \<Rightarrow> scalar list option"
  where "screen_contents s = grid_write_contents (screen_grid s) []"

definition screen_rows :: "Screen \<Rightarrow> nat \<Rightarrow> nat \<Rightarrow> scalar list option list"
  where "screen_rows s start width = map (\<lambda>r. row_write_contents r [] start width False) (visible_rows (screen_grid s))"

section \<open>Painting never panics\<close>

lemma diff_code_ok:
  assumes "attrs_ok a" and "attrs_ok c"
  shows "\<exists>out. write_escape_code_diff itoa a c = Some out"
  using apply_attrs_diff [OF assms] by (auto simp: write_escape_code_diff_def)

definition brush_ok :: "Brush \<Rightarrow> bool"
  where "brush_ok b \<longleftrightarrow> attrs_ok (b_attrs b) \<and> (case b_erase b of None \<Rightarrow> True | Some (c, a) \<Rightarrow> attrs_ok a)"

definition paints :: "(Brush \<Rightarrow> Brush option) \<Rightarrow> bool"
  where "paints f \<longleftrightarrow> (\<forall>b. brush_ok b \<longrightarrow> (\<exists>b'. f b = Some b' \<and> brush_ok b'))"

lemma paintsD: "paints f \<Longrightarrow> brush_ok b \<Longrightarrow> \<exists>b'. f b = Some b' \<and> brush_ok b'"
  by (simp add: paints_def)

lemma brush_ok_simps [simp]:
  "brush_ok (emit out b) = brush_ok b" "brush_ok (move_to pos b) = brush_ok b"
  "brush_ok (b\<lparr> b_prev_was_wide := w \<rparr>) = brush_ok b"
  by (simp_all add: brush_ok_def emit_def move_to_def)

lemma brush_simps [simp]:
  "b_attrs (emit out b) = b_attrs b" "b_erase (emit out b) = b_erase b" "b_pos (emit out b) = b_pos b"
  "b_out (emit out b) = b_out b @ out" "b_prev_was_wide (emit out b) = b_prev_was_wide b"
  "b_attrs (move_to pos b) = b_attrs b" "b_erase (move_to pos b) = b_erase b" "b_pos (move_to pos b) = pos"
  "b_out (move_to pos b) = b_out b" "b_prev_was_wide (move_to pos b) = b_prev_was_wide b"
  by (simp_all add: emit_def move_to_def)

lemma goto_erase_ok [simp]:
  "brush_ok (goto_erase itoa cols row w c b) = brush_ok b"
  by (simp add: goto_erase_def Let_def)

lemma use_attrs_ok:
  assumes "attrs_ok a" and "brush_ok b"
  shows "\<exists>b'. use_attrs itoa a b = Some b' \<and> brush_ok b' \<and> b_pos b' = b_pos b \<and> b_attrs b' = a"
proof -
  obtain out where "write_escape_code_diff itoa a (b_attrs b) = Some out"
    using diff_code_ok [OF assms(1)] assms(2) by (auto simp: brush_ok_def)
  then show ?thesis using assms by (auto simp: use_attrs_def brush_ok_def)
qed

lemma paints_erased: "paints (paint_erased itoa cols row w col cell)"
  unfolding paints_def
proof (intro allI impI)
  fix b
  assume b: "brush_ok b"
  show "\<exists>b'. paint_erased itoa cols row w col cell b = Some b' \<and> brush_ok b'"
  proof (cases "b_erase b")
    case (Some x)
    obtain c a where x: "x = (c, a)" by (cases x)
    have "attrs_ok a" using b Some x by (simp add: brush_ok_def)
    then obtain b1 where "use_attrs itoa a (goto_erase itoa cols row w c b) = Some b1" "brush_ok b1"
      using use_attrs_ok [of a "goto_erase itoa cols row w c b" itoa] b by auto
    then show ?thesis using Some x b by (auto simp: paint_erased_def brush_ok_def)
  qed (use b in \<open>simp add: paint_erased_def\<close>)
qed

lemma paints_contents: "cell_ok cell \<Longrightarrow> paints (paint_contents itoa cols row w col cell)"
  unfolding paints_def
proof (intro allI impI)
  fix b
  assume cell: "cell_ok cell" and b: "brush_ok b"
  let ?pos = "\<lparr> pos_row = row, pos_col = col \<rparr>"
  define b1 where "b1 = (if ?pos \<noteq> b_pos b
               then move_to ?pos
                 (if \<not> w \<or> add16 (pos_row (b_pos b)) 1 \<noteq> row
                     \<or> pos_col (b_pos b) < sub16 cols (if is_wide cell then 1 else 0) \<or> col \<noteq> 0
                  then emit (MoveFromTo itoa (b_pos b) ?pos) b else b)
               else b)"
  have "brush_ok b1" using b by (simp add: b1_def)
  then obtain b2 where "use_attrs itoa (cell_attrs cell) b1 = Some b2" "brush_ok b2"
    using use_attrs_ok [OF cell_ok_attrs [OF cell]] by blast
  then show "\<exists>b'. paint_contents itoa cols row w col cell b = Some b' \<and> brush_ok b'"
    by (simp add: paint_contents_def Let_def b1_def [symmetric] cell_ok_bytes [OF cell])
qed

lemma paints_cell:
  assumes "cell_ok cell" and "col < 65536"
  shows "paints (paint_cell itoa cols row w (col, cell, old))"
  unfolding paints_def
proof (intro allI impI)
  fix b
  assume b: "brush_ok b"
  obtain b1 where b1: "paint_erased itoa cols row w col cell (b\<lparr> b_prev_was_wide := is_wide cell \<rparr>) = Some b1" "brush_ok b1"
    using paintsD [OF paints_erased, of "b\<lparr> b_prev_was_wide := is_wide cell \<rparr>"] b by fastforce
  obtain b2 where "paint_contents itoa cols row w col cell b1 = Some b2" "brush_ok b2"
    using paintsD [OF paints_contents [OF assms(1)] b1(2)] by blast
  with b1 b assms(2) cell_ok_attrs [OF assms(1)]
  show "\<exists>b'. paint_cell itoa cols row w (col, cell, old) b = Some b' \<and> brush_ok b'"
    by (auto simp: paint_cell_def brush_ok_def)
qed

lemma paints_row_end: "paints (paint_row_end itoa cols row w)"
  unfolding paints_def
proof (intro allI impI)
  fix b
  assume b: "brush_ok b"
  show "\<exists>b'. paint_row_end itoa cols row w b = Some b' \<and> brush_ok b'"
  proof (cases "b_erase b")
    case (Some x)
    obtain c a where x: "x = (c, a)" by (cases x)
    have "attrs_ok a" using b Some x by (simp add: brush_ok_def)
    then obtain b1 where "use_attrs itoa a (goto_erase itoa cols row w c b) = Some b1" "brush_ok b1"
      using use_attrs_ok [of a "goto_erase itoa cols row w c b" itoa] b by auto
    then show ?thesis using Some x by (simp add: paint_row_end_def)
  qed (use b in \<open>simp add: paint_row_end_def\<close>)
qed

lemma paints_cells:
  assumes "\<And>x. x \<in> set xs \<Longrightarrow> fst x < 65536 \<and> cell_ok (fst (snd x))"
  shows "paints (paint_cells itoa cols row w xs)"
  unfolding paints_def
proof (intro allI impI)
  fix b
  assume b: "brush_ok b"
  obtain b1 where b1: "fold_option (paint_cell itoa cols row w) xs b = Some b1" "brush_ok b1"
  proof (rule fold_option_ok [of brush_ok b xs "paint_cell itoa cols row w"])
    show "\<exists>u. paint_cell itoa cols row w x t = Some u \<and> brush_ok u" if "x \<in> set xs" "brush_ok t" for x t
      using paints_cell [of "fst (snd x)" "fst x" itoa cols row w "snd (snd x)"] assms [OF that(1)] that(2)
      by (auto simp: paints_def)
  qed (use b in auto)
  show "\<exists>b'. paint_cells itoa cols row w xs b = Some b' \<and> brush_ok b'"
    using paintsD [OF paints_row_end b1(2)] b1(1) by (auto simp: paint_cells_def)
qed

lemma window_cells:
  assumes "row_ok n r" and "n < 65536" and "x \<in> set (window start width (row_cells r))"
  shows "fst x < 65536" and "cell_ok (snd x)"
  using assms row_okD(1,2) [OF assms(1)]
  by (auto simp: window_def in_set_enumerate_eq list_all_length dest!: in_set_takeD in_set_dropD)

lemma row_ok_cols: "row_ok n r \<Longrightarrow> n < 65536 \<Longrightarrow> row_cols r = Some n"
  by (simp add: row_cols_def row_ok_def)

lemma row_write_contents_formatted_ok:
  assumes r: "row_ok n r" "1 \<le> n" "n < 65536" and a: "attrs_ok a"
  shows "\<exists>out' p' a'. row_write_contents_formatted itoa r out 0 n row w (Some p) (Some a) = Some (out', p', a') \<and> attrs_ok a'"
proof -
  let ?b = "\<lparr> b_out = out, b_pos = p, b_attrs = a, b_erase = None, b_prev_was_wide = False \<rparr>"
  have b: "brush_ok ?b" using a by (simp add: brush_ok_def)
  obtain c where c: "at (row_cells r) 0 = Some c" using r row_okD(1) [OF r(1)] by (simp add: at_def)
  obtain b0 where b0: "use_attrs itoa Attrs_default ?b = Some b0" "brush_ok b0"
    using use_attrs_ok [OF attrs_ok_default b] by blast
  define b1 where "b1 = (if w \<and> cell_eq c Cell_new
      then move_to \<lparr> pos_row = row, pos_col = 0 \<rparr> (emit ([0x20] @ Backspace @ EraseChar itoa 1) b0) else ?b)"
  have b1: "brush_ok b1" using b b0 by (simp add: b1_def)
  let ?xs = "map (\<lambda>(col, cell). (col, cell, Cell_new)) (window 0 n (row_cells r))"
  have "fst x < 65536 \<and> cell_ok (fst (snd x))" if "x \<in> set ?xs" for x
    using that window_cells [OF r(1,3)] by fastforce
  then obtain b2 where b2: "paint_cells itoa n row w ?xs b1 = Some b2" "brush_ok b2"
    using paintsD [OF paints_cells b1] by blast
  have "row_write_contents_formatted itoa r out 0 n row w (Some p) (Some a) = Some (b_out b2, b_pos b2, b_attrs b2)"
    using c b0(1) b2(1)
    by (auto simp: row_write_contents_formatted_def row_ok_cols [OF r(1,3)] b1_def Let_def split: if_splits)
  with b2(2) show ?thesis by (simp add: brush_ok_def)
qed

lemma paints_wrap_start:
  assumes "cell_ok c" and "cell_ok d"
  shows "paints (paint_wrap_start itoa cols row w pw c d)"
  unfolding paints_def
proof (intro allI impI)
  fix b
  assume b: "brush_ok b"
  obtain b1 where "use_attrs itoa (cell_attrs c) b = Some b1" "brush_ok b1"
    using use_attrs_ok [OF cell_ok_attrs [OF assms(1)] b] by blast
  then show "\<exists>b'. paint_wrap_start itoa cols row w pw c d b = Some b' \<and> brush_ok b'"
    using b by (simp add: paint_wrap_start_def cell_ok_bytes [OF assms(2)])
qed

lemma last_columns:
  assumes "row_ok n r" and "1 \<le> n" and "n < 65536"
  obtains c k d where "at (row_cells r) (sub16 n 1) = Some c"
    and "k = (if is_wide_continuation c then sub16 n 2 else sub16 n 1)"
    and "at (row_cells r) k = Some d" and "cell_ok d"
proof -
  note r = row_okD [OF assms(1)]
  let ?c = "row_cells r ! (n - 1)"
  have c: "at (row_cells r) (sub16 n 1) = Some ?c" "cell_ok ?c"
    using assms r by (simp_all add: at_def sub16_def list_all_length)
  show thesis
  proof (cases "is_wide_continuation ?c")
    case True
    then have "halves (row_cells r) (n - 1) = RightHalf"
      using c(2) assms r(1) half_of_flags(2) by (simp add: halves_def)
    from paired_right [OF r(3) this] have "2 \<le> n" by auto
    then have "at (row_cells r) (sub16 n 2) = Some (row_cells r ! (n - 2))" "cell_ok (row_cells r ! (n - 2))"
      using assms r by (simp_all add: at_def sub16_def list_all_length)
    with True c(1) show thesis using that by simp
  next
    case False
    with c show thesis using that [OF c(1), of "sub16 n 1" ?c] by simp
  qed
qed

lemma paints_wrap_end:
  assumes "row_ok n r" and "1 \<le> n" and "n < 65536"
  shows "paints (paint_wrap_end itoa row r prev)"
  unfolding paints_def
proof (intro allI impI)
  fix b
  assume b: "brush_ok b"
  obtain c k d where c: "at (row_cells r) (sub16 n 1) = Some c"
      "k = (if is_wide_continuation c then sub16 n 2 else sub16 n 1)"
      "at (row_cells r) k = Some d" "cell_ok d"
    by (rule last_columns [OF assms])
  let ?pos = "\<lparr> pos_row = row, pos_col = k \<rparr>"
  define b1 where "b1 = move_to ?pos (emit (MoveFromTo itoa (b_pos b) ?pos) b)"
  define b2 where "b2 = (if \<not> row_wrapped r then emit (EraseChar itoa 1) b1 else b1)"
  have b2: "brush_ok b2" using b by (simp add: b2_def b1_def)
  obtain b3 where b3: "use_attrs itoa (cell_attrs d) b2 = Some b3" "brush_ok b3"
    using use_attrs_ok [OF cell_ok_attrs [OF c(4)] b2] by blast
  have "paint_wrap_end itoa row r prev b =
      (if row_wrapped r \<noteq> row_wrapped prev then
         if has_contents d
         then Some (move_to (?pos\<lparr> pos_col := add16 k (cell_columns d) \<rparr>) (emit (take (cell_length d) (cell_contents d)) b3))
         else Some b2
       else Some b)"
    by (simp only: paint_wrap_end_def row_ok_cols [OF assms(1,3)] bind.bind_lunit Let_def c(1) c(2) [symmetric]
        Pos.simps c(3) b1_def [symmetric] b2_def [symmetric] b3(1) cell_ok_bytes [OF c(4)])
  with b b2 b3 show "\<exists>b'. paint_wrap_end itoa row r prev b = Some b' \<and> brush_ok b'" by simp
qed

lemma row_write_contents_diff_ok:
  assumes r: "row_ok n r" "1 \<le> n" "n < 65536" and q: "row_ok n q" and a: "attrs_ok a"
  shows "\<exists>out' p' a'. row_write_contents_diff itoa r out q 0 n row w pw p a = Some (out', p', a') \<and> attrs_ok a'"
proof -
  let ?b = "\<lparr> b_out = out, b_pos = p, b_attrs = a, b_erase = None, b_prev_was_wide = False \<rparr>"
  have b: "brush_ok ?b" using a by (simp add: brush_ok_def)
  obtain c d where c: "at (row_cells r) 0 = Some c" "cell_ok c" "at (row_cells q) 0 = Some d" "cell_ok d"
    using r(2) row_okD(1,2) [OF r(1)] row_okD(1,2) [OF q] by (auto simp: at_def list_all_length)
  obtain b1 where b1: "paint_wrap_start itoa n row w pw c d ?b = Some b1" "brush_ok b1"
    using paintsD [OF paints_wrap_start [OF c(2,4)] b] by blast
  let ?xs = "window 0 n (zip (row_cells r) (row_cells q))"
  have cells: "i < 65536 \<and> cell_ok c" if "(i, c, d) \<in> set ?xs" for i c d
    using that r(3) row_okD(1,2) [OF r(1)]
    by (auto simp: window_def in_set_enumerate_eq list_all_length dest!: in_set_takeD)
  then have "fst x < 65536 \<and> cell_ok (fst (snd x))" if "x \<in> set ?xs" for x using that by (metis prod.collapse)
  then obtain b2 where b2: "paint_cells itoa n row w ?xs b1 = Some b2" "brush_ok b2"
    using paintsD [OF paints_cells b1(2)] by blast
  obtain b3 where "paint_wrap_end itoa row r q b2 = Some b3" "brush_ok b3"
    using paintsD [OF paints_wrap_end [OF r] b2(2)] by blast
  then show ?thesis
    using c b1(1) b2(1) by (simp add: row_write_contents_diff_def row_ok_cols [OF r(1,3)] brush_ok_def)
qed

lemma paint_rows_formatted_ok:
  assumes "\<And>x. x \<in> set rs \<Longrightarrow> fst x < 65536 \<and> row_ok n (snd x)" and "1 \<le> n" and "n < 65536" and "attrs_ok a"
  shows "\<exists>out' p' a'. paint_rows_formatted itoa n rs w (out, p, a) = Some (out', p', a') \<and> attrs_ok a'"
  using assms(1,4)
proof (induction rs arbitrary: w out p a)
  case (Cons x rs)
  obtain i r where x: "x = (i, r)" by (cases x)
  have r: "row_ok n r" "i < 65536" using Cons.prems(1) [of x] x by simp_all
  obtain out1 p1 a1 where 1: "row_write_contents_formatted itoa r out 0 n i w (Some p) (Some a) = Some (out1, p1, a1)" "attrs_ok a1"
    using row_write_contents_formatted_ok [OF r(1) assms(2,3) Cons.prems(2)] by blast
  from Cons.IH [OF _ 1(2)] Cons.prems(1)
  obtain out2 p2 a2 where "paint_rows_formatted itoa n rs (row_wrapped r) (out1, p1, a1) = Some (out2, p2, a2)" "attrs_ok a2"
    by (metis list.set_intros(2))
  then show ?case using x r 1(1) by simp
qed simp

lemma paint_rows_diff_ok:
  assumes "\<And>x. x \<in> set rs \<Longrightarrow> fst x < 65536 \<and> row_ok n (fst (snd x)) \<and> row_ok n (snd (snd x))"
    and "1 \<le> n" and "n < 65536" and "attrs_ok a"
  shows "\<exists>out' p' a'. paint_rows_diff itoa n rs w pw (out, p, a) = Some (out', p', a') \<and> attrs_ok a'"
  using assms(1,4)
proof (induction rs arbitrary: w pw out p a)
  case (Cons x rs)
  obtain i r q where x: "x = (i, r, q)" by (cases x)
  have r: "row_ok n r" "i < 65536" "row_ok n q" using Cons.prems(1) [of x] x by simp_all
  obtain out1 p1 a1 where 1: "row_write_contents_diff itoa r out q 0 n i w pw p a = Some (out1, p1, a1)" "attrs_ok a1"
    using row_write_contents_diff_ok [OF r(1) assms(2,3) r(3) Cons.prems(2)] by blast
  from Cons.IH [OF _ 1(2)] Cons.prems(1)
  obtain out2 p2 a2 where "paint_rows_diff itoa n rs (row_wrapped r) (row_wrapped q) (out1, p1, a1) = Some (out2, p2, a2)" "attrs_ok a2"
    by (metis list.set_intros(2))
  then show ?case using x r 1(1) by simp
qed simp

lemma last_drawn_ok:
  assumes "grid_ok g" and "i < rows_of g"
  obtains pos c where "last_drawn g i = Some (pos, c)" and "cell_ok c"
proof -
  note f = grid_ok_frame [OF assms(1)]
  let ?r = "g_rows g ! i"
  have r: "row_ok (cols_of g) ?r" "drawing_row g i = Some ?r"
    using assms(2) f by (simp_all add: list_all_length drawing_row_def at_def)
  have n: "cols_of g < 65536" using f(4) by simp
  obtain c k d where c: "at (row_cells ?r) (sub16 (cols_of g) 1) = Some c"
      "k = (if is_wide_continuation c then sub16 (cols_of g) 2 else sub16 (cols_of g) 1)"
      "at (row_cells ?r) k = Some d" "cell_ok d"
    by (rule last_columns [OF r(1) f(2) n])
  have "last_drawn g i = Some (\<lparr> pos_row = i, pos_col = k \<rparr>, d)"
    by (cases "is_wide_continuation c") (use c in \<open>simp_all only: last_drawn_def Let_def drawing_cell_def Pos.simps r(2)
        bind.bind_lunit row_get_def if_True if_False option.inject\<close>)
  then show thesis using that c(4) by simp
qed

lemma redraw_last_ok:
  assumes "cell_ok c" and "attrs_ok a"
  shows "\<exists>out. redraw_last itoa p pos a c = Some out"
  using diff_code_ok [OF cell_ok_attrs [OF assms(1)] assms(2), of itoa]
    diff_code_ok [OF assms(2) cell_ok_attrs [OF assms(1)], of itoa] cell_ok_bytes [OF assms(1)]
  by (auto simp: redraw_last_def)

lemma find_end_above_ok:
  assumes "grid_ok g" and "attrs_ok a" and "\<And>i. i \<in> set is \<Longrightarrow> i < rows_of g"
  shows "\<exists>found. find_end_above itoa g p a is = Some found"
  using assms(3)
proof (induction "is")
  case (Cons i js)
  obtain pos c where c: "last_drawn g i = Some (pos, c)" "cell_ok c"
    using last_drawn_ok [OF assms(1)] Cons.prems [of i] by auto
  show ?case using c redraw_last_ok [OF c(2) assms(2), of itoa p pos] Cons by auto
qed simp

lemma overwrite_end_ok:
  assumes "grid_ok g" and "attrs_ok a"
  shows "\<exists>out. overwrite_end itoa g p a = Some out"
proof -
  note f = grid_ok_frame [OF assms(1)]
  obtain H where H: "drawing (cursor_row g) H g" by (rule drawing_start [OF assms(1) f(5)])
  have "sub16 (cols_of g) 1 < cols_of g" using f by (simp add: sub16_def)
  then obtain c where c: "drawing_cell g \<lparr> pos_row = cursor_row g, pos_col = sub16 (cols_of g) 1 \<rparr> = Some c" "cell_ok c"
    by (rule drawing_cell_at [OF H])
  from diff_code_ok [OF cell_ok_attrs [OF c(2)] assms(2), of itoa] diff_code_ok [OF assms(2) cell_ok_attrs [OF c(2)], of itoa]
  show ?thesis by (auto simp only: overwrite_end_def Let_def c(1) bind.bind_lunit)
qed

lemma write_cursor_position_ok:
  assumes "grid_ok g" and "attrs_ok a"
  shows "\<exists>out. write_cursor_position_formatted itoa g p (Some a) = Some out"
proof -
  obtain pos c where c: "last_drawn g (cursor_row g) = Some (pos, c)" "cell_ok c"
    by (rule last_drawn_ok [OF assms(1) grid_ok_frame(5) [OF assms(1)]])
  obtain found where found: "find_end_above itoa g p a (rev [0 ..< cursor_row g]) = Some found"
    using find_end_above_ok [OF assms, of "rev [0 ..< cursor_row g]"] grid_ok_frame(5) [OF assms(1)] by auto
  show ?thesis
    using redraw_last_ok [OF c(2) assms(2), of itoa p pos] overwrite_end_ok [OF assms, of itoa p]
    by (auto simp: write_cursor_position_formatted_def c(1) found split: option.split)
qed

lemma visible_rows_ok: "grid_ok g \<Longrightarrow> visible_rows g = g_rows g"
  by (simp add: visible_rows_def grid_defs)

lemma grid_write_contents_formatted_ok:
  assumes "grid_ok g"
  shows "\<exists>out' a'. grid_write_contents_formatted itoa g out = Some (out', a') \<and> attrs_ok a'"
proof -
  note f = grid_ok_frame [OF assms]
  have "fst x < 65536 \<and> row_ok (cols_of g) (snd x)" if "x \<in> set (enumerate 0 (visible_rows g))" for x
    using that f by (auto simp: visible_rows_ok [OF assms] in_set_enumerate_eq list_all_length)
  from paint_rows_formatted_ok [OF this f(2) _ attrs_ok_default] f(4)
  obtain out1 p1 a1 where 1: "paint_rows_formatted itoa (cols_of g) (enumerate 0 (visible_rows g)) False
      (out @ ClearAttrs @ ClearScreen, Pos_default, Attrs_default) = Some (out1, p1, a1)" "attrs_ok a1"
    by fastforce
  then show ?thesis
    using write_cursor_position_ok [OF assms 1(2), of itoa "Some p1"] by (auto simp: grid_write_contents_formatted_def)
qed

lemma grid_write_contents_diff_ok:
  assumes "grid_ok g" and "grid_ok h" and "g_size h = g_size g" and "attrs_ok a"
  shows "\<exists>out' a'. grid_write_contents_diff itoa g out h a = Some (out', a') \<and> attrs_ok a'"
proof -
  note f = grid_ok_frame [OF assms(1)] and h = grid_ok_frame [OF assms(2)]
  have "i < 65536 \<and> row_ok (cols_of g) r \<and> row_ok (cols_of g) q"
    if "(i, r, q) \<in> set (enumerate 0 (zip (visible_rows g) (visible_rows h)))" for i r q
    using that f h assms(3)
    by (auto simp: visible_rows_ok [OF assms(1)] visible_rows_ok [OF assms(2)] in_set_enumerate_eq list_all_length)
  then have "fst x < 65536 \<and> row_ok (cols_of g) (fst (snd x)) \<and> row_ok (cols_of g) (snd (snd x))"
    if "x \<in> set (enumerate 0 (zip (visible_rows g) (visible_rows h)))" for x
    using that by (metis prod.collapse)
  from paint_rows_diff_ok [OF this f(2) _ assms(4)] f(4)
  obtain out1 p1 a1 where 1: "paint_rows_diff itoa (cols_of g) (enumerate 0 (zip (visible_rows g) (visible_rows h)))
      False False (out, g_pos h, a) = Some (out1, p1, a1)" "attrs_ok a1"
    by fastforce
  then show ?thesis
    using write_cursor_position_ok [OF assms(1) 1(2), of itoa "Some p1"] by (auto simp: grid_write_contents_diff_def)
qed

lemma state_formatted_ok:
  assumes "screen_ok s"
  shows "\<exists>out. state_formatted itoa s = Some out"
proof -
  obtain out a where "grid_write_contents_formatted itoa (screen_grid s) (ReverseVideo (reverse_video s) @ HideCursor (hide_cursor s))
      = Some (out, a)" "attrs_ok a"
    using grid_write_contents_formatted_ok [OF screen_ok_grid(1) [OF assms]] by blast
  then show ?thesis
    using diff_code_ok [OF screen_ok_grid(3) [OF assms], of a itoa] by (auto simp: state_formatted_def contents_formatted_def)
qed

lemma state_diff_ok:
  assumes "screen_ok s" and "screen_ok prev" and "screen_size s = screen_size prev"
  shows "\<exists>out. state_diff itoa s prev = Some out"
proof -
  note s = screen_ok_grid [OF assms(1)] and prev = screen_ok_grid [OF assms(2)]
  have "g_size (screen_grid prev) = g_size (screen_grid s)"
    using assms(3) by (simp add: screen_size_def)
  from grid_write_contents_diff_ok [OF s(1) prev(1) this prev(3), of itoa
      "(if reverse_video s \<noteq> reverse_video prev then ReverseVideo (reverse_video s) else [])
       @ (if hide_cursor s \<noteq> hide_cursor prev then HideCursor (hide_cursor s) else [])"]
  obtain out a where "grid_write_contents_diff itoa (screen_grid s)
      ((if reverse_video s \<noteq> reverse_video prev then ReverseVideo (reverse_video s) else [])
       @ (if hide_cursor s \<noteq> hide_cursor prev then HideCursor (hide_cursor s) else []))
      (screen_grid prev) (s_attrs prev) = Some (out, a)" "attrs_ok a"
    by blast
  then show ?thesis
    using diff_code_ok [OF s(3), of a itoa] by (auto simp: state_diff_def contents_diff_def)
qed

lemma row_write_contents_ok:
  assumes "row_ok n r" and "n < 65536"
  shows "\<exists>str. row_write_contents r out start width w = Some str"
proof -
  obtain st where "fold_option write_contents_cell (window start width (row_cells r)) (out, start, False) = Some st"
  proof (rule fold_option_ok [of "\<lambda>_. True" "(out, start, False)" "window start width (row_cells r)" write_contents_cell])
    fix x st
    assume "x \<in> set (window start width (row_cells r))"
    from window_cells [OF assms this] cell_ok_text
    show "\<exists>u. write_contents_cell x st = Some u \<and> True"
      by (cases x; cases st) (fastforce simp: write_contents_cell_def)
  qed auto
  then show ?thesis by (cases st) (simp add: row_write_contents_def)
qed

lemma screen_contents_ok:
  assumes "screen_ok s"
  shows "\<exists>str. screen_contents s = Some str"
proof -
  note g = screen_ok_grid(1) [OF assms] and f = grid_ok_frame [OF screen_ok_grid(1) [OF assms]]
  have "list_all (row_ok (cols_of (screen_grid s))) rs \<Longrightarrow> \<exists>str. write_text_rows (cols_of (screen_grid s)) rs w out = Some str"
    for rs w out
  proof (induction rs arbitrary: w out)
    case (Cons r rs)
    then obtain str where "row_write_contents r out 0 (cols_of (screen_grid s)) w = Some str"
      using row_write_contents_ok [of _ r] f(4) by fastforce
    with Cons show ?case by simp
  qed simp
  with f(10) show ?thesis by (simp add: screen_contents_def grid_write_contents_def visible_rows_ok [OF g])
qed

section \<open>An unchanged screen\<close>

lemma cell_eq_refl [simp]: "cell_eq c c"
  by (simp add: cell_eq_def)

lemma diff_code_same: "attrs_ok a \<Longrightarrow> write_escape_code_diff itoa a a = Some []"
  using apply_attrs_diff [of a a] by (auto simp: write_escape_code_diff_def TermAttrs_write_def)

lemma paint_same_cells:
  assumes "\<And>x. x \<in> set xs \<Longrightarrow> fst x < 65536 \<and> fst (snd x) = snd (snd x)" and "b_erase b = None"
  shows "\<exists>v. fold_option (paint_cell itoa cols row w) xs b = Some (b\<lparr> b_prev_was_wide := v \<rparr>)"
  using assms
proof (induction xs arbitrary: b)
  case Nil
  have "b = b\<lparr> b_prev_was_wide := b_prev_was_wide b \<rparr>" by simp
  then show ?case by (metis fold_option.simps(1))
next
  case (Cons x xs)
  obtain i c d where x: "x = (i, c, d)" by (cases x)
  with Cons.prems(1) [of x] have "i < 65536" "d = c" by simp_all
  then have "paint_cell itoa cols row w x b = Some (b\<lparr> b_prev_was_wide := \<not> b_prev_was_wide b \<and> is_wide c \<rparr>)"
    using Cons.prems(2) by (cases "b_prev_was_wide b") (simp_all add: paint_cell_def paint_erased_def x)
  then obtain v where "paint_cell itoa cols row w x b = Some (b\<lparr> b_prev_was_wide := v \<rparr>)" by blast
  with Cons.IH [of "b\<lparr> b_prev_was_wide := v \<rparr>"] Cons.prems show ?case by auto
qed

lemma row_write_contents_diff_same:
  assumes "row_ok n r" and "1 \<le> n" and "n < 65536"
  shows "row_write_contents_diff itoa r out r 0 n row w w p a = Some (out, p, a)"
proof -
  let ?b = "\<lparr> b_out = out, b_pos = p, b_attrs = a, b_erase = None, b_prev_was_wide = False \<rparr>"
  let ?xs = "window 0 n (zip (row_cells r) (row_cells r))"
  obtain c where c: "at (row_cells r) 0 = Some c" using assms row_okD(1) [OF assms(1)] by (simp add: at_def)
  have "i < 65536 \<and> c = d" if "(i, c, d) \<in> set ?xs" for i c d
    using that assms(3) row_okD(1) [OF assms(1)] by (auto simp: window_def in_set_enumerate_eq dest!: in_set_takeD)
  then have "fst x < 65536 \<and> fst (snd x) = snd (snd x)" if "x \<in> set ?xs" for x using that by (metis prod.collapse)
  from paint_same_cells [OF this, of ?xs ?b itoa n row w] obtain v where
    "fold_option (paint_cell itoa n row w) ?xs ?b = Some (?b\<lparr> b_prev_was_wide := v \<rparr>)" by auto
  moreover have "paint_wrap_start itoa n row w w c c ?b = Some ?b" by (auto simp: paint_wrap_start_def)
  ultimately show ?thesis
    by (simp add: row_write_contents_diff_def row_ok_cols [OF assms(1,3)] c paint_wrap_end_def
        paint_cells_def paint_row_end_def Let_def)
qed

lemma paint_rows_diff_same:
  assumes "\<And>x. x \<in> set rs \<Longrightarrow> fst x < 65536 \<and> row_ok n (fst (snd x)) \<and> snd (snd x) = fst (snd x)"
    and "1 \<le> n" and "n < 65536"
  shows "paint_rows_diff itoa n rs w w s = Some s"
  using assms(1)
proof (induction rs arbitrary: w s)
  case (Cons x rs)
  obtain i r q where x: "x = (i, r, q)" by (cases x)
  obtain out p a where s: "s = (out, p, a)" by (cases s)
  have "row_ok n r" "i < 65536" "q = r" using Cons.prems [of x] x by simp_all
  with Cons row_write_contents_diff_same [OF _ assms(2,3)] show ?case by (simp add: x s)
qed simp

text \<open>C38: Painting a well-formed screen never panics, neither in full nor relative to a previous screen of the same
  size; and when nothing has changed, the bytes that bring the terminal up to date are none.\<close>

theorem painting_total:
  assumes "screen_ok s" and "screen_ok prev" and "screen_size s = screen_size prev"
  shows "(\<exists>out. state_formatted itoa s = Some out) \<and> (\<exists>out. state_diff itoa s prev = Some out)
    \<and> state_diff itoa s s = Some []"
proof -
  note f = grid_ok_frame [OF screen_ok_grid(1) [OF assms(1)]]
  let ?g = "screen_grid s"
  have "i < 65536 \<and> row_ok (cols_of ?g) r \<and> q = r"
    if "(i, r, q) \<in> set (enumerate 0 (zip (visible_rows ?g) (visible_rows ?g)))" for i r q
    using that f by (auto simp: visible_rows_ok [OF screen_ok_grid(1) [OF assms(1)]] in_set_enumerate_eq list_all_length)
  then have "fst x < 65536 \<and> row_ok (cols_of ?g) (fst (snd x)) \<and> snd (snd x) = fst (snd x)"
    if "x \<in> set (enumerate 0 (zip (visible_rows ?g) (visible_rows ?g)))" for x using that by (metis prod.collapse)
  from paint_rows_diff_same [OF this f(2)] f(3,4,5)
  have "grid_write_contents_diff itoa ?g [] ?g (s_attrs s) = Some ([], s_attrs s)"
    by (simp add: grid_write_contents_diff_def write_cursor_position_formatted_def move_from_def MoveFromTo_def add16_def)
  then have "state_diff itoa s s = Some []"
    by (simp add: state_diff_def contents_diff_def diff_code_same [OF screen_ok_grid(3) [OF assms(1)]]
        input_mode_diff_def mode_diff_def MouseProtocolMode_write_def MouseProtocolEncoding_write_def)
  then show ?thesis using state_formatted_ok [OF assms(1)] state_diff_ok [OF assms] by simp
qed

definition demo_itoa :: itoa
  where "demo_itoa n = [0x30 + of_nat (n div 100 mod 10), 0x30 + of_nat (n div 10 mod 10), 0x30 + of_nat (n mod 10)]"

theorem painting_total_witness:
  "(\<exists>out. state_formatted demo_itoa (Screen_new \<lparr> size_rows = 24, size_cols = 80 \<rparr> 0) = Some out)
   \<and> (\<exists>out. state_diff demo_itoa (Screen_new \<lparr> size_rows = 24, size_cols = 80 \<rparr> 0)
          (set_mode 0x20 (Screen_new \<lparr> size_rows = 24, size_cols = 80 \<rparr> 0)) = Some out)
   \<and> state_diff demo_itoa (Screen_new \<lparr> size_rows = 24, size_cols = 80 \<rparr> 0)
        (Screen_new \<lparr> size_rows = 24, size_cols = 80 \<rparr> 0) = Some []"
proof -
  have new: "screen_ok (Screen_new \<lparr> size_rows = 24, size_cols = 80 \<rparr> 0)"
    by (rule screen_ok_new) (simp add: size_ok_def)
  have "screen_size (Screen_new \<lparr> size_rows = 24, size_cols = 80 \<rparr> 0) =
      screen_size (set_mode 0x20 (Screen_new \<lparr> size_rows = 24, size_cols = 80 \<rparr> 0))"
    by (simp add: screen_size_def screen_grid_def mode_def set_mode_def Screen_new_def)
  with painting_total [OF new keeps_screenD(1) [OF keeps_mode_bits(5) new]] show ?thesis by blast
qed

end
