(* ===== verification/Terminal_State.thy ===== *)
theory Terminal_State
  imports Perform Paint Terminal_Difference
begin

text \<open>
  The terminal state of the client, \<open>src/terminal/state.rs\<close>, and the painter of \<open>src/terminal/paint.rs\<close>.
  A state is an emulated screen with the last echo acknowledgement; a server difference is applied
  to it operation by operation, after the bytes have passed the budget of \<open>ScalarBudget\<close>. Results are
  \<open>(TerminalError + 'a) option\<close>: \<open>None\<close> is a panic. The crate \<open>vte\<close>, the width table and the decimal
  writer are parameters, gathered in a record.

  Shown here: applying a difference to a well-formed state of at least two rows and columns returns a
  well-formed state or an error and does not panic, as long as no resize leaves fewer than two rows or
  fewer columns than before; the echo acknowledgement only grows; and what panics without these conditions.
\<close>

section \<open>Results\<close>

definition try_then :: "('e + 'a) option \<Rightarrow> ('a \<Rightarrow> ('e + 'b) option) \<Rightarrow> ('e + 'b) option"
  where "try_then r f = (case r of None \<Rightarrow> None | Some (Inl e) \<Rightarrow> Some (Inl e) | Some (Inr x) \<Rightarrow> f x)"

lemma try_then_simps [simp]:
  "try_then None f = None" "try_then (Some (Inl e)) f = Some (Inl e)" "try_then (Some (Inr x)) f = f x"
  by (simp_all add: try_then_def)

section \<open>Sizes\<close>

definition checked_size :: "u32 \<Rightarrow> u32 \<Rightarrow> TerminalError + (nat \<times> nat)"
  where "checked_size columns rows =
    (let cells = unat columns * unat rows in
     if columns = 0 \<or> columns > MAX_TERMINAL_COLUMNS \<or> rows = 0 \<or> rows > MAX_TERMINAL_ROWS
        \<or> cells > MAX_TERMINAL_VISIBLE_CELLS
     then Inl InvalidTerminalSize
     else if unat rows \<ge> 65536 then Inl InvalidTerminalSize
     else if unat columns \<ge> 65536 then Inl InvalidTerminalSize
     else Inr (unat rows, unat columns))"

definition is_valid_size :: "u32 \<Rightarrow> u32 \<Rightarrow> bool"
  where "is_valid_size columns rows \<longleftrightarrow> (case checked_size columns rows of Inl _ \<Rightarrow> False | Inr _ \<Rightarrow> True)"

section \<open>The budget\<close>

abbreviation (input) VT100_CELL_CONTENT_BYTES :: nat where "VT100_CELL_CONTENT_BYTES \<equiv> 22"
abbreviation (input) MAX_BYTES_BEFORE_COMBINING_APPEND :: nat where "MAX_BYTES_BEFORE_COMBINING_APPEND \<equiv> 18"

record ScalarBudget =
  sb_scalars :: nat
  sb_utf8_bytes :: nat
  sb_prints :: nat
  sb_last_printed :: "scalar option"
  sb_error :: "TerminalError option"

definition ScalarBudget_default :: ScalarBudget
  where "ScalarBudget_default =
    \<lparr> sb_scalars = 0, sb_utf8_bytes = 0, sb_prints = 0, sb_last_printed = None, sb_error = None \<rparr>"

definition reset_cluster :: "ScalarBudget \<Rightarrow> ScalarBudget"
  where "reset_cluster b = b\<lparr> sb_scalars := 0, sb_utf8_bytes := 0 \<rparr>"

definition budget_print :: "width_table \<Rightarrow> scalar \<Rightarrow> ScalarBudget \<Rightarrow> ScalarBudget"
  where "budget_print table character b0 =
    (let b = b0\<lparr> sb_prints := sb_prints b0 + 1, sb_last_printed := Some character \<rparr> in
     case char_width table character of
       None \<Rightarrow> b\<lparr> sb_error := Some UnsupportedControl \<rparr>
     | Some width \<Rightarrow>
         if width = 0 then
           if sb_scalars b = 0 then b\<lparr> sb_error := Some TooManyScalarsInCell \<rparr>
           else if sb_scalars b = MAX_UNICODE_SCALARS_PER_CELL then b\<lparr> sb_error := Some TooManyScalarsInCell \<rparr>
           else if sb_utf8_bytes b \<ge> MAX_BYTES_BEFORE_COMBINING_APPEND then b\<lparr> sb_error := Some CellEncodingTooLarge \<rparr>
           else b\<lparr> sb_scalars := sb_scalars b + 1, sb_utf8_bytes := sb_utf8_bytes b + len_utf8 character \<rparr>
         else b\<lparr> sb_scalars := 1, sb_utf8_bytes := len_utf8 character \<rparr>)"

fun budget_event :: "width_table \<Rightarrow> vte_event \<Rightarrow> ScalarBudget \<Rightarrow> ScalarBudget"
  where "budget_event table (Print c) b = budget_print table c b"
  | "budget_event table (Execute _) b = reset_cluster b"
  | "budget_event table (Hook _ _ _ _) b = reset_cluster b"
  | "budget_event table (OscDispatch _ _) b = reset_cluster b"
  | "budget_event table (CsiDispatch _ _ _ action) b = (if action \<noteq> letter CHR ''m'' then reset_cluster b else b)"
  | "budget_event table (EscDispatch _ _ _) b = reset_cluster b"
  | "budget_event table (Put _) b = b"
  | "budget_event table Unhook b = b"

definition validate_host_bytes :: "'p vte \<Rightarrow> width_table \<Rightarrow> bytes \<Rightarrow> TerminalError + unit"
  where "validate_host_bytes V table input =
    (if from_utf8 input = None then Inl InvalidUtf8
     else
       let (p, events) = vte_advance V (vte_new V) input;
           budget = fold (budget_event table) events ScalarBudget_default;
           prints_before_sentinel = sb_prints budget;
           (_, sentinel) = vte_advance V p (ascii ''X'');
           budget = fold (budget_event table) sentinel budget
       in case sb_error budget of
            Some error \<Rightarrow> Inl error
          | None \<Rightarrow>
              if sb_prints budget \<noteq> prints_before_sentinel + 1 \<or> sb_last_printed budget \<noteq> Some (letter CHR ''X'')
              then Inl IncompleteSequence else Inr ())"

section \<open>Callbacks\<close>

definition is_suppressed_external_policy_sequence :: "u8 option \<Rightarrow> nat list list \<Rightarrow> scalar \<Rightarrow> bool"
  where "is_suppressed_external_policy_sequence intermediate params final_character \<longleftrightarrow>
    intermediate = Some (of_char CHR ''?'') \<and> length params = 1
    \<and> ((params ! 0 = [1001] \<or> params ! 0 = [1004] \<or> params ! 0 = [1015]) \<and> final_character = letter CHR ''l''
       \<or> params ! 0 = [1004] \<and> final_character = letter CHR ''h'')"

fun terminal_callback :: "Callback \<Rightarrow> TerminalError option \<Rightarrow> TerminalError option"
  where "terminal_callback (UnhandledChar _) e = Some UnsupportedCharacter"
  | "terminal_callback (UnhandledControl _) e = Some UnsupportedControl"
  | "terminal_callback (UnhandledEscape _ _ _) e = Some UnsupportedEscape"
  | "terminal_callback (UnhandledCsi i1 i2 params c) e =
      (if is_suppressed_external_policy_sequence i1 params c then e
       else Some (UnsupportedCsi i1 (map_option of_nat (Option.bind (at params 0) (\<lambda>p. at p 0))) c))"
  | "terminal_callback (UnhandledOsc _) e = Some UnsupportedOsc"
  | "terminal_callback _ e = e"

definition validate_cell :: "Screen \<Rightarrow> nat \<times> nat \<Rightarrow> (TerminalError + unit) option"
  where "validate_cell screen rc =
    (case screen_cell screen (fst rc) (snd rc) of
       None \<Rightarrow> Some (Inr ())
     | Some cell \<Rightarrow>
         do {
           cs \<leftarrow> cell_text cell;
           Some (if length cs > MAX_UNICODE_SCALARS_PER_CELL then Inl TooManyScalarsInCell else Inr ())
         })"

fun validate_cells :: "Screen \<Rightarrow> (nat \<times> nat) list \<Rightarrow> (TerminalError + unit) option"
  where "validate_cells screen [] = Some (Inr ())"
  | "validate_cells screen (rc # rcs) = try_then (validate_cell screen rc) (\<lambda>_. validate_cells screen rcs)"

definition validate_screen :: "Screen \<Rightarrow> (TerminalError + unit) option"
  where "validate_screen screen =
    (let (rows, columns) = screen_size screen in validate_cells screen (List.product [0 ..< rows] [0 ..< columns]))"

section \<open>The state\<close>

record TerminalState =
  ts_screen :: Screen
  ts_echo_acknowledgement :: "u64 option"

text \<open>The code outside the repository that the terminal calls.\<close>

record 'p terminal_env =
  env_vte :: "'p vte"
  env_widths :: width_table
  env_itoa :: itoa

definition TerminalState_new :: "u32 \<Rightarrow> u32 \<Rightarrow> TerminalError + TerminalState"
  where "TerminalState_new columns rows =
    (case checked_size columns rows of
       Inl e \<Rightarrow> Inl e
     | Inr (rows, columns) \<Rightarrow>
         Inr \<lparr> ts_screen = Screen_new \<lparr> size_rows = rows, size_cols = columns \<rparr> 0, ts_echo_acknowledgement = None \<rparr>)"

definition apply_host_bytes :: "('p, 'm) terminal_env_scheme \<Rightarrow> bytes \<Rightarrow> TerminalState \<Rightarrow> (TerminalError + TerminalState) option"
  where "apply_host_bytes E input ts =
    (case validate_host_bytes (env_vte E) (env_widths E) input of
       Inl e \<Rightarrow> Some (Inl e)
     | Inr _ \<Rightarrow>
         do {
           let (rows, columns) = screen_size (ts_screen ts);
           let parser = (Parser_new (env_vte E) rows columns 0)\<lparr> parser_screen := ts_screen ts \<rparr>;
           parser \<leftarrow> parser_process (env_vte E) (env_widths E) input parser;
           (case fold terminal_callback (parser_callbacks parser) None of
              Some error \<Rightarrow> Some (Inl error)
            | None \<Rightarrow>
                try_then (validate_screen (parser_screen parser))
                  (\<lambda>_. Some (Inr (ts\<lparr> ts_screen := parser_screen parser \<rparr>))))
         })"

definition apply_operation :: "('p, 'm) terminal_env_scheme \<Rightarrow> TerminalOperation \<Rightarrow> TerminalState \<Rightarrow> (TerminalError + TerminalState) option"
  where "apply_operation E operation next_state =
    (case operation of
       HostBytes input \<Rightarrow> apply_host_bytes E input next_state
     | Resize columns rows \<Rightarrow>
         (case checked_size columns rows of
            Inl e \<Rightarrow> Some (Inl e)
          | Inr (rows, columns) \<Rightarrow>
              Some (Inr (next_state\<lparr> ts_screen := screen_set_size rows columns (ts_screen next_state) \<rparr>)))
     | EchoAcknowledgement number \<Rightarrow>
         if (case ts_echo_acknowledgement next_state of None \<Rightarrow> False | Some current \<Rightarrow> number < current)
         then Some (Inl InvalidOperation)
         else Some (Inr (next_state\<lparr> ts_echo_acknowledgement := Some number \<rparr>)))"

fun apply_operations :: "('p, 'm) terminal_env_scheme \<Rightarrow> TerminalOperation list \<Rightarrow> TerminalState \<Rightarrow> (TerminalError + TerminalState) option"
  where "apply_operations E [] ts = Some (Inr ts)"
  | "apply_operations E (x # xs) ts = try_then (apply_operation E x ts) (apply_operations E xs)"

definition terminal_apply :: "('p, 'm) terminal_env_scheme \<Rightarrow> TerminalState \<Rightarrow> TerminalDifference \<Rightarrow> (TerminalError + TerminalState) option"
  where "terminal_apply E ts difference = apply_operations E (difference_operations difference) ts"

text \<open>\<open>debug_assert!\<close> is not compiled into a release build.\<close>

definition with_predicted_ascii :: "('p, 'm) terminal_env_scheme \<Rightarrow> u8 \<Rightarrow> TerminalState \<Rightarrow> (TerminalError + TerminalState) option"
  where "with_predicted_ascii E byte ts = apply_host_bytes E [byte] ts"

definition display_equivalent :: "('p, 'm) terminal_env_scheme \<Rightarrow> TerminalState \<Rightarrow> TerminalState \<Rightarrow> bool option"
  where "display_equivalent E ts other =
    do {
      a \<leftarrow> state_formatted (env_itoa E) (ts_screen ts);
      b \<leftarrow> state_formatted (env_itoa E) (ts_screen other);
      Some (a = b)
    }"

section \<open>The painter\<close>

definition INITIAL_PROFILE_POLICY_RESET :: bytes
  where "INITIAL_PROFILE_POLICY_RESET = private_mode (ascii ''1001'') False @ private_mode (ascii ''1004'') False @ private_mode (ascii ''1015'') False"

definition bounded :: "bytes \<Rightarrow> PaintError + bytes"
  where "bounded out = (if length out > MAX_OUTPUT_CHUNK_BYTES then Inl OutputTooLarge else Inr out)"

definition paint_full :: "('p, 'm) terminal_env_scheme \<Rightarrow> TerminalState \<Rightarrow> (PaintError + bytes) option"
  where "paint_full E ts =
    do {
      formatted \<leftarrow> state_formatted (env_itoa E) (ts_screen ts);
      Some (bounded (INITIAL_PROFILE_POLICY_RESET @ formatted))
    }"

definition paint_incremental :: "('p, 'm) terminal_env_scheme \<Rightarrow> TerminalState \<Rightarrow> TerminalState \<Rightarrow> (PaintError + bytes) option"
  where "paint_incremental E previous current =
    (if screen_size (ts_screen previous) \<noteq> screen_size (ts_screen current) then paint_full E current
     else map_option bounded (state_diff (env_itoa E) (ts_screen current) (ts_screen previous)))"

section \<open>Sizes are checked\<close>

lemma checked_size_eq:
  "checked_size columns rows =
     (if 1 \<le> unat columns \<and> unat columns \<le> 500 \<and> 1 \<le> unat rows \<and> unat rows \<le> 200
      then Inr (unat rows, unat columns) else Inl InvalidTerminalSize)"
proof -
  have nz: "x = 0 \<longleftrightarrow> \<not> 1 \<le> unat x" for x :: u32 by (simp add: unat_eq_0 [symmetric] Suc_le_eq)
  have gt: "500 < columns \<longleftrightarrow> \<not> unat columns \<le> 500" "200 < rows \<longleftrightarrow> \<not> unat rows \<le> 200"
    by (simp_all add: word_less_nat_alt not_le)
  have "unat columns * unat rows \<le> 100000" if "unat columns \<le> 500" "unat rows \<le> 200"
    using mult_le_mono [OF that] by simp
  then show ?thesis unfolding checked_size_def Let_def nz gt by auto
qed

text \<open>C39: A terminal size is accepted exactly when it has between 1 and 500 columns and between 1 and 200 rows; the
  conversion to 16 bits and the limit on the number of cells never reject a size on their own. A new terminal of
  an accepted size is well-formed.\<close>

theorem terminal_size_exact:
  "checked_size columns rows =
     (if 1 \<le> unat columns \<and> unat columns \<le> 500 \<and> 1 \<le> unat rows \<and> unat rows \<le> 200
      then Inr (unat rows, unat columns) else Inl InvalidTerminalSize)
   \<and> (case TerminalState_new columns rows of
        Inl e \<Rightarrow> e = InvalidTerminalSize \<and> \<not> is_valid_size columns rows
      | Inr ts \<Rightarrow> screen_ok (ts_screen ts) \<and> screen_size (ts_screen ts) = (unat rows, unat columns)
          \<and> is_valid_size columns rows \<and> ts_echo_acknowledgement ts = None)"
proof (cases "1 \<le> unat columns \<and> unat columns \<le> 500 \<and> 1 \<le> unat rows \<and> unat rows \<le> 200")
  case True
  let ?sz = "\<lparr> size_rows = unat rows, size_cols = unat columns \<rparr>"
  have new: "screen_ok (Screen_new ?sz 0)" "g_size (s_grid (Screen_new ?sz 0)) = ?sz"
    by (rule screen_ok_new; use True in \<open>simp add: size_ok_def\<close>)+
  then have "screen_size (Screen_new ?sz 0) = (unat rows, unat columns)"
    using screen_ok_grid(2) [OF new(1)] by (simp add: screen_size_def)
  with True new show ?thesis by (simp add: TerminalState_new_def checked_size_eq is_valid_size_def)
qed (auto simp: TerminalState_new_def checked_size_eq is_valid_size_def)

section \<open>Applying a difference\<close>

definition env_ok :: "('p, 'm) terminal_env_scheme \<Rightarrow> bool"
  where "env_ok E \<longleftrightarrow> vte_ok (env_vte E) \<and> widths_ok (env_widths E)"

lemma validate_cell_ok:
  assumes "screen_ok s"
  shows "\<exists>r. validate_cell s rc = Some r"
proof (cases "screen_cell s (fst rc) (snd rc)")
  case (Some c)
  note g = screen_ok_grid(1) [OF assms]
  have "cell_ok c"
    using Some grid_ok_frame(9,10) [OF g]
    by (auto simp: screen_cell_def visible_cell_def visible_rows_ok [OF g] at_def row_get_def list_all_length row_ok_def
        split: if_splits)
  then show ?thesis using cell_ok_text [of c] Some by (auto simp: validate_cell_def)
qed (simp add: validate_cell_def)

lemma validate_cells_ok: "screen_ok s \<Longrightarrow> \<exists>r. validate_cells s rcs = Some r"
proof (induction rcs)
  case (Cons rc rcs)
  then obtain r where "validate_cell s rc = Some r" using validate_cell_ok by blast
  with Cons show ?case by (cases r) auto
qed simp

lemma validate_screen_ok: "screen_ok s \<Longrightarrow> \<exists>r. validate_screen s = Some r"
  using validate_cells_ok by (simp add: validate_screen_def split: prod.split)

lemma apply_host_bytes_ok:
  assumes "env_ok E" and "screen_ok (ts_screen ts)" and "roomy (ts_screen ts)"
  shows "\<exists>r. apply_host_bytes E input ts = Some r
    \<and> (\<forall>ts'. r = Inr ts' \<longrightarrow> screen_ok (ts_screen ts') \<and> g_size (s_grid (ts_screen ts')) = g_size (s_grid (ts_screen ts))
         \<and> ts_echo_acknowledgement ts' = ts_echo_acknowledgement ts)"
proof (cases "validate_host_bytes (env_vte E) (env_widths E) input")
  case (Inr u)
  obtain q events where q: "vte_advance (env_vte E) (vte_new (env_vte E)) input = (q, events)"
    by (cases "vte_advance (env_vte E) (vte_new (env_vte E)) input")
  have "list_all event_ok events" using assms(1) q unfolding env_ok_def vte_ok_def by (metis snd_conv)
  then obtain s cs where s: "perform_all (env_widths E) events (ts_screen ts) = Some (s, cs)" "screen_ok s"
      "g_size (s_grid s) = g_size (s_grid (ts_screen ts))"
    using perform_all_ok [OF assms(2,3), of events "env_widths E"] assms(1) by (auto simp: env_ok_def performs_def)
  obtain v where v: "validate_screen s = Some v" using validate_screen_ok [OF s(2)] by blast
  have eq: "apply_host_bytes E input ts =
      (case fold terminal_callback cs None of Some e \<Rightarrow> Some (Inl e)
       | None \<Rightarrow> try_then (Some v) (\<lambda>_. Some (Inr (ts\<lparr> ts_screen := s \<rparr>))))"
    by (simp add: apply_host_bytes_def Inr parser_process_def Parser_new_def q s(1) v split: prod.split option.split)
  show ?thesis
    unfolding eq using s(2,3) by (cases "fold terminal_callback cs None"; cases v) auto
qed (simp add: apply_host_bytes_def)

lemma screen_set_size_ok:
  assumes "screen_ok s" and "size_ok \<lparr> size_rows = r, size_cols = c \<rparr>" and "cols_of (s_grid s) \<le> c"
  shows "screen_ok (screen_set_size r c s)"
    and "g_size (s_grid (screen_set_size r c s)) = \<lparr> size_rows = r, size_cols = c \<rparr>"
proof -
  let ?sz = "\<lparr> size_rows = r, size_cols = c \<rparr>"
  have whole: "\<not> splits_wide c q" if "q \<in> set (g_rows g)" "grid_ok g \<or> grid_unallocated g" "g_size g = g_size (s_grid s)" for g q
    using that assms(3) by (auto simp: splits_wide_def grid_unallocated_def grid_defs list_all_iff row_ok_def)
  have grids: "grid_ok (s_grid s)" "grid_ok (s_alternate_grid s) \<or> grid_unallocated (s_alternate_grid s)"
      "g_size (s_alternate_grid s) = g_size (s_grid s)" "attrs_ok (s_attrs s)" "attrs_ok (s_saved_attrs s)"
    using assms(1) by (auto simp: screen_ok_def)
  have "grid_ok (grid_set_size ?sz (s_grid s))" "grid_ok (grid_set_size ?sz (s_alternate_grid s))"
    using grids whole by (auto intro!: grid_set_size_ok [OF _ assms(2)])
  moreover have "g_size (grid_set_size ?sz (s_grid s)) = ?sz" "g_size (grid_set_size ?sz (s_alternate_grid s)) = ?sz"
    using grids grid_set_size_frame(2) [OF _ assms(2)] by (auto simp: grid_ok_def grid_unallocated_def)
  ultimately show "screen_ok (screen_set_size r c s)"
    and "g_size (s_grid (screen_set_size r c s)) = ?sz"
    using grids by (simp_all add: screen_ok_def screen_set_size_def)
qed

text \<open>No resize leaves fewer than two rows or fewer columns than there were.\<close>

fun growing :: "nat \<Rightarrow> TerminalOperation list \<Rightarrow> bool"
  where "growing cols [] \<longleftrightarrow> True"
  | "growing cols (Resize c r # xs) \<longleftrightarrow> 2 \<le> unat r \<and> cols \<le> unat c \<and> growing (unat c) xs"
  | "growing cols (_ # xs) \<longleftrightarrow> growing cols xs"

definition echo_le :: "u64 option \<Rightarrow> u64 option \<Rightarrow> bool"
  where "echo_le a b \<longleftrightarrow> (case a of None \<Rightarrow> True | Some m \<Rightarrow> (case b of None \<Rightarrow> False | Some n \<Rightarrow> m \<le> n))"

lemma echo_le_trans: "echo_le a b \<Longrightarrow> echo_le b c \<Longrightarrow> echo_le a c"
  by (auto simp: echo_le_def split: option.splits)

lemma echo_le_refl [simp]: "echo_le a a"
  by (simp add: echo_le_def split: option.split)

lemma apply_operation_ok:
  assumes "env_ok E" and "screen_ok (ts_screen ts)" and "roomy (ts_screen ts)" and "growing (cols_of (s_grid (ts_screen ts))) (x # xs)"
  shows "\<exists>r. apply_operation E x ts = Some r
    \<and> (\<forall>ts'. r = Inr ts' \<longrightarrow> screen_ok (ts_screen ts') \<and> roomy (ts_screen ts')
         \<and> growing (cols_of (s_grid (ts_screen ts'))) xs
         \<and> echo_le (ts_echo_acknowledgement ts) (ts_echo_acknowledgement ts'))"
proof (cases x)
  case (HostBytes input)
  with apply_host_bytes_ok [OF assms(1-3), of input] assms(2-4) show ?thesis
    by (auto simp: apply_operation_def roomy_def)
next
  case (Resize c r)
  show ?thesis
  proof (cases "1 \<le> unat c \<and> unat c \<le> 500 \<and> 1 \<le> unat r \<and> unat r \<le> 200")
    case True
    then have "size_ok \<lparr> size_rows = unat r, size_cols = unat c \<rparr>" by (simp add: size_ok_def)
    from screen_set_size_ok [OF assms(2) this] assms(2-4) Resize True show ?thesis
      by (auto simp: apply_operation_def checked_size_eq roomy_def)
  qed (auto simp: apply_operation_def checked_size_eq Resize)
next
  case (EchoAcknowledgement n)
  with assms(2-4) show ?thesis by (auto simp: apply_operation_def echo_le_def split: option.splits)
qed

lemma apply_operations_ok:
  assumes "env_ok E" and "screen_ok (ts_screen ts)" and "roomy (ts_screen ts)" and "growing (cols_of (s_grid (ts_screen ts))) xs"
  shows "\<exists>r. apply_operations E xs ts = Some r
    \<and> (\<forall>ts'. r = Inr ts' \<longrightarrow> screen_ok (ts_screen ts') \<and> roomy (ts_screen ts')
         \<and> echo_le (ts_echo_acknowledgement ts) (ts_echo_acknowledgement ts'))"
  using assms(2-4)
proof (induction xs arbitrary: ts)
  case (Cons x xs)
  obtain r where r: "apply_operation E x ts = Some r"
      "\<forall>ts'. r = Inr ts' \<longrightarrow> screen_ok (ts_screen ts') \<and> roomy (ts_screen ts')
         \<and> growing (cols_of (s_grid (ts_screen ts'))) xs
         \<and> echo_le (ts_echo_acknowledgement ts) (ts_echo_acknowledgement ts')"
    using apply_operation_ok [OF assms(1) Cons.prems] by blast
  show ?case
  proof (cases r)
    case (Inr ts1)
    with r(2) Cons.IH [of ts1] r(1) echo_le_trans show ?thesis by fastforce
  qed (use r(1) in simp)
qed simp

text \<open>C10: A difference in which no resize leaves fewer than two rows or fewer columns than there were is applied without a
  panic to every well-formed terminal state of at least two rows and two columns, whatever else the server put into it:
  the result is an error, or a well-formed state of at least two rows and columns whose echo acknowledgement is not
  below the previous one. Painting the result in full or relative to the state before does not panic either.\<close>

theorem terminal_apply_safe:
  assumes "env_ok E" and "screen_ok (ts_screen ts)" and "roomy (ts_screen ts)"
    and "growing (cols_of (s_grid (ts_screen ts))) (difference_operations d)"
  shows "\<exists>r. terminal_apply E ts d = Some r
    \<and> (case r of Inl e \<Rightarrow> True
       | Inr ts' \<Rightarrow> screen_ok (ts_screen ts') \<and> roomy (ts_screen ts')
           \<and> echo_le (ts_echo_acknowledgement ts) (ts_echo_acknowledgement ts')
           \<and> paint_full E ts' \<noteq> None \<and> paint_incremental E ts ts' \<noteq> None)"
proof -
  obtain r where r: "terminal_apply E ts d = Some r"
      "\<forall>ts'. r = Inr ts' \<longrightarrow> screen_ok (ts_screen ts') \<and> roomy (ts_screen ts')
         \<and> echo_le (ts_echo_acknowledgement ts) (ts_echo_acknowledgement ts')"
    using apply_operations_ok [OF assms] by (auto simp: terminal_apply_def)
  show ?thesis
  proof (cases r)
    case (Inr ts')
    with r have ok: "screen_ok (ts_screen ts')" by simp
    then have "paint_full E ts' \<noteq> None"
      using state_formatted_ok [OF ok, of "env_itoa E"] by (auto simp: paint_full_def)
    moreover from this have "paint_incremental E ts ts' \<noteq> None"
      using state_diff_ok [OF ok assms(2), of "env_itoa E"] by (auto simp: paint_incremental_def)
    ultimately show ?thesis using r Inr by simp
  qed (use r in simp)
qed

text \<open>A machine that prints every byte from 32 on and executes the others.\<close>

definition demo_vte :: "unit vte"
  where "demo_vte = \<lparr> vte_new = (),
     vte_advance = (\<lambda>_ input. ((), map (\<lambda>b. if b < 0x20 then Execute b else Print (unat b)) input)) \<rparr>"

definition demo_env :: "unit terminal_env"
  where "demo_env = \<lparr> env_vte = demo_vte, env_widths = demo_widths, env_itoa = demo_itoa \<rparr>"

lemma demo_env_ok: "env_ok demo_env"
proof -
  have "is_scalar (unat b)" for b :: u8
    using unsigned_less [of b, where ?'a = nat] by (simp add: is_scalar_def)
  then show ?thesis
    by (auto simp: env_ok_def demo_env_def widths_ok_demo vte_ok_def demo_vte_def list_all_iff)
qed

definition demo_state :: TerminalState
  where "demo_state = \<lparr> ts_screen = Screen_new \<lparr> size_rows = 24, size_cols = 80 \<rparr> 0, ts_echo_acknowledgement = Some 2 \<rparr>"

lemma demo_state_ok: "screen_ok (ts_screen demo_state)" "roomy (ts_screen demo_state)" "cols_of (s_grid (ts_screen demo_state)) = 80"
proof -
  show "screen_ok (ts_screen demo_state)" unfolding demo_state_def by (simp add: screen_ok_new size_ok_def)
  show "roomy (ts_screen demo_state)" unfolding demo_state_def by (simp add: roomy_new)
  show "cols_of (s_grid (ts_screen demo_state)) = 80" by (simp add: demo_state_def screen_ok_new(2) size_ok_def)
qed

theorem terminal_apply_safe_witness:
  "\<exists>r. terminal_apply demo_env demo_state
       \<lparr> difference_operations = [HostBytes [0x61, 0x62], Resize 90 30, HostBytes [0x0A], EchoAcknowledgement 7] \<rparr> = Some r
    \<and> (case r of Inl e \<Rightarrow> True
       | Inr ts' \<Rightarrow> screen_ok (ts_screen ts') \<and> roomy (ts_screen ts')
           \<and> echo_le (ts_echo_acknowledgement demo_state) (ts_echo_acknowledgement ts')
           \<and> paint_full demo_env ts' \<noteq> None \<and> paint_incremental demo_env demo_state ts' \<noteq> None)"
  by (rule terminal_apply_safe [OF demo_env_ok demo_state_ok(1,2)]) (simp add: demo_state_ok(3))

section \<open>Where the hypotheses are needed\<close>

text \<open>C37: The restriction of the safety theorems to two rows and columns and to resizes that do not shrink is necessary,
  for every width table. On every well-formed screen of one column, printing any character wider than one column
  panics. On every well-formed screen of one row, printing any character that does not fit right of the cursor panics,
  because the line wraps. After any resize to fewer columns that cuts a wide character in the row of the cursor, with
  the cursor on it or to its right, printing any character of width one panics. All these sizes are accepted.\<close>

theorem small_terminals_panic:
  assumes "screen_ok s"
  shows "(cols_of (screen_grid s) = 1 \<and> char_width table ch = Some w \<and> 2 \<le> w \<longrightarrow> screen_text table ch s = None)
   \<and> (rows_of (screen_grid s) = 1 \<and> char_width table ch = Some w \<and> w \<le> cols_of (screen_grid s)
        \<and> cols_of (screen_grid s) < cursor_col (screen_grid s) + w \<longrightarrow> screen_text table ch s = None)
   \<and> (char_width table ch = Some 1 \<and> is_valid_size columns rows \<and> unat columns < cols_of (screen_grid s)
        \<and> cursor_row (screen_grid s) < unat rows \<and> unat columns \<le> Suc (cursor_col (screen_grid s))
        \<and> is_wide (row_cells (g_rows (screen_grid s) ! cursor_row (screen_grid s)) ! (unat columns - 1)) \<longrightarrow>
        screen_text table ch (screen_set_size (unat rows) (unat columns) s) = None)"
proof -
  note g = screen_ok_grid(1) [OF assms]
  have "screen_text table ch s = None"
    if "rows_of (screen_grid s) = 1" "char_width table ch = Some w" "w \<le> cols_of (screen_grid s)"
      "cols_of (screen_grid s) < cursor_col (screen_grid s) + w"
    using that grid_ok_frame(4) [OF g] by (intro screen_text_wrapped [OF that(2)] one_row_wrap [OF g]) (auto simp: sub16_def)
  moreover have "size_ok \<lparr> size_rows = unat rows, size_cols = unat columns \<rparr>" if "is_valid_size columns rows"
    using that by (auto simp: is_valid_size_def checked_size_eq size_ok_def split: if_splits)
  ultimately show ?thesis
    by (intro conjI impI; elim conjE) (auto intro: one_column_wide [OF assms] cut_wide_overwritten [OF assms])
qed

theorem small_terminals_panic_witness:
  "screen_text demo_widths 0x4e2d (Screen_new \<lparr> size_rows = 24, size_cols = 1 \<rparr> 0) = None
   \<and> (\<exists>s. screen_text demo_widths 0x61 (Screen_new \<lparr> size_rows = 1, size_cols = 1 \<rparr> 0) = Some s \<and> screen_text demo_widths 0x61 s = None)
   \<and> (\<exists>s. perform_all demo_widths [Print 0x61, Print 0x4e2d] (Screen_new \<lparr> size_rows = 2, size_cols = 3 \<rparr> 0) = Some (s, [])
        \<and> screen_text demo_widths 0x61 (screen_set_size (unat (2 :: u32)) (unat (2 :: u32)) s) = None)"
proof (intro conjI)
  have a: "char_width demo_widths 0x61 = Some 1" by (rule char_width_ascii [OF widths_ok_demo]) simp_all
  have w: "char_width demo_widths 0x4e2d = Some 2" by (simp add: char_width_def in_ranges_def wide_overrides_def narrow_overrides_def demo_widths_def)
  have "screen_ok (Screen_new \<lparr> size_rows = 24, size_cols = 1 \<rparr> 0)" by (simp add: screen_ok_new size_ok_def)
  from small_terminals_panic [OF this, of demo_widths "0x4e2d" 2] w
  show "screen_text demo_widths 0x4e2d (Screen_new \<lparr> size_rows = 24, size_cols = 1 \<rparr> 0) = None"
    by (simp add: Screen_new_def screen_grid_def mode_def Grid_new_def allocate_rows_def)
  obtain s where s: "screen_text demo_widths 0x61 (Screen_new \<lparr> size_rows = 1, size_cols = 1 \<rparr> 0) = Some s" "screen_ok s"
      "rows_of (screen_grid s) = 1" "cols_of (screen_grid s) = 1" "cursor_col (screen_grid s) = 1"
    by (rule one_cell_filled)
  from small_terminals_panic [OF s(2), of demo_widths "0x61" 1] s a
  show "\<exists>s. screen_text demo_widths 0x61 (Screen_new \<lparr> size_rows = 1, size_cols = 1 \<rparr> 0) = Some s \<and> screen_text demo_widths 0x61 s = None"
    by auto
  obtain s where s: "perform_all demo_widths [Print 0x61, Print 0x4e2d] (Screen_new \<lparr> size_rows = 2, size_cols = 3 \<rparr> 0) = Some (s, [])"
      "screen_ok s" "cols_of (screen_grid s) = 3" "cursor_row (screen_grid s) = 0" "cursor_col (screen_grid s) = 3" "is_wide (row_cells (g_rows (screen_grid s) ! 0) ! 1)"
    by (rule split_wide_screen)
  have "is_valid_size 2 2" by (simp add: is_valid_size_def checked_size_eq)
  with small_terminals_panic [OF s(2), of demo_widths "0x61" 1 2 2] s a
  show "\<exists>s. perform_all demo_widths [Print 0x61, Print 0x4e2d] (Screen_new \<lparr> size_rows = 2, size_cols = 3 \<rparr> 0) = Some (s, [])
      \<and> screen_text demo_widths 0x61 (screen_set_size (unat (2 :: u32)) (unat (2 :: u32)) s) = None"
    by auto
qed

end
