(* ===== verification/Visible_Cells.thy ===== *)
theory Visible_Cells
  imports Terminal_State
begin

text \<open>
  The bound on the text of a cell. \<open>validate_screen\<close> of \<open>src/terminal/state.rs\<close> rejects a screen with more than
  eight characters in a visible cell. Shown here: it accepts exactly the screens whose cells are that small, every
  state that a server difference produces has this property, and a predicted character keeps it, so that
  \<open>with_predicted_ascii\<close> always succeeds.
\<close>

section \<open>Small cells\<close>

definition cell_small :: "Cell \<Rightarrow> bool"
  where "cell_small c \<longleftrightarrow> (\<exists>cs. cell_holds c cs \<and> length cs \<le> MAX_UNICODE_SCALARS_PER_CELL)"

definition row_small :: "Row \<Rightarrow> bool"
  where "row_small r \<longleftrightarrow> list_all cell_small (row_cells r)"

definition grid_small :: "Grid \<Rightarrow> bool"
  where "grid_small g \<longleftrightarrow> list_all row_small (g_rows g)"

lemma cell_small_new [simp]: "cell_small Cell_new"
  using cell_holds_new by (auto simp: cell_small_def)

lemma cell_small_ok: "cell_small c \<Longrightarrow> cell_ok c"
  by (auto simp: cell_small_def cell_ok_def)

lemma cell_small_clear: "cell_small c \<Longrightarrow> attrs_ok a \<Longrightarrow> cell_small (cell_clear a c)"
  using cell_holds_clear [OF cell_small_ok, of c a] unfolding cell_small_def by force

lemma cell_small_set: "cell_small c \<Longrightarrow> is_scalar ch \<Longrightarrow> attrs_ok a \<Longrightarrow> cell_set table ch a c = Some c' \<Longrightarrow> cell_small c'"
proof -
  assume "cell_small c" "is_scalar ch" "attrs_ok a" and c': "cell_set table ch a c = Some c'"
  then obtain d where "cell_set table ch a c = Some d" "cell_holds d [ch]"
    using cell_set_ok [OF cell_small_ok] by metis
  with c' show ?thesis unfolding cell_small_def by (intro exI [of _ "[ch]"]) simp
qed

lemma row_small_simps [simp]: "row_small (row_wrap w r) = row_small r" "row_small (Row_new n)"
  by (simp_all add: row_small_def row_wrap_def Row_new_def list_all_iff)

lemma row_small_resize: "row_small r \<Longrightarrow> row_small (row_resize n Cell_new r)"
  by (auto simp: row_small_def row_resize_def list_all_iff dest: in_set_takeD)

lemma grid_small_cursor [simp]:
  "grid_small (set_col c g) = grid_small g" "grid_small (set_row r g) = grid_small g" "grid_small (col_inc n g) = grid_small g"
  by (simp_all add: grid_small_def set_col_def set_row_def col_inc_def)

lemma grid_small_with_row:
  assumes "with_row i f g = Some g'" and "grid_small g" and "\<And>r r'. row_small r \<Longrightarrow> f r = Some r' \<Longrightarrow> row_small r'"
  shows "grid_small g'"
proof -
  obtain r r' where r: "drawing_row g i = Some r" "f r = Some r'" "g' = g\<lparr> g_rows := (g_rows g)[i := r'] \<rparr>"
    using assms(1) unfolding with_row_def by (auto split: Option.bind_splits)
  then have "row_small r" using assms(2) by (auto simp: drawing_row_def at_def grid_small_def list_all_length split: if_splits)
  then have "row_small r'" using assms(3) r(2) by blast
  then show ?thesis
    using assms(2) r(3) set_update_subset_insert [of "g_rows g" i r'] by (auto simp: grid_small_def list_all_iff)
qed

lemma grid_small_with_cell:
  assumes "with_cell p f g = Some g'" and "grid_small g" and "\<And>c c'. cell_small c \<Longrightarrow> f c = Some c' \<Longrightarrow> cell_small c'"
  shows "grid_small g'"
proof (rule grid_small_with_row [OF assms(1) [unfolded with_cell_def] assms(2)])
  fix r r' assume r: "row_small r"
    and "(do { c \<leftarrow> row_get r (pos_col p); c' \<leftarrow> f c; Some (r\<lparr> row_cells := (row_cells r)[pos_col p := c'] \<rparr>) }) = Some r'"
  then obtain c c' where c: "row_get r (pos_col p) = Some c" "f c = Some c'" "r' = r\<lparr> row_cells := (row_cells r)[pos_col p := c'] \<rparr>"
    by (auto split: Option.bind_splits)
  then have "cell_small c" using r by (auto simp: row_get_def at_def row_small_def list_all_length split: if_splits)
  then have "cell_small c'" using assms(3) c(2) by blast
  then show "row_small r'"
    using r c(3) set_update_subset_insert [of "row_cells r" "pos_col p" c'] by (auto simp: row_small_def list_all_iff)
qed

section \<open>Printing\<close>

lemma vec_insert_set: "vec_insert i x xs = Some ys \<Longrightarrow> set ys \<subseteq> insert x (set xs)"
  by (auto simp: vec_insert_def split: if_splits dest: in_set_takeD in_set_dropD)

lemma vec_remove_set: "vec_remove i xs = Some ys \<Longrightarrow> set ys \<subseteq> set xs"
  by (auto simp: vec_remove_def split: if_splits dest: in_set_takeD in_set_dropD)

lemma fold_option_keeps:
  assumes "fold_option f xs s = Some s'" and "P s" and "\<And>x s s'. f x s = Some s' \<Longrightarrow> P s \<Longrightarrow> P s'"
  shows "P s'"
  using assms(1,2) by (induction xs arbitrary: s) (auto split: Option.bind_splits intro: assms(3))

lemma keep_scrollback_rows [simp]: "g_rows (keep_scrollback r g) = g_rows g"
  by (simp add: keep_scrollback_def Let_def)

lemma grid_small_scroll_up: "scroll_up n g = Some g' \<Longrightarrow> grid_small g \<Longrightarrow> grid_small g'"
  unfolding scroll_up_def
proof (erule fold_option_keeps, assumption)
  fix g h :: Grid
  assume "(do { rows1 \<leftarrow> vec_insert (g_scroll_bottom g + 1) (new_row g) (g_rows g); removed \<leftarrow> at rows1 (g_scroll_top g);
      rows2 \<leftarrow> vec_remove (g_scroll_top g) rows1; Some (keep_scrollback removed (g\<lparr> g_rows := rows2 \<rparr>)) }) = Some h"
    and g: "grid_small g"
  then obtain rows1 rows2 where "set rows1 \<subseteq> insert (new_row g) (set (g_rows g))" "set rows2 \<subseteq> set rows1" "g_rows h = rows2"
    by (auto split: Option.bind_splits dest!: vec_insert_set vec_remove_set)
  then show "grid_small h" using g by (auto simp: grid_small_def new_row_def list_all_iff)
qed

lemma grid_small_col_wrap:
  assumes "col_wrap w b g = Some g'" and "grid_small g"
  shows "grid_small g'"
proof (cases "cursor_col g > sub16 (cols_of g) w")
  case True
  have clamp: "grid_small (snd (row_clamp_bottom inside h)) = grid_small h" for inside h
    by (simp add: row_clamp_bottom_def Let_def split: prod.split)
  obtain lines g1 v where 1: "row_inc_scroll 1 (set_col 0 g) = Some (lines, g1)" and 2: "with_row v (\<lambda>r. Some (row_wrap (b \<and> add16 v 1 = cursor_row g1) r)) g1 = Some g'"
    using True assms(1) unfolding col_wrap_def Let_def by (auto split: Option.bind_splits)
  have "grid_small g1"
    using 1 assms(2) clamp [of "in_scroll_region (set_col 0 g)"] grid_small_scroll_up
    by (auto simp: row_inc_scroll_def Let_def split: prod.splits if_splits) (metis snd_conv grid_small_cursor(1,2))+
  then show ?thesis by (rule grid_small_with_row [OF 2]) auto
qed (use assms in \<open>simp add: col_wrap_def\<close>)

lemma grid_small_draw:
  assumes "draw_character table ch width a g = Some g'" and "grid_small g" and "width \<le> 1" and "is_scalar ch" and "attrs_ok a"
  shows "grid_small g'"
proof -
  obtain c0 g1 c1 g2 g3 where
      1: "(if is_wide_continuation c0 then with_cell ((g_pos g)\<lparr> pos_col := sub16 (cursor_col g) 1 \<rparr>) (\<lambda>c. Some (cell_clear a c)) g else Some g) = Some g1"
      and 2: "(if is_wide c1 then with_cell ((g_pos g)\<lparr> pos_col := add16 (cursor_col g) 1 \<rparr>) (cell_set table 0x20 a) g1 else Some g1) = Some g2"
      and 3: "with_cell (g_pos g) (cell_set table ch a) g2 = Some g3" and 4: "g' = col_inc 1 g3"
    using assms(1,3) unfolding draw_character_def Let_def by (simp del: One_nat_def) (fastforce split: Option.bind_splits)
  have space: "is_scalar 0x20" by (simp add: is_scalar_def)
  have "grid_small g1"
    using 1 assms(2,5) by (auto split: if_splits elim!: grid_small_with_cell intro: cell_small_clear)
  then have "grid_small g2"
    using 2 cell_small_set [OF _ space assms(5)] by (auto split: if_splits elim!: grid_small_with_cell)
  then have "grid_small g3" using grid_small_with_cell [OF 3] cell_small_set assms(4,5) by blast
  then show ?thesis by (simp add: 4)
qed

section \<open>Validation\<close>

lemma try_then_Inr: "try_then r f = Some (Inr y) \<longleftrightarrow> (\<exists>x. r = Some (Inr x) \<and> f x = Some (Inr y))"
  by (simp add: try_then_def split: option.split sum.split)

lemma validate_cells_all:
  "validate_cells s rcs = Some (Inr ()) \<longleftrightarrow> (\<forall>rc \<in> set rcs. validate_cell s rc = Some (Inr ()))"
  by (induction rcs) (auto simp: try_then_Inr)

lemma validate_cell_small:
  assumes "screen_cell s r c = Some d" and "cell_ok d"
  shows "validate_cell s (r, c) = Some (Inr ()) \<longleftrightarrow> cell_small d"
proof -
  obtain cs where cs: "cell_holds d cs" using assms(2) by (auto simp: cell_ok_def)
  then have "cell_small d \<longleftrightarrow> length cs \<le> 8"
    unfolding cell_small_def by (metis cell_text_holds option.inject)
  then show ?thesis using cell_text_holds [OF cs] assms(1) by (simp add: validate_cell_def)
qed

lemma visible_cells:
  assumes "screen_ok s" and "r < rows_of (screen_grid s)" and "c < cols_of (screen_grid s)"
  shows "screen_cell s r c = Some (row_cells (g_rows (screen_grid s) ! r) ! c)"
    and "cell_ok (row_cells (g_rows (screen_grid s) ! r) ! c)"
    and "length (row_cells (g_rows (screen_grid s) ! r)) = cols_of (screen_grid s)"
proof -
  note g = screen_ok_grid(1) [OF assms(1)]
  have row: "row_ok (cols_of (screen_grid s)) (g_rows (screen_grid s) ! r)"
    using grid_ok_frame(9,10) [OF g] assms(2) by (simp add: list_all_length)
  show "screen_cell s r c = Some (row_cells (g_rows (screen_grid s) ! r) ! c)"
    using row assms(2,3) grid_ok_frame(9) [OF g]
    by (simp add: screen_cell_def visible_cell_def visible_rows_ok [OF g] at_def row_get_def row_ok_def)
  show "cell_ok (row_cells (g_rows (screen_grid s) ! r) ! c)"
    and "length (row_cells (g_rows (screen_grid s) ! r)) = cols_of (screen_grid s)"
    using row assms(3) by (simp_all add: row_ok_def list_all_length)
qed

lemma validate_screen_small:
  assumes "screen_ok s"
  shows "validate_screen s = Some (Inr ()) \<longleftrightarrow> grid_small (screen_grid s)"
proof -
  let ?g = "screen_grid s"
  have len: "length (g_rows ?g) = rows_of ?g" using grid_ok_frame(9) screen_ok_grid(1) [OF assms] by blast
  have "validate_screen s = Some (Inr ()) \<longleftrightarrow>
      (\<forall>r < rows_of ?g. \<forall>c < cols_of ?g. cell_small (row_cells (g_rows ?g ! r) ! c))"
    using validate_cell_small [OF visible_cells(1,2) [OF assms]]
    by (auto simp: validate_screen_def screen_size_def validate_cells_all)
  also have "\<dots> \<longleftrightarrow> grid_small ?g"
    using visible_cells(3) [OF assms] grid_ok_frame(2) [OF screen_ok_grid(1) [OF assms]]
    by (fastforce simp: grid_small_def row_small_def list_all_length len)
  finally show ?thesis .
qed

section \<open>Well-formed states\<close>

definition state_ok :: "TerminalState \<Rightarrow> bool"
  where "state_ok ts \<longleftrightarrow> screen_ok (ts_screen ts) \<and> roomy (ts_screen ts) \<and> grid_small (screen_grid (ts_screen ts))"

lemma apply_host_bytes_small:
  assumes "env_ok E" and "screen_ok (ts_screen ts)" and "roomy (ts_screen ts)" and "apply_host_bytes E input ts = Some (Inr ts')"
  shows "grid_small (screen_grid (ts_screen ts'))"
proof -
  have "\<exists>s. validate_screen s = Some (Inr ()) \<and> ts' = ts\<lparr> ts_screen := s \<rparr>"
    using assms(4) unfolding apply_host_bytes_def
    by (auto simp: try_then_Inr split: sum.splits prod.splits option.splits Option.bind_splits)
  moreover have "screen_ok (ts_screen ts')" using apply_host_bytes_ok [OF assms(1-3), of input] assms(4) by auto
  ultimately show ?thesis by (auto simp: validate_screen_small)
qed

lemma grid_small_set_size:
  assumes "frame_ok g" and "size_ok sz" and "grid_small g"
  shows "grid_small (grid_set_size sz g)"
  using assms(3) row_small_resize
  by (auto simp: grid_small_def grid_set_size_frame(3) [OF assms(1,2)] list_all_iff dest!: in_set_takeD split: if_splits)

lemma state_ok_new:
  assumes "TerminalState_new columns rows = Inr ts" and "2 \<le> unat columns" and "2 \<le> unat rows"
  shows "state_ok ts" and "ts_echo_acknowledgement ts = None"
proof -
  have sz: "size_ok \<lparr> size_rows = unat rows, size_cols = unat columns \<rparr>"
      and ts: "ts = \<lparr> ts_screen = Screen_new \<lparr> size_rows = unat rows, size_cols = unat columns \<rparr> 0, ts_echo_acknowledgement = None \<rparr>"
    using assms by (auto simp: TerminalState_new_def checked_size_eq size_ok_def split: if_splits)
  have "grid_small (screen_grid (ts_screen ts))"
    by (simp add: ts Screen_new_def screen_grid_def mode_def Grid_new_def allocate_rows_def grid_small_def list_all_iff)
  then show "state_ok ts" and "ts_echo_acknowledgement ts = None"
    using screen_ok_new [OF sz] assms(2,3) by (simp_all add: state_ok_def ts roomy_def)
qed

text \<open>A server difference keeps the states well-formed.\<close>

lemma apply_operation_small:
  assumes "env_ok E" and "state_ok ts" and "growing (cols_of (s_grid (ts_screen ts))) [x]" and "apply_operation E x ts = Some (Inr ts')"
  shows "grid_small (screen_grid (ts_screen ts'))"
proof -
  have ts: "screen_ok (ts_screen ts)" "roomy (ts_screen ts)" "grid_small (screen_grid (ts_screen ts))"
    using assms(2) by (simp_all add: state_ok_def)
  show ?thesis
  proof (cases x)
    case (HostBytes input)
    then show ?thesis using apply_host_bytes_small [OF assms(1) ts(1,2)] assms(4) by (simp add: apply_operation_def)
  next
    case (Resize c r)
    then have "size_ok \<lparr> size_rows = unat r, size_cols = unat c \<rparr>" "ts' = ts\<lparr> ts_screen := screen_set_size (unat r) (unat c) (ts_screen ts) \<rparr>"
      using assms(4) by (auto simp: apply_operation_def checked_size_eq size_ok_def split: if_splits)
    moreover have "frame_ok (screen_grid (ts_screen ts))" using screen_ok_grid(1) [OF ts(1)] by (simp add: grid_ok_def)
    ultimately show ?thesis using grid_small_set_size ts(3)
      by (auto simp: screen_grid_def screen_set_size_def split: if_splits)
  next
    case (EchoAcknowledgement n)
    then show ?thesis using assms(4) ts(3) by (auto simp: apply_operation_def split: if_splits)
  qed
qed

lemma terminal_apply_state_ok:
  assumes "env_ok E" and "state_ok ts" and "growing (cols_of (s_grid (ts_screen ts))) xs" and "apply_operations E xs ts = Some (Inr ts')"
  shows "state_ok ts'"
  using assms(2-4)
proof (induction xs arbitrary: ts)
  case (Cons x xs)
  obtain ts1 where ts1: "apply_operation E x ts = Some (Inr ts1)" "apply_operations E xs ts1 = Some (Inr ts')"
    using Cons.prems(3) by (auto simp: try_then_Inr)
  have "screen_ok (ts_screen ts)" "roomy (ts_screen ts)" using Cons.prems(1) by (simp_all add: state_ok_def)
  from apply_operation_ok [OF assms(1) this Cons.prems(2)] ts1(1)
  have 1: "screen_ok (ts_screen ts1)" "roomy (ts_screen ts1)" "growing (cols_of (s_grid (ts_screen ts1))) xs" by auto
  have "growing (cols_of (s_grid (ts_screen ts))) [x]" using Cons.prems(2) by (cases x) auto
  then have "state_ok ts1" using apply_operation_small [OF assms(1) Cons.prems(1) _ ts1(1)] 1 by (simp add: state_ok_def)
  then show ?case using Cons.IH 1(3) ts1(2) by blast
qed simp

section \<open>Predicted characters\<close>

text \<open>Documented behaviour of \<open>vte\<close>: in its initial state it prints a printable character of ASCII, and stays there.\<close>

definition graphic :: "u8 \<Rightarrow> bool"
  where "graphic b \<longleftrightarrow> 0x20 \<le> b \<and> b < 0x7f"

definition vte_prints :: "'p vte \<Rightarrow> bool"
  where "vte_prints V \<longleftrightarrow> (\<forall>b. graphic b \<longrightarrow> vte_advance V (vte_new V) [b] = (vte_new V, [Print (unat b)]))"

lemma graphic_scalar:
  assumes "graphic b"
  shows "0x20 \<le> unat b" and "unat b < 0x7f" and "is_scalar (unat b)"
  using assms by (auto simp: graphic_def word_le_nat_alt word_less_nat_alt is_scalar_def)

lemma from_utf8_graphic: "graphic b \<Longrightarrow> from_utf8 [b] \<noteq> None"
  using from_utf8_encode_all [of "[unat b]"] graphic_scalar [of b] by (simp add: encode_utf8_def)

lemma screen_text_graphic:
  assumes "screen_ok s" and "roomy s" and "grid_small (screen_grid s)" and "widths_ok table" and "0x20 \<le> c" and "c < 0x7f"
    and "screen_text table c s = Some s'"
  shows "grid_small (screen_grid s')"
proof -
  have w: "char_width table c = Some 1" by (rule char_width_ascii [OF assms(4-6)])
  obtain b s1 where 1: "try_grid (col_wrap 1 b) s = Some s1" and 2: "try_grid (draw_character table c 1 (s_attrs s)) s1 = Some s'"
    using assms(7) by (auto simp: screen_text_def Let_def w split: Option.bind_splits)
  have "grid_small (screen_grid s1)"
    using 1 assms(3) grid_small_col_wrap by (auto simp: try_grid_def screen_grid_def on_grid_def split: Option.bind_splits if_splits)
  moreover have "is_scalar c" using assms(6) by (simp add: is_scalar_def)
  ultimately show ?thesis
    using 2 grid_small_draw [where width = 1] screen_ok_grid(3) [OF assms(1)]
    by (auto simp: try_grid_def screen_grid_def on_grid_def split: Option.bind_splits if_splits)
qed

lemma validate_graphic:
  assumes "vte_prints V" and "widths_ok table" and "graphic b"
  shows "validate_host_bytes V table [b] = Inr ()"
proof -
  have X: "graphic (0x58 :: u8)" by (simp add: graphic_def)
  have adv: "vte_advance V (vte_new V) [b] = (vte_new V, [Print (unat b)])"
    "vte_advance V (vte_new V) [0x58] = (vte_new V, [Print 0x58])"
    using assms(1,3) X unfolding vte_prints_def by auto
  have "char_width table (unat b) = Some 1" "char_width table 0x58 = Some 1"
    using graphic_scalar [OF assms(3)] by (simp_all add: char_width_ascii [OF assms(2)])
  moreover have "ascii ''X'' = [0x58]" "letter CHR ''X'' = 0x58" by simp_all
  ultimately show ?thesis
    using adv from_utf8_graphic [OF assms(3)]
    by (simp add: validate_host_bytes_def budget_print_def ScalarBudget_default_def Let_def)
qed

lemma with_predicted_ascii_ok:
  assumes "env_ok E" and "vte_prints (env_vte E)" and "state_ok ts" and "graphic b"
  shows "\<exists>ts'. with_predicted_ascii E b ts = Some (Inr ts') \<and> state_ok ts' \<and> ts_echo_acknowledgement ts' = ts_echo_acknowledgement ts"
proof -
  have ts: "screen_ok (ts_screen ts)" "roomy (ts_screen ts)" "grid_small (screen_grid (ts_screen ts))"
    using assms(3) by (simp_all add: state_ok_def)
  note w = assms(1) [unfolded env_ok_def, THEN conjunct2] and c = graphic_scalar [OF assms(4)]
  obtain s where s: "screen_text (env_widths E) (unat b) (ts_screen ts) = Some s" "screen_ok s"
      "g_size (s_grid s) = g_size (s_grid (ts_screen ts))"
    using screen_text_ok [OF ts(1,2) c(3) w] by blast
  have small: "grid_small (screen_grid s)" by (rule screen_text_graphic [OF ts w c(1,2) s(1)])
  then have v: "validate_screen s = Some (Inr ())" using validate_screen_small [OF s(2)] by simp
  have adv: "vte_advance (env_vte E) (vte_new (env_vte E)) [b] = (vte_new (env_vte E), [Print (unat b)])"
    using assms(2,4) by (simp add: vte_prints_def)
  have "with_predicted_ascii E b ts = Some (Inr (ts\<lparr> ts_screen := s \<rparr>))"
    using c(2) by (simp add: with_predicted_ascii_def apply_host_bytes_def validate_graphic [OF assms(2) w assms(4)]
        parser_process_def Parser_new_def adv perform_print_def quiet_def s(1) v split: prod.split)
  moreover have "state_ok (ts\<lparr> ts_screen := s \<rparr>)" using s small ts(2) by (simp add: state_ok_def roomy_def)
  ultimately show ?thesis by simp
qed

end
