(* ===== verification/Prediction.thy ===== *)
theory Prediction
  imports Visible_Cells Limits
begin

text \<open>
  The local prediction of \<open>src/prediction.rs\<close>: printable characters the user types are drawn on a copy of the
  last state from the server, and shown once the server has confirmed a prediction of the same epoch. An
  operation returns its result and the new \<open>LocalPrediction\<close>, because a failing call has already changed some
  fields; \<open>None\<close> is a panic, such as the two \<open>expect\<close> of the source.

  The interface to the terminal is the locale \<open>projection\<close>: a character can always be predicted, and two states
  can always be compared. Shown here: on well-formed states no operation fails or panics, the projected state is
  always a state of the server followed by the pending characters, a prediction that the server has answered
  without showing it is dropped with all the others, and before the announced deadline only a link that turns slow
  changes the display.
\<close>

section \<open>Data\<close>

datatype PredictionMode = Adaptive | Always | Never

record PendingPrediction =
  pp_client_state :: u64
  pp_created_at_ms :: u64
  pp_byte :: u8

datatype EpochConfidence = Tentative | Confirmed

record LocalPrediction =
  lp_mode :: PredictionMode
  lp_confidence :: EpochConfidence
  lp_adaptive_slow_link :: bool
  lp_adaptive_glitch :: bool
  lp_pending :: "PendingPrediction list"
  lp_base :: "TerminalState option"
  lp_projected :: "TerminalState option"

definition LocalPrediction_new :: "PredictionMode \<Rightarrow> LocalPrediction"
  where "LocalPrediction_new m =
    \<lparr> lp_mode = m, lp_confidence = Tentative, lp_adaptive_slow_link = False, lp_adaptive_glitch = False,
      lp_pending = [], lp_base = None, lp_projected = None \<rparr>"

section \<open>Showing and dropping predictions\<close>

definition predictable_byte :: "bytes \<Rightarrow> u8 option"
  where "predictable_byte input =
    (case input of
       [byte] \<Rightarrow> if 0x21 \<le> byte \<and> byte \<le> 0x7e \<or> byte = 0x20 then Some byte else None
     | _ \<Rightarrow> None)"

definition displaying_prediction :: "LocalPrediction \<Rightarrow> bool"
  where "displaying_prediction lp \<longleftrightarrow>
    lp_confidence lp = Confirmed \<and> lp_pending lp \<noteq> []
    \<and> (case lp_mode lp of
         Adaptive \<Rightarrow> lp_adaptive_slow_link lp \<or> lp_adaptive_glitch lp
       | Always \<Rightarrow> True
       | Never \<Rightarrow> False)"

definition prediction_clear :: "LocalPrediction \<Rightarrow> bool \<times> LocalPrediction"
  where "prediction_clear lp =
    (displaying_prediction lp,
     lp\<lparr> lp_confidence := Tentative, lp_adaptive_glitch := False, lp_pending := [], lp_base := None, lp_projected := None \<rparr>)"

definition prediction_reset :: "LocalPrediction \<Rightarrow> bool \<times> LocalPrediction"
  where "prediction_reset lp = prediction_clear lp"

definition display :: "LocalPrediction \<Rightarrow> TerminalState \<Rightarrow> TerminalState"
  where "display lp authoritative =
    (if displaying_prediction lp then (case lp_projected lp of None \<Rightarrow> authoritative | Some ts \<Rightarrow> ts)
     else authoritative)"

section \<open>Input\<close>

type_synonym 'a predicted = "((TerminalError + 'a) \<times> LocalPrediction) option"

definition observe_input :: "('p, 'm) terminal_env_scheme \<Rightarrow> u64 \<Rightarrow> bytes \<Rightarrow> TerminalState \<Rightarrow> u64 \<Rightarrow> LocalPrediction \<Rightarrow> bool predicted"
  where "observe_input E client_state input authoritative now_ms lp =
    (if lp_mode lp = Never then Some (Inr False, lp)
     else
       (case predictable_byte input of
          None \<Rightarrow> (let (shown, lp) = prediction_clear lp in Some (Inr shown, lp))
        | Some byte \<Rightarrow>
            if length (lp_pending lp) = MAX_PENDING_PREDICTION_SCALARS \<or> length (lp_pending lp) = MAX_PENDING_PREDICTION_BYTES
            then (let (shown, lp) = prediction_clear lp in Some (Inr shown, lp))
            else
              do {
                let lp1 = (if lp_pending lp = [] then lp\<lparr> lp_base := Some authoritative \<rparr> else lp);
                start \<leftarrow> (if lp_pending lp = [] then Some authoritative else lp_projected lp);
                r \<leftarrow> with_predicted_ascii E byte start;
                (case r of
                   Inl e \<Rightarrow> Some (Inl e, lp1)
                 | Inr projected \<Rightarrow>
                     let lp2 = lp1\<lparr> lp_projected := Some projected,
                           lp_pending := lp_pending lp1 @ [\<lparr> pp_client_state = client_state, pp_created_at_ms = now_ms, pp_byte = byte \<rparr>] \<rparr>
                     in Some (Inr (displaying_prediction lp2), lp2))
              }))"

section \<open>Authoritative states\<close>

text \<open>The loop of \<open>longest_matching_prefix\<close>, over what the terminal provides: \<open>predict\<close> draws a character and
  \<open>same\<close> compares with the authoritative state.\<close>

fun matching_loop :: "(u8 \<Rightarrow> 's \<Rightarrow> ('e + 's) option) \<Rightarrow> ('s \<Rightarrow> bool option) \<Rightarrow> u8 list \<Rightarrow> nat \<Rightarrow> 's \<Rightarrow> nat option \<Rightarrow> ('e + nat option) option"
  where "matching_loop predict same [] index expected matched_prefix = Some (Inr matched_prefix)"
  | "matching_loop predict same (byte # pending) index expected matched_prefix =
      try_then (predict byte expected)
        (\<lambda>expected.
           do {
             equal \<leftarrow> same expected;
             matching_loop predict same pending (index + 1) expected (if equal then Some (index + 1) else matched_prefix)
           })"

text \<open>The loop that draws the pending characters on a new authoritative state.\<close>

fun replay :: "(u8 \<Rightarrow> 's \<Rightarrow> ('e + 's) option) \<Rightarrow> u8 list \<Rightarrow> 's \<Rightarrow> ('e + 's) option"
  where "replay predict [] projected = Some (Inr projected)"
  | "replay predict (byte # pending) projected = try_then (predict byte projected) (replay predict pending)"

definition longest_matching_prefix :: "('p, 'm) terminal_env_scheme \<Rightarrow> TerminalState \<Rightarrow> LocalPrediction \<Rightarrow> (TerminalError + nat option) option"
  where "longest_matching_prefix E authoritative lp =
    do {
      expected \<leftarrow> lp_base lp;
      equal \<leftarrow> display_equivalent E expected authoritative;
      matching_loop (with_predicted_ascii E) (\<lambda>s. display_equivalent E s authoritative) (map pp_byte (lp_pending lp)) 0 expected
        (if equal then Some 0 else None)
    }"

definition acknowledged_prefix :: "TerminalState \<Rightarrow> LocalPrediction \<Rightarrow> nat"
  where "acknowledged_prefix authoritative lp =
    (case ts_echo_acknowledgement authoritative of
       None \<Rightarrow> 0
     | Some number \<Rightarrow> length (takeWhile (\<lambda>p. pp_client_state p \<le> number) (lp_pending lp)))"

text \<open>The rest of \<open>observe_authoritative\<close> once a prefix of the predictions is confirmed.\<close>

definition confirm_prefix :: "('p, 'm) terminal_env_scheme \<Rightarrow> TerminalState \<Rightarrow> nat \<Rightarrow> LocalPrediction \<Rightarrow> unit predicted"
  where "confirm_prefix E authoritative matched lp =
    (let lp1 = lp\<lparr> lp_confidence := Confirmed, lp_pending := drop matched (lp_pending lp) \<rparr> in
     if lp_pending lp1 = []
     then Some (Inr (), lp1\<lparr> lp_base := None, lp_projected := None, lp_adaptive_glitch := False \<rparr>)
     else
       do {
         r \<leftarrow> replay (with_predicted_ascii E) (map pp_byte (lp_pending lp1)) authoritative;
         (case r of
            Inl e \<Rightarrow> Some (Inl e, lp1)
          | Inr projected \<Rightarrow> Some (Inr (), lp1\<lparr> lp_base := Some authoritative, lp_projected := Some projected \<rparr>))
       })"

definition observe_authoritative :: "('p, 'm) terminal_env_scheme \<Rightarrow> TerminalState \<Rightarrow> LocalPrediction \<Rightarrow> unit predicted"
  where "observe_authoritative E authoritative lp =
    (if lp_mode lp = Never \<or> lp_pending lp = [] then Some (Inr (), lp)
     else
       do {
         r \<leftarrow> longest_matching_prefix E authoritative lp;
         (case r of
            Inl e \<Rightarrow> Some (Inl e, lp)
          | Inr None \<Rightarrow> Some (Inr (), snd (prediction_clear lp))
          | Inr (Some matched) \<Rightarrow>
              if acknowledged_prefix authoritative lp > matched then Some (Inr (), snd (prediction_clear lp))
              else if acknowledged_prefix authoritative lp = 0 then Some (Inr (), lp)
              else confirm_prefix E authoritative matched lp)
       })"

section \<open>Time\<close>

definition front_plus :: "u64 \<Rightarrow> LocalPrediction \<Rightarrow> u64 option"
  where "front_plus d lp = (case lp_pending lp of [] \<Rightarrow> None | p # _ \<Rightarrow> Some (saturating_add (pp_created_at_ms p) d))"

definition expiration_deadline_ms :: "LocalPrediction \<Rightarrow> u64 option"
  where "expiration_deadline_ms lp = (if lp_mode lp = Never then None else front_plus MAX_PREDICTION_AGE_MS lp)"

definition prediction_next_deadline_ms :: "LocalPrediction \<Rightarrow> u64 option"
  where "prediction_next_deadline_ms lp =
    (let expiry = expiration_deadline_ms lp;
         glitch = (if lp_mode lp = Adaptive \<and> lp_confidence lp = Confirmed \<and> \<not> lp_adaptive_slow_link lp \<and> \<not> lp_adaptive_glitch lp
                   then front_plus ADAPTIVE_PREDICTION_GLITCH_MS lp else None)
     in case (expiry, glitch) of
          (Some expiry, Some glitch) \<Rightarrow> Some (min expiry glitch)
        | (Some deadline, None) \<Rightarrow> Some deadline
        | (None, Some deadline) \<Rightarrow> Some deadline
        | (None, None) \<Rightarrow> None)"

definition prediction_expire :: "u64 \<Rightarrow> LocalPrediction \<Rightarrow> bool \<times> LocalPrediction"
  where "prediction_expire now_ms lp =
    (if (case expiration_deadline_ms lp of None \<Rightarrow> False | Some deadline \<Rightarrow> now_ms \<ge> deadline)
     then prediction_clear lp else (False, lp))"

definition update_policy :: "u64 \<Rightarrow> u64 option \<Rightarrow> LocalPrediction \<Rightarrow> bool \<times> LocalPrediction"
  where "update_policy now_ms interval lp =
    (let was_displayed = displaying_prediction lp in
     if lp_mode lp \<noteq> Adaptive then (False, lp)
     else
       let lp1 = (case interval of
                    None \<Rightarrow> lp
                  | Some ms \<Rightarrow>
                      if ms > ADAPTIVE_PREDICTION_ENABLE_FRAME_MS then lp\<lparr> lp_adaptive_slow_link := True \<rparr>
                      else if ms \<le> ADAPTIVE_PREDICTION_DISABLE_FRAME_MS \<and> \<not> was_displayed
                      then lp\<lparr> lp_adaptive_slow_link := False \<rparr> else lp);
           lp2 = (if lp_pending lp1 = [] then lp1\<lparr> lp_adaptive_glitch := False \<rparr>
                  else if lp_confidence lp1 = Confirmed
                    \<and> (case front_plus ADAPTIVE_PREDICTION_GLITCH_MS lp1 of None \<Rightarrow> False | Some t \<Rightarrow> now_ms \<ge> t)
                  then lp1\<lparr> lp_adaptive_glitch := True \<rparr> else lp1)
       in (was_displayed \<noteq> displaying_prediction lp2, lp2))"

section \<open>What prediction needs of the terminal\<close>

text \<open>After the first \<open>j\<close> characters the expected state looks like the authoritative one.\<close>

definition matches :: "(u8 \<Rightarrow> 's \<Rightarrow> ('e + 's) option) \<Rightarrow> ('s \<Rightarrow> bool option) \<Rightarrow> u8 list \<Rightarrow> 's \<Rightarrow> nat \<Rightarrow> bool"
  where "matches predict same pending base j \<longleftrightarrow>
    (case replay predict (take j pending) base of Some (Inr t) \<Rightarrow> same t = Some True | _ \<Rightarrow> False)"

primrec last_match :: "(nat \<Rightarrow> bool) \<Rightarrow> nat \<Rightarrow> nat option"
  where "last_match P 0 = (if P 0 then Some 0 else None)"
  | "last_match P (Suc n) = (if P (Suc n) then Some (Suc n) else last_match P n)"

lemma last_match_Some: "last_match P n = Some m \<Longrightarrow> m \<le> n \<and> P m \<and> (\<forall>k. m < k \<and> k \<le> n \<longrightarrow> \<not> P k)"
  by (induction n) (auto simp: le_Suc_eq split: if_splits)

lemma last_match_None: "last_match P n = None \<longleftrightarrow> (\<forall>k \<le> n. \<not> P k)"
  by (induction n) (auto simp: le_Suc_eq)

locale projection =
  fixes predict :: "u8 \<Rightarrow> 's \<Rightarrow> ('e + 's) option" and same :: "'s \<Rightarrow> 's \<Rightarrow> bool option" and ok :: "'s \<Rightarrow> bool"
  assumes predict_ok: "ok s \<Longrightarrow> graphic b \<Longrightarrow> \<exists>t. predict b s = Some (Inr t) \<and> ok t"
    and same_ok: "ok s \<Longrightarrow> ok t \<Longrightarrow> \<exists>q. same s t = Some q"
begin

lemma replay_total: "ok s \<Longrightarrow> list_all graphic xs \<Longrightarrow> \<exists>t. replay predict xs s = Some (Inr t) \<and> ok t"
proof (induction xs arbitrary: s)
  case (Cons b xs)
  then obtain s1 where "predict b s = Some (Inr s1)" "ok s1" using predict_ok [of s b] by auto
  with Cons show ?case by simp
qed simp

lemma replay_snoc: "replay predict xs s = Some (Inr t) \<Longrightarrow> replay predict (xs @ [b]) s = predict b t"
proof (induction xs arbitrary: s)
  case Nil
  then show ?case by (simp add: try_then_def split: option.split sum.split)
next
  case (Cons c xs)
  then obtain s1 where "predict c s = Some (Inr s1)" "replay predict xs s1 = Some (Inr t)" by (auto simp: try_then_Inr)
  with Cons.IH show ?case by simp
qed

text \<open>The loop finds the longest prefix that matches.\<close>

lemma matching_loop_spec:
  assumes "ok auth" and "list_all graphic xs" and "ok s" and "replay predict zs base = Some (Inr s)"
  shows "matching_loop predict (\<lambda>s. same s auth) xs (length zs) s
      (last_match (matches predict (\<lambda>s. same s auth) (zs @ xs) base) (length zs)) =
    Some (Inr (last_match (matches predict (\<lambda>s. same s auth) (zs @ xs) base) (length (zs @ xs))))"
  using assms(2-4)
proof (induction xs arbitrary: zs s)
  case (Cons b xs)
  obtain t where t: "predict b s = Some (Inr t)" "ok t" using predict_ok [of s b] Cons.prems by auto
  obtain q where q: "same t auth = Some q" using same_ok [OF t(2) assms(1)] by blast
  have r: "replay predict (zs @ [b]) base = Some (Inr t)" using replay_snoc [OF Cons.prems(3)] t(1) by simp
  then have "matches predict (\<lambda>s. same s auth) (zs @ b # xs) base (Suc (length zs)) = q"
    by (simp add: matches_def q)
  with Cons.IH [OF _ t(2) r] Cons.prems(1) show ?case by (simp add: t(1) q split del: if_split cong del: if_weak_cong)
qed simp

end

interpretation terminal: projection "with_predicted_ascii E" "display_equivalent E"
    "\<lambda>ts. env_ok E \<and> vte_prints (env_vte E) \<and> state_ok ts" for E
proof
  fix s b assume "env_ok E \<and> vte_prints (env_vte E) \<and> state_ok s" "graphic b"
  then show "\<exists>t. with_predicted_ascii E b s = Some (Inr t) \<and> env_ok E \<and> vte_prints (env_vte E) \<and> state_ok t"
    using with_predicted_ascii_ok [of E s b] by blast
next
  fix s t assume "env_ok E \<and> vte_prints (env_vte E) \<and> state_ok s" "env_ok E \<and> vte_prints (env_vte E) \<and> state_ok t"
  then show "\<exists>q. display_equivalent E s t = Some q"
    using state_formatted_ok [of "ts_screen s" "env_itoa E"] state_formatted_ok [of "ts_screen t" "env_itoa E"]
    by (auto simp: display_equivalent_def state_ok_def)
qed

section \<open>The invariant\<close>

text \<open>\<open>S\<close> are the authoritative states seen so far.\<close>

definition prediction_ok :: "('p, 'm) terminal_env_scheme \<Rightarrow> TerminalState set \<Rightarrow> LocalPrediction \<Rightarrow> bool"
  where "prediction_ok E S lp \<longleftrightarrow>
    (lp_mode lp = Never \<longrightarrow> lp_pending lp = [])
    \<and> length (lp_pending lp) \<le> MAX_PENDING_PREDICTION_SCALARS
    \<and> list_all graphic (map pp_byte (lp_pending lp))
    \<and> sorted (map pp_client_state (lp_pending lp))
    \<and> (if lp_pending lp = [] then lp_base lp = None \<and> lp_projected lp = None
       else \<exists>base projected. lp_base lp = Some base \<and> base \<in> S \<and> lp_projected lp = Some projected
          \<and> replay (with_predicted_ascii E) (map pp_byte (lp_pending lp)) base = Some (Inr projected))"

definition env_prints :: "('p, 'm) terminal_env_scheme \<Rightarrow> bool"
  where "env_prints E \<longleftrightarrow> env_ok E \<and> vte_prints (env_vte E)"

lemma prediction_ok_new: "prediction_ok E S (LocalPrediction_new m)"
  by (simp add: prediction_ok_def LocalPrediction_new_def)

lemma prediction_ok_clear: "prediction_ok E S lp \<Longrightarrow> prediction_ok E S (snd (prediction_clear lp))"
  by (simp add: prediction_ok_def prediction_clear_def)

lemma prediction_ok_mono: "prediction_ok E S lp \<Longrightarrow> S \<subseteq> T \<Longrightarrow> prediction_ok E T lp"
  unfolding prediction_ok_def by (auto split: if_splits)

lemma prediction_ok_flags:
  "prediction_ok E S (lp\<lparr> lp_adaptive_glitch := b \<rparr>) = prediction_ok E S lp"
  "prediction_ok E S (lp\<lparr> lp_adaptive_slow_link := b \<rparr>) = prediction_ok E S lp"
  by (simp_all add: prediction_ok_def)

lemma predictable_graphic: "predictable_byte input = Some b \<Longrightarrow> graphic b \<and> input = [b]"
  by (auto simp: predictable_byte_def graphic_def word_less_nat_alt word_le_nat_alt split: list.splits if_splits)

lemma observe_input_ok:
  assumes E: "env_prints E" and S: "\<forall>ts \<in> S. state_ok ts" and auth: "authoritative \<in> S" and lp: "prediction_ok E S lp"
    and order: "\<forall>p \<in> set (lp_pending lp). pp_client_state p \<le> client_state"
  shows "\<exists>b lp'. observe_input E client_state input authoritative now_ms lp = Some (Inr b, lp') \<and> prediction_ok E S lp'
    \<and> (\<forall>p \<in> set (lp_pending lp'). pp_client_state p \<le> client_state)"
proof (cases "lp_mode lp = Never \<or> predictable_byte input = None \<or> length (lp_pending lp) = 32")
  case True
  then show ?thesis using lp order prediction_ok_clear [OF lp]
    by (auto simp: observe_input_def prediction_clear_def split: option.split)
next
  case False
  then obtain b where b: "predictable_byte input = Some b" "lp_mode lp \<noteq> Never" "length (lp_pending lp) \<noteq> 32" by auto
  have gb: "graphic b" using predictable_graphic [OF b(1)] by simp
  define base where "base = (if lp_pending lp = [] then authoritative else the (lp_base lp))"
  define start where "start = (if lp_pending lp = [] then authoritative else the (lp_projected lp))"
  have base: "base \<in> S" "lp_pending lp \<noteq> [] \<Longrightarrow> lp_base lp = Some base" "lp_pending lp \<noteq> [] \<Longrightarrow> lp_projected lp = Some start"
      "replay (with_predicted_ascii E) (map pp_byte (lp_pending lp)) base = Some (Inr start)"
    using lp auth by (auto simp: prediction_ok_def base_def start_def split: if_splits)
  have ok: "state_ok base" using S base(1) by blast
  have g: "list_all graphic (map pp_byte (lp_pending lp))" using lp by (simp add: prediction_ok_def)
  have "state_ok start" using terminal.replay_total [of E base, OF _ g] E ok base(4) by (auto simp: env_prints_def)
  then obtain t where t: "with_predicted_ascii E b start = Some (Inr t)"
    using terminal.predict_ok [of E start b] E gb by (auto simp: env_prints_def)
  have r: "replay (with_predicted_ascii E) (map pp_byte (lp_pending lp) @ [b]) base = Some (Inr t)"
    using terminal.replay_snoc [OF base(4)] t by simp
  let ?p = "\<lparr> pp_client_state = client_state, pp_created_at_ms = now_ms, pp_byte = b \<rparr>"
  let ?lp = "lp\<lparr> lp_base := Some base, lp_projected := Some t, lp_pending := lp_pending lp @ [?p] \<rparr>"
  have "prediction_ok E S ?lp"
    using lp b(2,3) base(1) r gb order by (auto simp: prediction_ok_def sorted_append)
  moreover have "observe_input E client_state input authoritative now_ms lp = Some (Inr (displaying_prediction ?lp), ?lp)"
  proof (cases "lp_pending lp = []")
    case True
    then show ?thesis using b t by (simp add: observe_input_def Let_def base_def start_def)
  next
    case False
    with base(2) have "lp = lp\<lparr> lp_base := Some base \<rparr>" by (cases lp) simp
    then show ?thesis using b base(3) [OF False] t False by (simp add: observe_input_def Let_def)
  qed
  ultimately show ?thesis using order by auto
qed

lemma longest_matching_prefix_eq:
  assumes E: "env_prints E" and S: "\<forall>ts \<in> S. state_ok ts" and auth: "state_ok authoritative" and lp: "prediction_ok E S lp"
    and base: "lp_base lp = Some base" and pending: "lp_pending lp \<noteq> []"
  shows "longest_matching_prefix E authoritative lp =
    Some (Inr (last_match (matches (with_predicted_ascii E) (\<lambda>s. display_equivalent E s authoritative) (map pp_byte (lp_pending lp)) base)
      (length (lp_pending lp))))"
proof -
  have ok: "env_ok E \<and> vte_prints (env_vte E) \<and> state_ok base" "env_ok E \<and> vte_prints (env_vte E) \<and> state_ok authoritative"
    using E S auth lp base pending by (auto simp: prediction_ok_def env_prints_def)
  have g: "list_all graphic (map pp_byte (lp_pending lp))" using lp by (simp add: prediction_ok_def)
  obtain q where q: "display_equivalent E base authoritative = Some q" using terminal.same_ok [OF ok] by blast
  show ?thesis
    using terminal.matching_loop_spec [OF ok(2) g ok(1), of "[]" base]
    by (simp add: longest_matching_prefix_def base q matches_def)
qed

lemma confirm_prefix_ok:
  assumes E: "env_prints E" and S: "\<forall>ts \<in> S. state_ok ts" and auth: "authoritative \<in> S" and lp: "prediction_ok E S lp"
    and mode: "lp_mode lp \<noteq> Never"
  shows "\<exists>lp'. confirm_prefix E authoritative m lp = Some (Inr (), lp') \<and> prediction_ok E S lp'
    \<and> lp_pending lp' = drop m (lp_pending lp) \<and> lp_confidence lp' = Confirmed
    \<and> lp_base lp' = (if drop m (lp_pending lp) = [] then None else Some authoritative)"
proof (cases "drop m (lp_pending lp) = []")
  case True
  then show ?thesis using lp mode by (simp add: confirm_prefix_def Let_def prediction_ok_def)
next
  case False
  let ?xs = "drop m (lp_pending lp)"
  have g: "list_all graphic (map pp_byte ?xs)" using lp by (auto simp: prediction_ok_def list_all_iff dest: in_set_dropD)
  have parts: "sorted (map pp_client_state ?xs)" "length ?xs \<le> 32"
    using lp by (auto simp: prediction_ok_def drop_map [symmetric] sorted_wrt_drop)
  obtain t where "replay (with_predicted_ascii E) (map pp_byte ?xs) authoritative = Some (Inr t)"
    using terminal.replay_total [OF _ g, of E authoritative] E S auth by (auto simp: env_prints_def)
  then show ?thesis using False lp mode g parts auth by (simp add: confirm_prefix_def Let_def prediction_ok_def)
qed

lemma sorted_takeWhile_all:
  assumes "sorted (map f xs)" and "length (takeWhile (\<lambda>p. f p \<le> n) xs) \<le> m" and "x \<in> set (drop m xs)"
  shows "n < f x"
proof -
  let ?k = "length (takeWhile (\<lambda>p. f p \<le> n) xs)"
  obtain i where "i < length (drop m xs)" "x = drop m xs ! i" using assms(3) by (metis in_set_conv_nth)
  then have i: "m + i < length xs" "x = xs ! (m + i)" by auto
  then have k: "?k < length xs" using assms(2) by linarith
  then have "\<not> f (xs ! ?k) \<le> n" by (rule nth_length_takeWhile)
  moreover have "map f xs ! ?k \<le> map f xs ! (m + i)"
    using assms(1,2) i(1) by (intro sorted_nth_mono) auto
  ultimately show ?thesis using i k by simp
qed

lemma observe_authoritative_cases:
  assumes E: "env_prints E" and S: "\<forall>ts \<in> S. state_ok ts" and auth: "authoritative \<in> S" and lp: "prediction_ok E S lp"
    and base: "lp_base lp = Some base"
  obtains (dropped) "observe_authoritative E authoritative lp = Some (Inr (), snd (prediction_clear lp))"
    | (unchanged) m where "observe_authoritative E authoritative lp = Some (Inr (), lp)" and "acknowledged_prefix authoritative lp = 0"
        and "m \<le> length (lp_pending lp)"
        and "matches (with_predicted_ascii E) (\<lambda>s. display_equivalent E s authoritative) (map pp_byte (lp_pending lp)) base m"
    | (confirmed) m lp' where "observe_authoritative E authoritative lp = Some (Inr (), lp')" and "prediction_ok E S lp'"
        and "lp_pending lp' = drop m (lp_pending lp)" and "0 < acknowledged_prefix authoritative lp"
        and "acknowledged_prefix authoritative lp \<le> m" and "m \<le> length (lp_pending lp)"
        and "matches (with_predicted_ascii E) (\<lambda>s. display_equivalent E s authoritative) (map pp_byte (lp_pending lp)) base m"
proof -
  let ?M = "matches (with_predicted_ascii E) (\<lambda>s. display_equivalent E s authoritative) (map pp_byte (lp_pending lp)) base"
  let ?a = "acknowledged_prefix authoritative lp" and ?n = "length (lp_pending lp)"
  have pending: "lp_pending lp \<noteq> []" "lp_mode lp \<noteq> Never" using lp base by (auto simp: prediction_ok_def split: if_splits)
  have eq: "observe_authoritative E authoritative lp =
      (case last_match ?M ?n of
         None \<Rightarrow> Some (Inr (), snd (prediction_clear lp))
       | Some m \<Rightarrow> if ?a > m then Some (Inr (), snd (prediction_clear lp)) else if ?a = 0 then Some (Inr (), lp)
           else confirm_prefix E authoritative m lp)"
    using longest_matching_prefix_eq [OF E S _ lp base pending(1)] S auth pending
    by (simp add: observe_authoritative_def split: option.split)
  show thesis
  proof (cases "last_match ?M ?n")
    case None
    then show ?thesis using dropped by (simp add: eq)
  next
    case (Some m)
    note m = last_match_Some [OF Some]
    consider "?a > m" | "?a = 0" | "0 < ?a" "?a \<le> m" by linarith
    then show ?thesis
    proof cases
      case 1
      then show ?thesis using Some dropped by (simp add: eq)
    next
      case 2
      then show ?thesis using Some unchanged [of m] m by (simp add: eq)
    next
      case 3
      obtain lp' where "confirm_prefix E authoritative m lp = Some (Inr (), lp')" "prediction_ok E S lp'"
          "lp_pending lp' = drop m (lp_pending lp)"
        using confirm_prefix_ok [OF E S auth lp pending(2)] by blast
      with Some 3 m confirmed [of lp' m] show ?thesis by (simp add: eq)
    qed
  qed
qed

text \<open>C32: A new state from the server never fails and never panics. Afterwards the pending predictions are a
  suffix of those before, and none of them is one the server has already answered. Predictions survive only when the
  new state looks like the base with the first \<open>m\<close> pending characters drawn on it, where these include all that the
  server has answered; and the epoch becomes confirmed only when at least one of them was answered.\<close>

theorem prediction_follows_server:
  assumes E: "env_prints E" and S: "\<forall>ts \<in> S. state_ok ts" and auth: "authoritative \<in> S" and lp: "prediction_ok E S lp"
    and base: "lp_base lp = Some base"
  shows "\<exists>lp'. observe_authoritative E authoritative lp = Some (Inr (), lp') \<and> prediction_ok E S lp'
    \<and> (\<exists>m. lp_pending lp' = drop m (lp_pending lp))
    \<and> (\<forall>n. ts_echo_acknowledgement authoritative = Some n \<longrightarrow> (\<forall>p \<in> set (lp_pending lp'). n < pp_client_state p))
    \<and> (lp_pending lp' \<noteq> [] \<longrightarrow>
         (\<exists>m. acknowledged_prefix authoritative lp \<le> m \<and> m \<le> length (lp_pending lp)
            \<and> matches (with_predicted_ascii E) (\<lambda>s. display_equivalent E s authoritative) (map pp_byte (lp_pending lp)) base m))
    \<and> (lp_confidence lp' = Confirmed \<and> lp_confidence lp = Tentative \<longrightarrow> 0 < acknowledged_prefix authoritative lp)"
proof -
  have later: "\<forall>n. ts_echo_acknowledgement authoritative = Some n \<longrightarrow> (\<forall>p \<in> set (drop m (lp_pending lp)). n < pp_client_state p)"
    if "acknowledged_prefix authoritative lp \<le> m" for m
    using sorted_takeWhile_all [of pp_client_state "lp_pending lp" _ m] lp that
    by (auto simp: prediction_ok_def acknowledged_prefix_def)
  from assms show ?thesis
  proof (cases rule: observe_authoritative_cases)
    case dropped
    then show ?thesis
      using prediction_ok_clear [OF lp] by (auto simp: prediction_clear_def intro: exI [of _ "length (lp_pending lp)"])
  next
    case (unchanged m)
    then show ?thesis using lp later [of 0] by (auto intro: exI [of _ 0])
  next
    case (confirmed m lp')
    then show ?thesis using later [of m] by auto
  qed
qed

section \<open>A session\<close>

datatype prediction_event =
    TypedBytes u64 bytes TerminalState u64
  | NewState TerminalState
  | ExpireAt u64
  | UpdatePolicy u64 "u64 option"
  | ResetPrediction

fun prediction_step :: "('p, 'm) terminal_env_scheme \<Rightarrow> prediction_event \<Rightarrow> LocalPrediction \<Rightarrow> unit predicted"
  where "prediction_step E (TypedBytes client_state input authoritative now_ms) lp =
      map_option (\<lambda>(r, lp). (map_sum id (\<lambda>_. ()) r, lp)) (observe_input E client_state input authoritative now_ms lp)"
  | "prediction_step E (NewState authoritative) lp = observe_authoritative E authoritative lp"
  | "prediction_step E (ExpireAt now_ms) lp = Some (Inr (), snd (prediction_expire now_ms lp))"
  | "prediction_step E (UpdatePolicy now_ms interval) lp = Some (Inr (), snd (update_policy now_ms interval lp))"
  | "prediction_step E ResetPrediction lp = Some (Inr (), snd (prediction_reset lp))"

fun run_prediction :: "('p, 'm) terminal_env_scheme \<Rightarrow> prediction_event list \<Rightarrow> LocalPrediction \<Rightarrow> (TerminalError + LocalPrediction) option"
  where "run_prediction E [] lp = Some (Inr lp)"
  | "run_prediction E (e # es) lp =
      (case prediction_step E e lp of
         None \<Rightarrow> None
       | Some (Inl error, _) \<Rightarrow> Some (Inl error)
       | Some (Inr _, lp) \<Rightarrow> run_prediction E es lp)"

fun states_of :: "prediction_event \<Rightarrow> TerminalState list"
  where "states_of (TypedBytes _ _ ts _) = [ts]"
  | "states_of (NewState ts) = [ts]"
  | "states_of _ = []"

fun inputs_of :: "prediction_event \<Rightarrow> u64 list"
  where "inputs_of (TypedBytes n _ _ _) = [n]"
  | "inputs_of _ = []"

lemma observe_authoritative_ok:
  assumes "env_prints E" and "\<forall>ts \<in> S. state_ok ts" and "authoritative \<in> S" and "prediction_ok E S lp"
  shows "\<exists>lp'. observe_authoritative E authoritative lp = Some (Inr (), lp') \<and> prediction_ok E S lp'
    \<and> set (lp_pending lp') \<subseteq> set (lp_pending lp)"
proof (cases "lp_pending lp = []")
  case True
  then show ?thesis using assms(4) by (simp add: observe_authoritative_def)
next
  case False
  then obtain base where "lp_base lp = Some base" using assms(4) by (auto simp: prediction_ok_def)
  with assms show ?thesis
  proof (cases rule: observe_authoritative_cases)
    case dropped
    then show ?thesis using prediction_ok_clear [OF assms(4)] by (simp add: prediction_clear_def)
  next
    case (confirmed m lp')
    then show ?thesis by (auto dest: in_set_dropD)
  qed (use assms(4) in auto)
qed

lemma prediction_step_ok:
  assumes "env_prints E" and "\<forall>ts \<in> S. state_ok ts" and "set (states_of e) \<subseteq> S" and "prediction_ok E S lp"
    and "\<forall>p \<in> set (lp_pending lp). \<forall>n \<in> set (inputs_of e @ ns). pp_client_state p \<le> n" and "sorted (inputs_of e @ ns)"
  shows "\<exists>lp'. prediction_step E e lp = Some (Inr (), lp') \<and> prediction_ok E S lp'
    \<and> (\<forall>p \<in> set (lp_pending lp'). \<forall>n \<in> set ns. pp_client_state p \<le> n)"
proof (cases e)
  case (TypedBytes m input ts now)
  then have "ts \<in> S" "\<forall>p \<in> set (lp_pending lp). pp_client_state p \<le> m" "\<forall>n \<in> set ns. m \<le> n" using assms(3,5,6) by auto
  with observe_input_ok [OF assms(1,2) _ assms(4), of ts m input now] TypedBytes show ?thesis by (fastforce dest: order_trans)
next
  case (NewState ts)
  with observe_authoritative_ok [OF assms(1,2) _ assms(4), of ts] assms(3,5) show ?thesis by fastforce
next
  case (ExpireAt now)
  then show ?thesis using assms(4,5) prediction_ok_clear [OF assms(4)] by (auto simp: prediction_expire_def prediction_clear_def)
next
  case (UpdatePolicy now i)
  then show ?thesis using assms(4,5) by (auto simp: update_policy_def Let_def prediction_ok_flags split: option.split)
next
  case ResetPrediction
  then show ?thesis using prediction_ok_clear [OF assms(4)] by (simp add: prediction_reset_def prediction_clear_def)
qed

lemma run_prediction_ok:
  assumes "env_prints E" and "\<forall>ts \<in> S. state_ok ts" and "set (concat (map states_of es)) \<subseteq> S" and "prediction_ok E S lp"
    and "\<forall>p \<in> set (lp_pending lp). \<forall>n \<in> set (concat (map inputs_of es)). pp_client_state p \<le> n"
    and "sorted (concat (map inputs_of es))"
  shows "\<exists>lp'. run_prediction E es lp = Some (Inr lp') \<and> prediction_ok E S lp'"
  using assms(3-6)
proof (induction es arbitrary: lp)
  case (Cons e es)
  let ?ns = "concat (map inputs_of es)"
  obtain lp1 where lp1: "prediction_step E e lp = Some (Inr (), lp1)" "prediction_ok E S lp1"
      "\<forall>p \<in> set (lp_pending lp1). \<forall>n \<in> set ?ns. pp_client_state p \<le> n"
    using prediction_step_ok [OF assms(1,2), of e lp ?ns] Cons.prems by auto
  with Cons.IH [of lp1] Cons.prems show ?case by (simp add: sorted_append)
qed simp

text \<open>C31: Prediction is sound over any sequence of typed bytes, server states, timer checks and policy updates in which
  every state of the server is well-formed (\<open>state_ok\<close>: at least two rows and two columns, no cut wide character, no
  overfull cell) and the client states of the typed bytes do not go back. It then never fails and never panics. What
  is displayed is the authoritative state itself, or a state of the server with the pending typed characters drawn on
  it, at most 32 of them and only in a confirmed epoch. The parser prints a graphic byte as the character it is.\<close>

theorem prediction_sound:
  assumes "env_prints E" and "\<forall>ts \<in> set (concat (map states_of es)). state_ok ts" and "sorted (concat (map inputs_of es))"
  shows "\<exists>lp. run_prediction E es (LocalPrediction_new m) = Some (Inr lp) \<and> length (lp_pending lp) \<le> 32
    \<and> (\<forall>authoritative. display lp authoritative = authoritative
         \<or> lp_mode lp \<noteq> Never \<and> lp_confidence lp = Confirmed
           \<and> (\<exists>base \<in> set (concat (map states_of es)).
                replay (with_predicted_ascii E) (map pp_byte (lp_pending lp)) base = Some (Inr (display lp authoritative))))"
proof -
  let ?S = "set (concat (map states_of es))"
  obtain lp where lp: "run_prediction E es (LocalPrediction_new m) = Some (Inr lp)" "prediction_ok E ?S lp"
    using run_prediction_ok [OF assms(1,2) subset_refl prediction_ok_new _ assms(3), of m]
    by (auto simp: LocalPrediction_new_def)
  have "display lp authoritative = authoritative
         \<or> lp_mode lp \<noteq> Never \<and> lp_confidence lp = Confirmed
           \<and> (\<exists>base \<in> ?S. replay (with_predicted_ascii E) (map pp_byte (lp_pending lp)) base = Some (Inr (display lp authoritative)))"
    for authoritative
    using lp(2) by (auto simp: display_def displaying_prediction_def prediction_ok_def split: PredictionMode.splits)
  with lp show ?thesis by (auto simp: prediction_ok_def)
qed

text \<open>The one way in which the display changes without a timer: the measured frame interval says for the first time that
  the link is slow, while confirmed predictions are held back.\<close>

definition link_turns_slow :: "u64 option \<Rightarrow> LocalPrediction \<Rightarrow> bool"
  where "link_turns_slow interval lp \<longleftrightarrow>
    lp_mode lp = Adaptive \<and> lp_confidence lp = Confirmed \<and> lp_pending lp \<noteq> []
    \<and> \<not> lp_adaptive_slow_link lp \<and> \<not> lp_adaptive_glitch lp
    \<and> (case interval of None \<Rightarrow> False | Some ms \<Rightarrow> ADAPTIVE_PREDICTION_ENABLE_FRAME_MS < ms)"

text \<open>C33: The announced deadline is exact, whatever frame interval the policy is given. Before it nothing expires, and
  the policy changes what is displayed exactly when the interval shows the link to have turned slow; from the
  deadline on, all predictions are dropped or the display changes. Without a deadline nothing expires and the
  display never changes.\<close>

theorem prediction_deadline_exact:
  "(case prediction_next_deadline_ms lp of
      None \<Rightarrow> prediction_expire now_ms lp = (False, lp) \<and> \<not> fst (update_policy now_ms interval lp)
    | Some t \<Rightarrow>
        if now_ms < t
        then prediction_expire now_ms lp = (False, lp) \<and> fst (update_policy now_ms interval lp) = link_turns_slow interval lp
        else lp_pending (snd (prediction_expire now_ms lp)) = [] \<or> fst (update_policy now_ms interval lp))"
  unfolding prediction_next_deadline_ms_def prediction_expire_def expiration_deadline_ms_def update_policy_def Let_def
    displaying_prediction_def prediction_clear_def front_plus_def link_turns_slow_def
  by (auto split: list.split option.split PredictionMode.splits)

section \<open>Examples\<close>

lemma demo_env_prints: "env_prints demo_env"
proof -
  have "vte_prints (env_vte demo_env)" by (auto simp: vte_prints_def demo_env_def demo_vte_def graphic_def)
  then show ?thesis by (simp add: env_prints_def demo_env_ok)
qed

lemma demo_state_state_ok: "state_ok demo_state"
proof -
  have "grid_small (screen_grid (ts_screen demo_state))"
    by (simp add: demo_state_def Screen_new_def screen_grid_def mode_def Grid_new_def allocate_rows_def grid_small_def list_all_iff)
  then show ?thesis using demo_state_ok by (simp add: state_ok_def)
qed

lemma demo_prediction:
  "\<exists>lp. prediction_ok demo_env {demo_state} lp \<and> lp_base lp = Some demo_state \<and> acknowledged_prefix demo_state lp = 1"
proof -
  have "\<exists>b lp. observe_input demo_env 1 [0x61] demo_state 0 (LocalPrediction_new Always) = Some (Inr b, lp)
      \<and> prediction_ok demo_env {demo_state} lp"
    using observe_input_ok [OF demo_env_prints _ _ prediction_ok_new, of "{demo_state}" demo_state Always 1 "[0x61]" 0]
      demo_state_state_ok by (auto simp: LocalPrediction_new_def)
  then obtain b lp where lp: "observe_input demo_env 1 [0x61] demo_state 0 (LocalPrediction_new Always) = Some (Inr b, lp)"
      "prediction_ok demo_env {demo_state} lp" by blast
  have "lp_base lp = Some demo_state" "map pp_client_state (lp_pending lp) = [1]"
    using lp(1) by (auto simp: observe_input_def LocalPrediction_new_def predictable_byte_def Let_def word_le_nat_alt
        split: Option.bind_splits sum.splits if_splits)
  then have "acknowledged_prefix demo_state lp = 1" by (auto simp: acknowledged_prefix_def demo_state_def map_eq_Cons_conv)
  with lp \<open>lp_base lp = Some demo_state\<close> show ?thesis by blast
qed

theorem prediction_follows_server_witness:
  "\<exists>lp lp'. lp_base lp = Some demo_state \<and> acknowledged_prefix demo_state lp = 1
    \<and> observe_authoritative demo_env demo_state lp = Some (Inr (), lp')
    \<and> (\<forall>p \<in> set (lp_pending lp'). 2 < pp_client_state p)"
proof -
  obtain lp where lp: "prediction_ok demo_env {demo_state} lp" "lp_base lp = Some demo_state" "acknowledged_prefix demo_state lp = 1"
    using demo_prediction by blast
  moreover have "ts_echo_acknowledgement demo_state = Some 2" by (simp add: demo_state_def)
  ultimately show ?thesis
    using prediction_follows_server [OF demo_env_prints, of "{demo_state}" demo_state lp demo_state] demo_state_state_ok by auto
qed

theorem prediction_sound_witness:
  "\<exists>lp. run_prediction demo_env [TypedBytes 1 [0x61] demo_state 0, NewState demo_state, ExpireAt 20000] (LocalPrediction_new Always)
      = Some (Inr lp) \<and> length (lp_pending lp) \<le> 32"
  using prediction_sound [OF demo_env_prints, of "[TypedBytes 1 [0x61] demo_state 0, NewState demo_state, ExpireAt 20000]" Always]
    demo_state_state_ok by auto

end
