(* ===== verification/Driver.thy ===== *)
theory Driver
  imports Client_History Bootstrap Prediction
begin

text \<open>
  The session driver, \<open>src/session/driver.rs\<close>. Its state is a record with the components of the other theories.
  The channels and the socket appear as what went through them: the datagrams given to the socket, the chunks
  given to the output channel, the last published states. What the outside does is an argument: every reading
  of the clock, every result of a send, every cancellation flag that is read, and what is ready when the task
  wakes up. Crates outside the repository are gathered in the record \<open>externals\<close>. An operation returns a value,
  or the error or panic it ended with, and the state it left.
\<close>

section \<open>Data\<close>

datatype SessionState = Connecting | Active | Closed

datatype SessionExit = LocalClosed | RemoteClosed | Cancelled | OwnerDropped

datatype SessionCommand =
    Input bytes
  | Resize u32 u32
  | Repaint

datatype DatagramOutcome = Continue | RemoteShutdown

datatype TransportSendOutcome = Sent | SendCancelled | Deferred

record ('s, 'p) externals =
  ext_aead :: aead
  ext_zlib :: "'s zlib"
  ext_instruction_pb :: "TransportInstruction prost"
  ext_client_pb :: "Instruction.TerminalDifference prost"
  ext_host_pb :: "WireHostDifference prost"
  ext_terminal :: "'p terminal_env"

record SessionDriver =
  sd_server_addr :: SocketAddrV4
  sd_key :: SessionKey
  sd_packet_receiver :: PacketReceiver
  sd_send_sequence :: SendSequence
  sd_fragment_identifier :: "u64 option"
  sd_reassembler :: FragmentReassembler
  sd_synchronization :: SynchronizationState
  sd_scheduler :: SendScheduler
  sd_datagram_timing :: DatagramTiming
  sd_client_history :: ClientHistory
  sd_terminal_states :: "(u64, TerminalState) btree"
  sd_prediction :: LocalPrediction
  sd_painted_state :: "TerminalState option"
  sd_output_requested :: bool
  sd_force_full_repaint :: bool
  sd_receive_not_before_ms :: u64
  sd_state :: SessionState
  sd_reachability :: ReachabilityTracker
  sd_published_reachability :: SessionReachability
  sd_final_terminal :: "TerminalState option"
  sd_socket :: "bytes list"
  sd_output :: "bytes list"

type_synonym 'a driven = "(fault, 'a, SessionDriver) outcome"

abbreviation (input) INITIAL_CHAFF :: bytes where "INITIAL_CHAFF \<equiv> [0]"

section \<open>Parts of the state\<close>

text \<open>An operation of a component, run on its field: \<open>update\<close> stores the new field also when it fails.\<close>

definition part :: "('e \<Rightarrow> DriverError) \<Rightarrow> ('e, 'a, 'f) outcome \<Rightarrow> ('f \<Rightarrow> SessionDriver) \<Rightarrow> 'a driven"
  where "part conversion r update = (lift_error conversion (fst r), update (snd r))"

text \<open>A fallible computation that may panic and changes nothing.\<close>

definition asked :: "('e \<Rightarrow> DriverError) \<Rightarrow> ('e + 'a) option \<Rightarrow> SessionDriver \<Rightarrow> 'a driven"
  where "asked conversion r d = (case r of None \<Rightarrow> (Inl Panicked, d) | Some x \<Rightarrow> (lift_error conversion x, d))"

definition predicted :: "'a predicted \<Rightarrow> SessionDriver \<Rightarrow> 'a driven"
  where "predicted r d =
    (case r of
       None \<Rightarrow> (Inl Panicked, d)
     | Some (x, prediction) \<Rightarrow> (lift_error Terminal x, d\<lparr> sd_prediction := prediction \<rparr>))"

definition now_ms :: "nat \<Rightarrow> SessionDriver \<Rightarrow> u64 driven"
  where "now_ms elapsed d = (if elapsed < 2 ^ 64 then Inr (of_nat elapsed) else Inl (Raised ClockExhausted), d)"

definition retransmission_timeout_ms :: "SessionDriver \<Rightarrow> u64"
  where "retransmission_timeout_ms d = re_retransmission_timeout_ms (dt_estimator (sd_datagram_timing d))"

definition io_retry_ms :: "SessionDriver \<Rightarrow> u64"
  where "io_retry_ms d = max (retransmission_timeout_ms d) INITIAL_RETRANSMISSION_TIMEOUT_MS"

definition identifier_take :: "u64 option \<Rightarrow> (DriverError, u64, u64 option) outcome"
  where "identifier_take next =
    (case next of
       None \<Rightarrow> (Inl FragmentIdentifierExhausted, next)
     | Some identifier \<Rightarrow> (Inr identifier, checked_add identifier 1))"

definition latest_terminal_state :: "SessionDriver \<Rightarrow> DriverError + TerminalState"
  where "latest_terminal_state d =
    (case sd_final_terminal d of
       Some final_terminal \<Rightarrow> Inr final_terminal
     | None \<Rightarrow> ok_or MissingTerminalState (bt_get (sd_terminal_states d) (sy_remote_latest (sd_synchronization d))))"

definition discard_terminal_states :: "u64 \<Rightarrow> u64 option \<Rightarrow> SessionDriver \<Rightarrow> SessionDriver"
  where "discard_terminal_states floor capacity_evicted d =
    (let kept = bt_retain (\<lambda>state. state \<ge> floor) (sd_terminal_states d) in
     d\<lparr> sd_terminal_states := (case capacity_evicted of None \<Rightarrow> kept | Some evicted \<Rightarrow> bt_remove evicted kept) \<rparr>)"

definition publish_reachability :: "u64 \<Rightarrow> SessionDriver \<Rightarrow> unit driven"
  where "publish_reachability now d =
    and_then (part Reachability (reachability_update (sd_reachability d) now) (\<lambda>r. d\<lparr> sd_reachability := r \<rparr>))
      (\<lambda>changed d. (Inr (),
         (case changed of None \<Rightarrow> d | Some reachability \<Rightarrow> d\<lparr> sd_published_reachability := reachability \<rparr>)))"

section \<open>Connecting\<close>

text \<open>The socket is bound by the system: \<open>bound\<close> is the error of that call, if any.\<close>

definition driver_connect :: "('s, 'p) externals \<Rightarrow> ErrorKind option \<Rightarrow> Bootstrap \<Rightarrow> u32 \<Rightarrow> u32 \<Rightarrow> PredictionMode \<Rightarrow> DriverError + SessionDriver"
  where "driver_connect X bound bootstrap columns rows prediction_mode =
    (case TerminalState_new columns rows of
       Inl e \<Rightarrow> Inl (Terminal e)
     | Inr initial_terminal \<Rightarrow>
    (case bound of
       Some kind \<Rightarrow> Inl (Io kind)
     | None \<Rightarrow>
    (case history_append (ext_client_pb X) ClientHistory_new (ClientOperation.Resize columns rows) of
       (Inl e, _) \<Rightarrow> Inl e
     | (Inr _, client_history) \<Rightarrow>
    (case advance_local SynchronizationState_new of
       (Inl e, _) \<Rightarrow> Inl (Synchronization e)
     | (Inr initial_state, synchronization) \<Rightarrow>
    (case note_local_change (SendScheduler_new 0) 0 of
       (Inl e, _) \<Rightarrow> Inl (Timing e)
     | (Inr _, scheduler) \<Rightarrow>
         Inr \<lparr> sd_server_addr = bs_server_addr bootstrap, sd_key = bs_session_key bootstrap,
               sd_packet_receiver = PacketReceiver_new (bs_session_key bootstrap) ServerToClient,
               sd_send_sequence = SendSequence_new, sd_fragment_identifier = Some 0,
               sd_reassembler = FragmentReassembler_new 0, sd_synchronization = synchronization,
               sd_scheduler = scheduler, sd_datagram_timing = DatagramTiming_new 0,
               sd_client_history = checkpoint client_history initial_state,
               sd_terminal_states = bt_insert 0 initial_terminal bt_empty,
               sd_prediction = LocalPrediction_new prediction_mode, sd_painted_state = None,
               sd_output_requested = False, sd_force_full_repaint = False, sd_receive_not_before_ms = 0,
               sd_state = Connecting, sd_reachability = ReachabilityTracker_new,
               sd_published_reachability = rt_current ReachabilityTracker_new, sd_final_terminal = None,
               sd_socket = [], sd_output = [] \<rparr>)))))"

section \<open>Commands of the application\<close>

definition advance_client :: "('s, 'p) externals \<Rightarrow> ClientOperation \<Rightarrow> u64 \<Rightarrow> SessionDriver \<Rightarrow> u64 driven"
  where "advance_client X operation now d =
    and_then (part id (history_append (ext_client_pb X) (sd_client_history d) operation) (\<lambda>h. d\<lparr> sd_client_history := h \<rparr>)) (\<lambda>_ d.
    and_then (part Synchronization (advance_local (sd_synchronization d)) (\<lambda>sy. d\<lparr> sd_synchronization := sy \<rparr>)) (\<lambda>state d.
      let d = d\<lparr> sd_client_history := checkpoint (sd_client_history d) state \<rparr> in
    and_then (part Timing (note_local_change (sd_scheduler d) now) (\<lambda>sc. d\<lparr> sd_scheduler := sc \<rparr>)) (\<lambda>_ d.
      (Inr state, d))))"

text \<open>The call of \<open>observe_input\<close> with the newest authoritative state.\<close>

definition predict_input :: "('s, 'p) externals \<Rightarrow> u64 \<Rightarrow> bytes \<Rightarrow> u64 \<Rightarrow> SessionDriver \<Rightarrow> unit driven"
  where "predict_input X state input now d =
    (case bt_get (sd_terminal_states d) (sy_remote_latest (sd_synchronization d)) of
       None \<Rightarrow> (Inl (Raised MissingTerminalState), d)
     | Some authoritative \<Rightarrow>
         and_then (predicted (observe_input (ext_terminal X) state input authoritative now (sd_prediction d)) d) (\<lambda>changed d.
           (Inr (), if changed then d\<lparr> sd_output_requested := True \<rparr> else d)))"

definition handle_command :: "('s, 'p) externals \<Rightarrow> nat \<Rightarrow> SessionCommand \<Rightarrow> SessionDriver \<Rightarrow> unit driven"
  where "handle_command X elapsed command d =
    and_then (now_ms elapsed d) (\<lambda>now d.
      case command of
        Input input \<Rightarrow>
          if input = [] then (Inr (), d)
          else and_then (advance_client X (ClientOperation.Input input) now d) (\<lambda>state d. predict_input X state input now d)
      | Resize columns rows \<Rightarrow>
          and_then (advance_client X (ClientOperation.Resize columns rows) now d) (\<lambda>_ d.
            predict_input X (sy_local_latest (sd_synchronization d)) [] now d)
      | Repaint \<Rightarrow>
          (Inr (), d\<lparr> sd_prediction := snd (prediction_reset (sd_prediction d)), sd_output_requested := True,
                      sd_force_full_repaint := True \<rparr>))"

section \<open>Sending\<close>

text \<open>What the outside does while the fragments of an instruction are sent: for each of them the cancellation flag
  and the result of the socket.\<close>

type_synonym send_env = "nat \<Rightarrow> bool \<times> (ErrorKind + nat)"

function (sequential) chunks :: "nat \<Rightarrow> 'a list \<Rightarrow> 'a list list"
  where "chunks n xs = (if xs = [] \<or> n = 0 then [] else take n xs # chunks n (drop n xs))"
  by pat_completeness auto
termination by (relation "measure (\<lambda>(n, xs). length xs)") auto

declare chunks.simps [simp del]

fun send_fragments ::
    "('s, 'p) externals \<Rightarrow> OutgoingTimestamps \<Rightarrow> u64 \<Rightarrow> nat \<Rightarrow> send_env \<Rightarrow> (nat \<times> bytes) list \<Rightarrow> bytes \<Rightarrow> bytes \<Rightarrow> SessionDriver \<Rightarrow> TransportSendOutcome driven"
  where
    "send_fragments X timestamps identifier fragment_count env [] plaintext datagram d = (Inr Sent, d)"
  | "send_fragments X timestamps identifier fragment_count env ((number, body) # rest) plaintext datagram d =
      (if fst (env number) then (Inr SendCancelled, d)
       else if number \<ge> 65536 then (Inl (Raised FragmentIdentifierExhausted), d)
       else
         (case fragment_encode (ot_timestamp timestamps) (ot_timestamp_reply timestamps) identifier (of_nat number)
                 (number + 1 = fragment_count) body plaintext of
            (Inl e, _) \<Rightarrow> (Inl (Raised (Fragment e)), d)
          | (Inr plaintext_len, plaintext) \<Rightarrow>
         and_then (part Packet (send_sequence_take (sd_send_sequence d)) (\<lambda>s. d\<lparr> sd_send_sequence := s \<rparr>)) (\<lambda>sequence d.
         (case packet_seal (ext_aead X) (sd_key d) ClientToServer sequence (take plaintext_len plaintext) datagram of
            (Inl e, _) \<Rightarrow> (Inl (Raised (Packet e)), d)
          | (Inr datagram_len, datagram) \<Rightarrow>
         (case snd (env number) of
            Inl kind \<Rightarrow>
              if sd_state d = Active \<and> is_recoverable_established_io_error kind then (Inr Deferred, d)
              else (Inl (Raised (Io kind)), d)
          | Inr sent \<Rightarrow>
              let d = d\<lparr> sd_socket := sd_socket d @ [take datagram_len datagram] \<rparr> in
              if sent \<noteq> datagram_len then (Inl (Raised IncompleteDatagramSend), d)
              else send_fragments X timestamps identifier fragment_count env rest plaintext datagram d)))))"

definition send_transport_instruction :: "('s, 'p) externals \<Rightarrow> TransportInstruction \<Rightarrow> u64 \<Rightarrow> send_env \<Rightarrow> SessionDriver \<Rightarrow> TransportSendOutcome driven"
  where "send_transport_instruction X instruction now env d =
    and_then (lift_error Instruction (encode_zlib (ext_zlib X) (ext_instruction_pb X) instruction), d) (\<lambda>compressed d.
    and_then (part Timing (outgoing (sd_datagram_timing d) now) (\<lambda>t. d\<lparr> sd_datagram_timing := t \<rparr>)) (\<lambda>timestamps d.
    and_then (part id (identifier_take (sd_fragment_identifier d)) (\<lambda>i. d\<lparr> sd_fragment_identifier := i \<rparr>)) (\<lambda>identifier d.
      send_fragments X timestamps identifier ((length compressed + MAX_FRAGMENT_BODY_BYTES - 1) div MAX_FRAGMENT_BODY_BYTES) env
        (enumerate 0 (chunks MAX_FRAGMENT_BODY_BYTES compressed))
        (replicate MAX_DATAGRAM_BYTES 0) (replicate MAX_DATAGRAM_BYTES 0) d)))"

definition defer_temporary_send :: "u64 \<Rightarrow> SessionDriver \<Rightarrow> unit driven"
  where "defer_temporary_send now d =
    part Timing (defer_send (sd_scheduler d) now (io_retry_ms d)) (\<lambda>sc. d\<lparr> sd_scheduler := sc \<rparr>)"

definition commit_sent :: "SendPlan \<Rightarrow> SessionDriver \<Rightarrow> unit driven"
  where "commit_sent send_plan d =
    and_then (part Synchronization (commit_send (sd_synchronization d) send_plan) (\<lambda>sy. d\<lparr> sd_synchronization := sy \<rparr>)) (\<lambda>commit d.
      (Inr (),
       (case sc_capacity_evicted_state commit of
          None \<Rightarrow> d
        | Some evicted \<Rightarrow> d\<lparr> sd_client_history := remove_checkpoint (sd_client_history d) evicted \<rparr>)))"

definition driver_plan_send :: "u64 \<Rightarrow> SessionDriver \<Rightarrow> SynchronizationError + SendPlan"
  where "driver_plan_send now d = plan_send (sd_synchronization d) now (retransmission_timeout_ms d)"

definition advance_empty :: "SessionDriver \<Rightarrow> unit driven"
  where "advance_empty d =
    and_then (part Synchronization (advance_local (sd_synchronization d)) (\<lambda>sy. d\<lparr> sd_synchronization := sy \<rparr>)) (\<lambda>state d.
      (Inr (), d\<lparr> sd_client_history := checkpoint (sd_client_history d) state \<rparr>))"

definition choose_plan :: "u64 \<Rightarrow> SessionDriver \<Rightarrow> SendPlan driven"
  where "choose_plan now d =
    (case driver_plan_send now d of
       Inr plan \<Rightarrow> (Inr plan, d)
     | Inl e \<Rightarrow>
         if e = NoNewState then and_then (advance_empty d) (\<lambda>_ d. (lift_error Synchronization (driver_plan_send now d), d))
         else (Inl (Raised (Synchronization e)), d))"

definition finish_send :: "WakePlan \<Rightarrow> SendPlan \<Rightarrow> nat \<Rightarrow> TransportSendOutcome \<Rightarrow> SessionDriver \<Rightarrow> unit driven"
  where "finish_send wake_plan send_plan elapsed outcome d =
    (case outcome of
       SendCancelled \<Rightarrow> (Inr (), d)
     | Deferred \<Rightarrow> and_then (now_ms elapsed d) defer_temporary_send
     | Sent \<Rightarrow>
         and_then (commit_sent send_plan d) (\<lambda>_ d.
           part Timing (scheduler_commit_send (sd_scheduler d) wake_plan) (\<lambda>sc. d\<lparr> sd_scheduler := sc \<rparr>)))"

definition plan_difference :: "('s, 'p) externals \<Rightarrow> SendPlan \<Rightarrow> SessionDriver \<Rightarrow> bytes driven"
  where "plan_difference X send_plan d =
    (lift_error id (history_difference (ext_client_pb X) (sd_client_history d) (sp_base_state send_plan) (sp_target_state send_plan)), d)"

definition send_instruction :: "('s, 'p) externals \<Rightarrow> WakePlan \<Rightarrow> u64 \<Rightarrow> send_env \<Rightarrow> nat \<Rightarrow> SessionDriver \<Rightarrow> unit driven"
  where "send_instruction X wake_plan now env elapsed d =
    and_then (choose_plan now d) (\<lambda>send_plan d.
    and_then (plan_difference X send_plan d) (\<lambda>difference d.
    and_then (send_transport_instruction X (plan_instruction send_plan difference INITIAL_CHAFF) now env d)
      (finish_send wake_plan send_plan elapsed)))"

section \<open>Receiving\<close>

definition defer_receive :: "u64 \<Rightarrow> SessionDriver \<Rightarrow> unit driven"
  where "defer_receive now d =
    (case checked_add now (io_retry_ms d) of
       None \<Rightarrow> (Inl (Raised ClockExhausted), d)
     | Some t \<Rightarrow> (Inr (), d\<lparr> sd_receive_not_before_ms := t \<rparr>))"

type_synonym datagram_result = "ErrorKind + (bytes \<times> SocketAddr)"

definition classify_receive :: "nat \<Rightarrow> datagram_result \<Rightarrow> SessionDriver \<Rightarrow> (bytes \<times> SocketAddr) option driven"
  where "classify_receive elapsed result d =
    (case result of
       Inr received \<Rightarrow> (Inr (Some received), d\<lparr> sd_receive_not_before_ms := 0 \<rparr>)
     | Inl kind \<Rightarrow>
         if sd_state d = Active \<and> is_recoverable_established_io_error kind
         then and_then (now_ms elapsed d) (\<lambda>failed_at d. and_then (defer_receive failed_at d) (\<lambda>_ d. (Inr None, d)))
         else (Inl (Raised (Io kind)), d))"

definition ignored_packet_error :: "PacketError \<Rightarrow> bool"
  where "ignored_packet_error e \<longleftrightarrow>
    e \<in> {DatagramTooShort, DatagramTooLarge, WrongDirection, AuthenticationFailed, Replay, TooOld, UnexpectedSource}"

definition accept_fragment :: "('s, 'p) externals \<Rightarrow> u64 \<Rightarrow> OpenedPacket \<Rightarrow> SessionDriver \<Rightarrow> TransportInstruction option driven"
  where "accept_fragment X now opened d =
    and_then (lift_error Fragment (fragment_decode (op_plaintext opened)), d) (\<lambda>decoded d.
    and_then (part Timing
        (observe_received (sd_datagram_timing d) (op_sequence opened) (fr_timestamp decoded) (fr_timestamp_reply decoded) now)
        (\<lambda>t. d\<lparr> sd_datagram_timing := t \<rparr>)) (\<lambda>_ d.
    and_then (part Reassembly (ra_push (sd_reassembler d) now decoded) (\<lambda>r. d\<lparr> sd_reassembler := r \<rparr>)) (\<lambda>outcome d.
      case outcome of
        Complete compressed \<Rightarrow>
          and_then (asked Instruction (decode_zlib (ext_zlib X) (ext_instruction_pb X) compressed) d)
            (\<lambda>instruction d. (Inr (Some instruction), d))
      | _ \<Rightarrow> (Inr None, d))))"

definition decode_datagram :: "('s, 'p) externals \<Rightarrow> nat \<Rightarrow> bytes \<Rightarrow> SocketAddr \<Rightarrow> SessionDriver \<Rightarrow> TransportInstruction option driven"
  where "decode_datagram X elapsed datagram source d =
    and_then (now_ms elapsed d) (\<lambda>now d.
      let (opened, receiver, buffer) = receiver_open_from (ext_aead X) (sd_packet_receiver d) (sd_server_addr d) source datagram;
          d = d\<lparr> sd_packet_receiver := receiver \<rparr>
      in case opened of
           Inl e \<Rightarrow> if ignored_packet_error e then (Inr None, d) else (Inl (Raised (Packet e)), d)
         | Inr opened \<Rightarrow> accept_fragment X now opened d)"

text \<open>The terminal state that a difference of the server makes from a reference state.\<close>

definition apply_difference :: "('s, 'p) externals \<Rightarrow> u64 \<Rightarrow> bytes \<Rightarrow> SessionDriver \<Rightarrow> TerminalState driven"
  where "apply_difference X base_state difference d =
    (case bt_get (sd_terminal_states d) base_state of
       None \<Rightarrow> (Inl (Raised MissingTerminalState), d)
     | Some base \<Rightarrow>
         and_then (lift_error Terminal (TerminalDifference_decode (ext_host_pb X) difference), d) (\<lambda>difference d.
           asked Terminal (terminal_apply (ext_terminal X) base difference) d))"

definition note_newest :: "('s, 'p) externals \<Rightarrow> u64 \<Rightarrow> u64 \<Rightarrow> SessionDriver \<Rightarrow> unit driven"
  where "note_newest X target now d =
    (let d = d\<lparr> sd_reachability := note_contact (sd_reachability d) now \<rparr> in
     case bt_get (sd_terminal_states d) target of
       None \<Rightarrow> (Inl (Raised MissingTerminalState), d)
     | Some authoritative \<Rightarrow>
         and_then (predicted (observe_authoritative (ext_terminal X) authoritative (sd_prediction d)) d) (\<lambda>_ d.
           (Inr (), (if sd_state d = Connecting then d\<lparr> sd_state := Active \<rparr> else d)\<lparr> sd_output_requested := True \<rparr>)))"

definition apply_plan :: "('s, 'p) externals \<Rightarrow> ApplyPlan \<Rightarrow> u64 \<Rightarrow> SessionDriver \<Rightarrow> unit driven"
  where "apply_plan X plan now d =
    and_then (apply_difference X (ap_base_state plan) (ap_difference plan) d) (\<lambda>next d.
    and_then (part Synchronization (commit_receive (sd_synchronization d) plan) (\<lambda>sy. d\<lparr> sd_synchronization := sy \<rparr>)) (\<lambda>commit d.
      let d = d\<lparr> sd_terminal_states := bt_insert (ap_target_state plan) next (sd_terminal_states d) \<rparr>;
          d = discard_terminal_states (rc_discard_before_state commit) (rc_capacity_evicted_state commit) d
      in if ap_target_state plan = sy_remote_latest (sd_synchronization d) then note_newest X (ap_target_state plan) now d
         else (Inr (), d)))"

definition acknowledge_history :: "SessionDriver \<Rightarrow> unit driven"
  where "acknowledge_history d =
    (let (r, h) = acknowledge (sd_client_history d) (sy_known_receiver_state (sd_synchronization d))
     in (r, d\<lparr> sd_client_history := h \<rparr>))"

definition receive_transition :: "('s, 'p) externals \<Rightarrow> u64 \<Rightarrow> u64 option \<Rightarrow> ReceiveTransition \<Rightarrow> SessionDriver \<Rightarrow> unit driven"
  where "receive_transition X now acknowledged_sent_at_ms transition d =
    (let d = (case (rt_acknowledgement transition, acknowledged_sent_at_ms) of
                (Advanced _ _, Some sent_at_ms) \<Rightarrow> d\<lparr> sd_reachability := note_reply (sd_reachability d) sent_at_ms \<rparr>
              | _ \<Rightarrow> d) in
     and_then (acknowledge_history d) (\<lambda>_ d.
     and_then (part Timing (note_acknowledgement_needed (sd_scheduler d) now) (\<lambda>sc. d\<lparr> sd_scheduler := sc \<rparr>)) (\<lambda>_ d.
     and_then (case rt_remote_state transition of Apply plan \<Rightarrow> apply_plan X plan now d | _ \<Rightarrow> (Inr (), d)) (\<lambda>_ d.
       publish_reachability now d))))"

definition handle_normal_instruction :: "('s, 'p) externals \<Rightarrow> nat \<Rightarrow> TransportInstruction \<Rightarrow> SessionDriver \<Rightarrow> unit driven"
  where "handle_normal_instruction X elapsed instruction d =
    and_then (now_ms elapsed d) (\<lambda>now d.
      let acknowledged_sent_at_ms = sent_state_sent_at_ms (sd_synchronization d) (ti_acknowledged_state instruction) in
      and_then (part Synchronization (begin_receive (sd_synchronization d) instruction) (\<lambda>sy. d\<lparr> sd_synchronization := sy \<rparr>))
        (receive_transition X now acknowledged_sent_at_ms))"

definition handle_remote_shutdown :: "('s, 'p) externals \<Rightarrow> TransportInstruction \<Rightarrow> SessionDriver \<Rightarrow> unit driven"
  where "handle_remote_shutdown X instruction d =
    (let shutdown = (if ti_acknowledged_state instruction = SHUTDOWN_STATE
                     then instruction\<lparr> ti_acknowledged_state := sy_known_receiver_state (sd_synchronization d) \<rparr>
                     else instruction) in
     and_then (part Synchronization (begin_shutdown_receive (sd_synchronization d) shutdown) (\<lambda>sy. d\<lparr> sd_synchronization := sy \<rparr>))
       (\<lambda>transition d.
     and_then (acknowledge_history d) (\<lambda>_ d.
     and_then (apply_difference X (st_base_state transition) (st_difference transition) d) (\<lambda>final_terminal d.
       (Inr (), d\<lparr> sd_final_terminal := Some final_terminal, sd_prediction := snd (prediction_reset (sd_prediction d)),
                   sd_output_requested := True \<rparr>)))))"

definition handle_datagram :: "('s, 'p) externals \<Rightarrow> nat \<Rightarrow> nat \<Rightarrow> bytes \<Rightarrow> SocketAddr \<Rightarrow> SessionDriver \<Rightarrow> DatagramOutcome driven"
  where "handle_datagram X elapsed elapsed' datagram source d =
    and_then (decode_datagram X elapsed datagram source d) (\<lambda>decoded d.
      case decoded of
        None \<Rightarrow> (Inr Continue, d)
      | Some instruction \<Rightarrow>
          if is_shutdown instruction
          then and_then (handle_remote_shutdown X instruction d) (\<lambda>_ d. (Inr RemoteShutdown, d))
          else and_then (handle_normal_instruction X elapsed' instruction d) (\<lambda>_ d. (Inr Continue, d)))"

section \<open>Output\<close>

definition emit_output :: "('s, 'p) externals \<Rightarrow> SessionDriver \<Rightarrow> unit driven"
  where "emit_output X d =
    and_then (lift_error id (latest_terminal_state d), d) (\<lambda>authoritative d.
      let current = display (sd_prediction d) authoritative in
    and_then (asked Paint
        (if sd_force_full_repaint d then paint_full (ext_terminal X) current
         else (case sd_painted_state d of
                 Some previous \<Rightarrow> paint_incremental (ext_terminal X) previous current
               | None \<Rightarrow> paint_full (ext_terminal X) current)) d) (\<lambda>chunk d.
      (Inr (), d\<lparr> sd_output := sd_output d @ [chunk], sd_painted_state := Some current, sd_output_requested := False,
                  sd_force_full_repaint := False \<rparr>)))"

section \<open>Closing\<close>

definition finish_acknowledgement :: "SendPlan \<Rightarrow> TransportSendOutcome \<Rightarrow> SessionDriver \<Rightarrow> bool driven"
  where "finish_acknowledgement send_plan outcome d =
    (case outcome of
       SendCancelled \<Rightarrow> (Inr False, d)
     | Deferred \<Rightarrow> (Inr True, d)
     | Sent \<Rightarrow> and_then (commit_sent send_plan d) (\<lambda>_ d. (Inr True, d)))"

definition send_shutdown_acknowledgement :: "('s, 'p) externals \<Rightarrow> u64 \<Rightarrow> send_env \<Rightarrow> SessionDriver \<Rightarrow> bool driven"
  where "send_shutdown_acknowledgement X now env d =
    and_then (advance_empty d) (\<lambda>_ d.
    and_then (lift_error Synchronization (driver_plan_send now d), d) (\<lambda>send_plan d.
    and_then (plan_difference X send_plan d) (\<lambda>difference d.
    and_then (send_transport_instruction X
        ((plan_instruction send_plan difference INITIAL_CHAFF)\<lparr> ti_acknowledged_state := SHUTDOWN_STATE \<rparr>) now env d)
      (finish_acknowledgement send_plan))))"

definition send_shutdown_request :: "('s, 'p) externals \<Rightarrow> u64 \<Rightarrow> send_env \<Rightarrow> SessionDriver \<Rightarrow> TransportSendOutcome driven"
  where "send_shutdown_request X now env d =
    (let base_state = sy_known_receiver_state (sd_synchronization d);
         current_state = sy_local_latest (sd_synchronization d) in
     and_then (lift_error id (history_difference (ext_client_pb X) (sd_client_history d) base_state current_state), d) (\<lambda>difference d.
       send_transport_instruction X
         \<lparr> ti_protocol_version = PROTOCOL_VERSION, ti_base_state = base_state, ti_new_state = SHUTDOWN_STATE,
           ti_acknowledged_state = sy_remote_latest (sd_synchronization d), ti_discard_before_state = base_state,
           ti_state_difference = difference, ti_chaff = INITIAL_CHAFF \<rparr> now env d))"

text \<open>The message identifiers of the outgoing fragments keep the ticket contract, as the packet
  sequence numbers do: no two messages of a session are sent under one identifier.\<close>

interpretation identifier_tickets: ticket_source identifier_take "\<lambda>s. s"
proof unfold_locales
  fix s s' :: "u64 option" and n
  assume "identifier_take s = (Inr n, s')"
  then show "s = Some n \<and> (case s' of None \<Rightarrow> True | Some m \<Rightarrow> n < m)"
    by (auto simp: identifier_take_def split: option.splits dest: checked_add_one_less)
next
  fix s s' :: "u64 option" and e
  assume "identifier_take s = (Inl e, s')"
  then show "s = None \<and> s' = s" by (auto simp: identifier_take_def split: option.splits)
qed

lemmas identifiers_distinct = identifier_tickets.drawn_distinct

end
