(* ===== verification/Driver_Invariant.thy ===== *)
theory Driver_Invariant
  imports Driver
begin

text \<open>
  The tables of the session driver fit together. The driver keeps a terminal state for every reference state of the
  synchronization, and a checkpoint of the client history for every state it may have to build on. Shown here: this
  and the well-formedness of the terminal states is an invariant of every operation of \<open>src/session/driver.rs\<close>, so
  that the errors for a missing state or a stale plan never occur. With a known server that keeps the width of the
  terminal, nothing panics either.
\<close>

section \<open>The invariant\<close>

definition history_ok :: "Instruction.TerminalDifference prost \<Rightarrow> SynchronizationState \<Rightarrow> ClientHistory \<Rightarrow> bool"
  where "history_ok pb sy h \<longleftrightarrow>
    send_inv sy \<and> (\<exists>log. history_refines pb h log)
    \<and> (\<forall>n \<in> {sy_known_receiver_state sy, sy_local_latest sy} \<union> ss_number ` set (sy_sent_states sy).
         bt_get (ch_checkpoints h) n \<noteq> None)
    \<and> (\<forall>k v. bt_get (ch_checkpoints h) k = Some v \<longrightarrow> k \<le> sy_local_latest sy)"

text \<open>A well-formed terminal of a fixed number of columns.\<close>

definition state_fixed :: "nat \<Rightarrow> TerminalState \<Rightarrow> bool"
  where "state_fixed columns ts \<longleftrightarrow> state_ok ts \<and> cols_of (s_grid (ts_screen ts)) = columns"

text \<open>A server as the driver knows it: the width it keeps to, the key it seals with, and the pieces of the message it sends
  under every identifier.\<close>

record server =
  sv_columns :: nat
  sv_key :: SessionKey
  sv_messages :: "u64 \<Rightarrow> bytes list"

text \<open>The invariant comes in two strengths: with a server, to whose width all terminal states then keep and of whose
  messages the incomplete one is a part, and without, when nothing is claimed of what arrives and of what is on the
  screens.\<close>

definition state_kept :: "server option \<Rightarrow> TerminalState \<Rightarrow> bool"
  where "state_kept known ts \<longleftrightarrow> (\<forall>s. known = Some s \<longrightarrow> state_fixed (sv_columns s) ts)"

lemma state_kept_simps [simp]: "state_kept None ts" "state_kept (Some s) ts = state_fixed (sv_columns s) ts"
  by (simp_all add: state_kept_def)

definition listens :: "server option \<Rightarrow> PacketReceiver \<Rightarrow> FragmentReassembler \<Rightarrow> bool"
  where "listens known receiver ra \<longleftrightarrow>
    (\<forall>s. known = Some s \<longrightarrow>
       pr_key receiver = sv_key s \<and> pr_direction receiver = ServerToClient \<and> ra_from (sv_messages s) ra)"

definition references_ok :: "server option \<Rightarrow> SynchronizationState \<Rightarrow> (u64, TerminalState) btree \<Rightarrow> bool"
  where "references_ok known sy m \<longleftrightarrow>
    receive_inv sy \<and> bt_inv m \<and> bt_keys m = sy_received_states sy \<and> (\<forall>k ts. bt_get m k = Some ts \<longrightarrow> state_kept known ts)"

definition display_ok :: "'p terminal_env \<Rightarrow> SynchronizationState \<Rightarrow> LocalPrediction \<Rightarrow> bool"
  where "display_ok E sy lp \<longleftrightarrow>
    prediction_ok E (Collect state_ok) lp \<and> (\<forall>p \<in> set (lp_pending lp). pp_client_state p \<le> sy_local_latest sy)"

definition driver_ok :: "('s, 'p) externals \<Rightarrow> server option \<Rightarrow> SessionDriver \<Rightarrow> bool"
  where "driver_ok X known d \<longleftrightarrow>
    history_ok (ext_client_pb X) (sd_synchronization d) (sd_client_history d)
    \<and> references_ok known (sd_synchronization d) (sd_terminal_states d)
    \<and> rtt_inv (dt_estimator (sd_datagram_timing d))
    \<and> listens known (sd_packet_receiver d) (sd_reassembler d)
    \<and> (known \<noteq> None \<longrightarrow>
         display_ok (ext_terminal X) (sd_synchronization d) (sd_prediction d)
         \<and> (\<forall>ts \<in> set_option (sd_painted_state d) \<union> set_option (sd_final_terminal d). state_ok ts))"

section \<open>What the outside promises\<close>

text \<open>What is asked of the code outside, always: the encoding of the client's operations is additive and the inflater
  respects its output. With a server it is also asked that the escape sequence parser prints graphic bytes.\<close>

definition externals_ok :: "('s, 'p) externals \<Rightarrow> server option \<Rightarrow> bool"
  where "externals_ok X known \<longleftrightarrow>
    repeated_additive (ext_client_pb X) \<and> pb_encoded_len (ext_client_pb X) \<lparr> td_operations = [] \<rparr> = 0
    \<and> inflate_bounded (ext_zlib X) \<and> (known \<noteq> None \<longrightarrow> env_prints (ext_terminal X))"

text \<open>What is asked of the server. A difference is harmless when its resizes do not change the width and leave at least two
  rows; every instruction among the messages carries a harmless one. A datagram is genuine when, if it opens under the
  key at all, it is a piece of one of the messages. Neither says anything of what the decoders make of other bytes.\<close>

definition steady :: "nat \<Rightarrow> TerminalOperation list \<Rightarrow> bool"
  where "steady columns ops \<longleftrightarrow>
    list_all (\<lambda>x. case x of TerminalOperation.Resize c r \<Rightarrow> unat c = columns \<and> 2 \<le> unat r | _ \<Rightarrow> True) ops"

definition harmless :: "('s, 'p) externals \<Rightarrow> server option \<Rightarrow> bytes \<Rightarrow> bool"
  where "harmless X known input \<longleftrightarrow>
    (\<forall>s difference. known = Some s \<longrightarrow> TerminalDifference_decode (ext_host_pb X) input = Inr difference \<longrightarrow>
       steady (sv_columns s) (difference_operations difference))"

definition keeps_width :: "('s, 'p) externals \<Rightarrow> server option \<Rightarrow> bool"
  where "keeps_width X known \<longleftrightarrow>
    (\<forall>s identifier instruction. known = Some s \<longrightarrow>
       decode_zlib (ext_zlib X) (ext_instruction_pb X) (concat (sv_messages s identifier)) = Some (Inr instruction) \<longrightarrow>
       harmless X known (ti_state_difference instruction))"

definition genuine :: "('s, 'p) externals \<Rightarrow> server option \<Rightarrow> bytes \<Rightarrow> bool"
  where "genuine X known datagram \<longleftrightarrow>
    (\<forall>s opened fragment. known = Some s \<longrightarrow>
       fst (packet_open (ext_aead X) (sv_key s) ServerToClient datagram) = Inr opened \<longrightarrow>
       fragment_decode (op_plaintext opened) = Inr fragment \<longrightarrow>
       fragment_of (fr_identifier fragment) (sv_messages s (fr_identifier fragment)) fragment)"

section \<open>Outcomes\<close>

text \<open>The errors that only a defect of the driver itself could cause.\<close>

definition internal :: "DriverError \<Rightarrow> bool"
  where "internal e \<longleftrightarrow>
    e \<in> {MissingClientState, MissingTerminalState, Synchronization SynchronizationError.StalePlan,
         Synchronization NoNewState, Synchronization InvalidRetransmissionTimeout, Timing TimingError.StalePlan}"

definition drives :: "('s, 'p) externals \<Rightarrow> server option \<Rightarrow> ('a \<Rightarrow> SessionDriver \<Rightarrow> bool) \<Rightarrow> 'a driven \<Rightarrow> bool"
  where "drives X known Q r \<longleftrightarrow>
    (case fst r of
       Inl (Raised e) \<Rightarrow> \<not> internal e
     | Inl Panicked \<Rightarrow> known = None
     | Inr x \<Rightarrow> driver_ok X known (snd r) \<and> Q x (snd r))"

lemma drives_Inr [simp]: "drives X c Q (Inr x, d) \<longleftrightarrow> driver_ok X c d \<and> Q x d"
  by (simp add: drives_def)

lemma drives_Raised [simp]: "drives X c Q (Inl (Raised e), d) \<longleftrightarrow> \<not> internal e"
  by (simp add: drives_def)

lemma drives_Panicked [simp]: "drives X c Q (Inl Panicked, d) \<longleftrightarrow> c = None"
  by (simp add: drives_def)

lemma drives_and_then:
  assumes "drives X c P r" and "\<And>x d. driver_ok X c d \<Longrightarrow> P x d \<Longrightarrow> drives X c Q (k x d)"
  shows "drives X c Q (and_then r k)"
proof -
  obtain v d where r: "r = (v, d)" by (cases r)
  show ?thesis using assms unfolding r by (cases v; cases "projl v") auto
qed

lemma drives_mono: "drives X c P r \<Longrightarrow> (\<And>x d. P x d \<Longrightarrow> Q x d) \<Longrightarrow> drives X c Q r"
  by (auto simp: drives_def split: sum.splits fault.splits)

lemma drives_lift: 
  assumes "driver_ok X c d" and "\<And>e. r = Inl e \<Longrightarrow> \<not> internal (conv e)" and "\<And>x. r = Inr x \<Longrightarrow> Q x d"
  shows "drives X c Q (lift_error conv r, d)"
  using assms by (cases r) auto

lemma drives_part:
  assumes "\<And>e s. r = (Inl e, s) \<Longrightarrow> \<not> internal (conv e)" and "\<And>x s. r = (Inr x, s) \<Longrightarrow> driver_ok X c (put s) \<and> Q x (put s)"
  shows "drives X c Q (part conv r put)"
  using assms by (cases r; cases "fst r") (auto simp: part_def)

lemma drives_now: "driver_ok X c d \<Longrightarrow> drives X c (\<lambda>now d'. d' = d) (now_ms elapsed d)"
  by (simp add: now_ms_def internal_def)

text \<open>Computations that may panic do not, when the screens are under control.\<close>

lemma drives_asked:
  assumes "driver_ok X c d" and "c \<noteq> None \<Longrightarrow> r \<noteq> None" and "\<And>e. \<not> internal (conv e)" and "\<And>x. r = Some (Inr x) \<Longrightarrow> Q x d"
  shows "drives X c Q (asked conv r d)"
proof (cases r)
  case (Some x)
  then show ?thesis using assms(1,3,4) by (cases x) (simp_all add: asked_def)
qed (use assms(2) in \<open>cases c; simp add: asked_def\<close>)

lemma drives_predicted:
  assumes d: "driver_ok X c d"
    and r: "c \<noteq> None \<Longrightarrow> \<exists>x lp. r = Some (Inr x, lp) \<and> display_ok (ext_terminal X) (sd_synchronization d) lp"
  shows "drives X c (\<lambda>_ _. True) (predicted r d)"
proof (cases r)
  case None
  with r show ?thesis by (cases c) (simp_all add: predicted_def)
next
  case (Some q)
  obtain x lp where q: "q = (x, lp)" by (rule prod.exhaust)
  have "driver_ok X c (d\<lparr> sd_prediction := lp \<rparr>)" using d r Some q by (auto simp: driver_ok_def)
  then show ?thesis by (cases x) (simp_all add: predicted_def Some q internal_def)
qed

text \<open>The fields that the invariant does not mention.\<close>

lemma driver_ok_frame [simp]:
  "driver_ok X c (d\<lparr> sd_send_sequence := a2 \<rparr>) = driver_ok X c d" "driver_ok X c (d\<lparr> sd_fragment_identifier := a3 \<rparr>) = driver_ok X c d"
  "driver_ok X c (d\<lparr> sd_scheduler := a5 \<rparr>) = driver_ok X c d" "driver_ok X c (d\<lparr> sd_output_requested := a6 \<rparr>) = driver_ok X c d"
  "driver_ok X c (d\<lparr> sd_force_full_repaint := a7 \<rparr>) = driver_ok X c d" "driver_ok X c (d\<lparr> sd_receive_not_before_ms := a8 \<rparr>) = driver_ok X c d"
  "driver_ok X c (d\<lparr> sd_state := a9 \<rparr>) = driver_ok X c d" "driver_ok X c (d\<lparr> sd_reachability := b1 \<rparr>) = driver_ok X c d"
  "driver_ok X c (d\<lparr> sd_published_reachability := b2 \<rparr>) = driver_ok X c d" "driver_ok X c (d\<lparr> sd_socket := b3 \<rparr>) = driver_ok X c d"
  "driver_ok X c (d\<lparr> sd_output := b4 \<rparr>) = driver_ok X c d"
  by (simp_all add: driver_ok_def)

section \<open>Commands\<close>

lemma history_ok_advance:
  assumes "history_ok pb sy h" and "advance_local sy = (Inr n, sy')"
  shows "history_ok pb sy' (checkpoint h n)" and "n = sy_local_latest sy'" and "sy_local_latest sy \<le> n"
    and "sy_received_states sy' = sy_received_states sy" and "sy_remote_latest sy' = sy_remote_latest sy"
    and "receive_inv sy' = receive_inv sy"
proof -
  have n: "checked_add (sy_local_latest sy) 1 = Some n" "sy_local_latest sy' = n" 
    using assms(2) by (auto simp: advance_local_def split: option.splits)
  note le = checked_add_one_less [OF n(1)]
  have sy': "sy' = snd (advance_local sy)" using assms(2) by simp
  have inv: "send_inv sy'" using assms(1) send_inv_advance [of sy] by (simp add: sy' history_ok_def)
  obtain log where log: "history_refines pb h log" using assms(1) by (auto simp: history_ok_def)
  have keys: "k < n" if "bt_get (ch_checkpoints h) k = Some v" for k v
    using that assms(1) le by (auto simp: history_ok_def intro: order_le_less_trans)
  have wf: "bt_inv (ch_checkpoints h)" using log by (simp add: history_refines_def)
  have "history_refines pb (checkpoint h n) log" using history_refines_checkpoint [OF log] keys by (meson order_less_imp_le)
  moreover have "bt_get (ch_checkpoints (checkpoint h n)) k = (if k = n then Some (ch_next_operation h) else bt_get (ch_checkpoints h) k)" for k
    using wf by (simp add: checkpoint_def btree_simps)
  ultimately show "history_ok pb sy' (checkpoint h n)"
    using assms(1) inv keys n(2) unfolding history_ok_def by (auto simp: sy' split: if_splits intro: order_less_imp_le)
  show "n = sy_local_latest sy'" "sy_local_latest sy \<le> n" using n(2) le by (auto intro: order_less_imp_le)
  show "sy_received_states sy' = sy_received_states sy" and "sy_remote_latest sy' = sy_remote_latest sy"
    and "receive_inv sy' = receive_inv sy"
    by (simp_all add: sy' receive_inv_def)
qed

lemma display_ok_mono: "display_ok E sy lp \<Longrightarrow> sy_local_latest sy \<le> sy_local_latest sy' \<Longrightarrow> display_ok E sy' lp"
  by (auto simp: display_ok_def intro: order_trans)

lemma references_ok_cong:
  "sy_received_states sy' = sy_received_states sy \<Longrightarrow> receive_inv sy' = receive_inv sy \<Longrightarrow>
   references_ok c sy' m = references_ok c sy m"
  by (simp add: references_ok_def)

lemma driver_ok_advance:
  assumes "driver_ok X c d" and "advance_local (sd_synchronization d) = (Inr n, sy')"
  shows "driver_ok X c (d\<lparr> sd_synchronization := sy', sd_client_history := checkpoint (sd_client_history d) n \<rparr>)"
proof -
  have h: "history_ok (ext_client_pb X) (sd_synchronization d) (sd_client_history d)" using assms(1) by (simp add: driver_ok_def)
  note adv = history_ok_advance [OF h assms(2)]
  have "display_ok (ext_terminal X) sy' (sd_prediction d)" if "c \<noteq> None"
    using that assms(1) display_ok_mono adv(2,3) by (auto simp: driver_ok_def)
  moreover have "references_ok c sy' (sd_terminal_states d)"
    using assms(1) references_ok_cong [OF adv(4,6)] by (simp add: driver_ok_def)
  ultimately show ?thesis using assms(1) adv(1) by (simp add: driver_ok_def)
qed

lemma driver_ok_append:
  assumes "driver_ok X c d" and "history_append (ext_client_pb X) (sd_client_history d) operation = (Inr (), h)"
  shows "driver_ok X c (d\<lparr> sd_client_history := h \<rparr>)"
  using assms(1) history_append_ok [OF _ assms(2)] by (fastforce simp: driver_ok_def history_ok_def)

lemma history_append_errors: "history_append pb h operation = (Inl e, h') \<Longrightarrow> \<not> internal e"
  by (auto simp: history_append_def internal_def Let_def split: if_splits option.splits sum.splits)

lemma advance_local_errors: "advance_local sy = (Inl e, sy') \<Longrightarrow> \<not> internal (Synchronization e)"
  by (auto simp: advance_local_def internal_def split: option.splits)

lemma scheduler_note_errors:
  "note_local_change sc now = (Inl e, sc') \<Longrightarrow> \<not> internal (Timing e)"
  "note_acknowledgement_needed sc now = (Inl e, sc') \<Longrightarrow> \<not> internal (Timing e)"
  "defer_send sc now t = (Inl e, sc') \<Longrightarrow> \<not> internal (Timing e)"
  by (auto simp: note_local_change_def note_acknowledgement_needed_def defer_send_def sc_observe_time_def next_generation_def
      checked_deadline_def ok_or_def internal_def and_then_eq_Inl_iff split: if_splits option.splits)

lemma drives_advance_client:
  assumes "driver_ok X c d"
  shows "drives X c (\<lambda>state d'. state = sy_local_latest (sd_synchronization d')) (advance_client X operation now d)"
  unfolding advance_client_def
proof (rule drives_and_then [where P = "\<lambda>_ _. True"])
  show "drives X c (\<lambda>_ _. True)
      (part id (history_append (ext_client_pb X) (sd_client_history d) operation) (\<lambda>h. d\<lparr> sd_client_history := h \<rparr>))"
    by (rule drives_part) (use driver_ok_append [OF assms] history_append_errors in auto)
next
  fix x d assume d: "driver_ok X c d"
  show "drives X c (\<lambda>state d'. state = sy_local_latest (sd_synchronization d'))
     (and_then (part Synchronization (advance_local (sd_synchronization d)) (\<lambda>sy. d\<lparr> sd_synchronization := sy \<rparr>)) (\<lambda>state d.
        let d = d\<lparr> sd_client_history := checkpoint (sd_client_history d) state \<rparr> in
        and_then (part Timing (note_local_change (sd_scheduler d) now) (\<lambda>sc. d\<lparr> sd_scheduler := sc \<rparr>)) (\<lambda>_ d. (Inr state, d))))"
  proof (cases "advance_local (sd_synchronization d)")
    case (Pair r sy')
    show ?thesis
    proof (cases r)
      case (Inl e)
      then show ?thesis using advance_local_errors Pair by (simp add: part_def)
    next
      case (Inr n)
      with Pair have adv: "advance_local (sd_synchronization d) = (Inr n, sy')" by simp
      let ?d = "d\<lparr> sd_synchronization := sy', sd_client_history := checkpoint (sd_client_history d) n \<rparr>"
      have ok: "driver_ok X c ?d" by (rule driver_ok_advance [OF d adv])
      have n: "n = sy_local_latest sy'" using adv by (auto simp: advance_local_def split: option.splits)
      have "drives X c (\<lambda>_ d'. n = sy_local_latest (sd_synchronization d'))
          (part Timing (note_local_change (sd_scheduler ?d) now) (\<lambda>sc. ?d\<lparr> sd_scheduler := sc \<rparr>))"
        by (rule drives_part) (use ok n scheduler_note_errors in auto)
      then have "drives X c (\<lambda>state d'. state = sy_local_latest (sd_synchronization d'))
          (and_then (part Timing (note_local_change (sd_scheduler ?d) now) (\<lambda>sc. ?d\<lparr> sd_scheduler := sc \<rparr>)) (\<lambda>_ d. (Inr n, d)))"
        by (rule drives_and_then) simp
      then show ?thesis by (simp add: part_def adv)
    qed
  qed
qed

lemma reference_state:
  assumes "references_ok c sy m" and "n \<in> set (sy_received_states sy)"
  shows "\<exists>ts. bt_get m n = Some ts \<and> state_kept c ts"
proof -
  have "n \<in> set (bt_keys m)" "bt_inv m" using assms by (simp_all add: references_ok_def)
  then obtain ts where "bt_get m n = Some ts" using btree.set_keys [of m] by auto
  then show ?thesis using assms(1) by (auto simp: references_ok_def)
qed

lemma latest_received: "receive_inv sy \<Longrightarrow> sy_remote_latest sy \<in> set (sy_received_states sy)"
  by (metis last_in_set receive_inv_def)

lemma latest_reference:
  assumes "driver_ok X c d"
  shows "\<exists>ts. bt_get (sd_terminal_states d) (sy_remote_latest (sd_synchronization d)) = Some ts \<and> state_kept c ts"
  using assms reference_state [OF _ latest_received] by (auto simp: driver_ok_def references_ok_def)

lemma drives_predict_input:
  assumes X: "externals_ok X c" and d: "driver_ok X c d" and n: "n = sy_local_latest (sd_synchronization d)"
  shows "drives X c (\<lambda>_ _. True) (predict_input X n input now d)"
proof -
  obtain ts where ts: "bt_get (sd_terminal_states d) (sy_remote_latest (sd_synchronization d)) = Some ts" "state_kept c ts"
    using latest_reference [OF d] by blast
  have "\<exists>b lp. observe_input (ext_terminal X) n input ts now (sd_prediction d) = Some (Inr b, lp)
      \<and> display_ok (ext_terminal X) (sd_synchronization d) lp" if "c \<noteq> None"
    using observe_input_ok [of "ext_terminal X" "Collect state_ok" ts "sd_prediction d" n input now] that X d ts(2)
    by (auto simp: externals_ok_def display_ok_def state_fixed_def driver_ok_def n)
  from drives_predicted [OF d this] show ?thesis
    unfolding predict_input_def ts(1) option.case by (rule drives_and_then) auto
qed

lemma drives_handle_command:
  assumes X: "externals_ok X c" and d: "driver_ok X c d"
  shows "drives X c (\<lambda>_ _. True) (handle_command X elapsed command d)"
  unfolding handle_command_def
proof (rule drives_and_then [OF drives_now [OF d]])
  fix now d' assume d': "driver_ok X c d'" "d' = d"
  have "prediction_ok E S lp \<Longrightarrow> prediction_ok E S (snd (prediction_reset lp))" for E :: "'b terminal_env" and S lp
    by (simp add: prediction_reset_def prediction_ok_clear)
  then have "driver_ok X c (d'\<lparr> sd_prediction := snd (prediction_reset (sd_prediction d')) \<rparr>)"
    using d'(1) by (auto simp: driver_ok_def display_ok_def prediction_reset_def prediction_clear_def)
  then show "drives X c (\<lambda>_ _. True)
     (case command of
        Input input \<Rightarrow> if input = [] then (Inr (), d')
          else and_then (advance_client X (ClientOperation.Input input) now d') (\<lambda>state d. predict_input X state input now d)
      | Resize columns rows \<Rightarrow> and_then (advance_client X (ClientOperation.Resize columns rows) now d')
          (\<lambda>_ d. predict_input X (sy_local_latest (sd_synchronization d)) [] now d)
      | Repaint \<Rightarrow> (Inr (), d'\<lparr> sd_prediction := snd (prediction_reset (sd_prediction d')), sd_output_requested := True,
                      sd_force_full_repaint := True \<rparr>))"
    using d'(1) drives_predict_input [OF X]
    by (cases command) (auto intro!: drives_and_then [OF drives_advance_client])
qed

section \<open>Sending\<close>

text \<open>What a send leaves alone.\<close>

definition same_tables :: "SessionDriver \<Rightarrow> SessionDriver \<Rightarrow> bool"
  where "same_tables d d' \<longleftrightarrow>
    sd_synchronization d' = sd_synchronization d \<and> sd_client_history d' = sd_client_history d
    \<and> sd_scheduler d' = sd_scheduler d \<and> sd_terminal_states d' = sd_terminal_states d
    \<and> sd_prediction d' = sd_prediction d \<and> dt_estimator (sd_datagram_timing d') = dt_estimator (sd_datagram_timing d)
    \<and> sd_painted_state d' = sd_painted_state d \<and> sd_final_terminal d' = sd_final_terminal d
    \<and> sd_output_requested d' = sd_output_requested d \<and> sd_packet_receiver d' = sd_packet_receiver d
    \<and> sd_reassembler d' = sd_reassembler d"

lemma same_tables_ok: "same_tables d d' \<Longrightarrow> driver_ok X c d' = driver_ok X c d"
  by (simp add: same_tables_def driver_ok_def)

lemma same_tables_refl [simp]: "same_tables d d"
  by (simp add: same_tables_def)

lemma same_tables_trans: "same_tables d d' \<Longrightarrow> same_tables d' d'' \<Longrightarrow> same_tables d d''"
  by (simp add: same_tables_def)

lemma send_fragments_frame:
  "same_tables d (snd (send_fragments X ts ident count env pieces plaintext datagram d))
   \<and> (\<forall>f. fst (send_fragments X ts ident count env pieces plaintext datagram d) = Inl f \<longrightarrow>
        (\<exists>e. f = Raised e \<and> \<not> internal e))"
proof (induction pieces arbitrary: plaintext datagram d)
  case (Cons piece rest)
  obtain number body where piece: "piece = (number, body)" by (rule prod.exhaust)
  obtain r plaintext' where enc: "fragment_encode (ot_timestamp ts) (ot_timestamp_reply ts) ident (of_nat number)
      (Suc number = count) body plaintext = (r, plaintext')" by (rule prod.exhaust)
  obtain q sequence' where tak: "send_sequence_take (sd_send_sequence d) = (q, sequence')" by (rule prod.exhaust)
  let ?d = "d\<lparr> sd_send_sequence := sequence' \<rparr>"
  have frame: "same_tables d ?d" "same_tables d (?d\<lparr> sd_socket := k \<rparr>)" for k by (simp_all add: same_tables_def)
  show ?case
  proof (cases "fst (env number) \<or> number \<ge> 65536 \<or> (\<exists>e. r = Inl e) \<or> (\<exists>e. q = Inl e)")
    case True
    then show ?thesis using frame by (auto simp: piece enc tak part_def internal_def split: sum.split)
  next
    case False
    then obtain len sequence where ok: "\<not> fst (env number)" "\<not> number \<ge> 65536" "r = Inr len" "q = Inr sequence"
      by (metis sum.exhaust)
    obtain v datagram' where seal: "packet_seal (ext_aead X) (sd_key d) ClientToServer sequence (take len plaintext') datagram = (v, datagram')"
      by (rule prod.exhaust)
    have later: "same_tables d (snd (send_fragments X ts ident count env rest plaintext' datagram' (?d\<lparr> sd_socket := k \<rparr>)))" for k
      using Cons.IH frame(2) same_tables_trans by blast
    show ?thesis
      using frame ok Cons.IH later
      by (cases v; cases "snd (env number)") (auto simp: piece enc tak part_def seal internal_def Let_def)
  qed
qed simp

lemma outgoing_frame:
  "dt_estimator (snd (outgoing dt now)) = dt_estimator dt"
  "fst (outgoing dt now) = Inl e \<Longrightarrow> e = TimingError.TimeMovedBackwards"
  by (auto simp: outgoing_def dt_observe_time_def Let_def split: if_splits)

lemma drives_send_transport:
  assumes "driver_ok X c d"
  shows "drives X c (\<lambda>_ d'. same_tables d d') (send_transport_instruction X i now env d)"
proof -
  obtain r dt where r: "outgoing (sd_datagram_timing d) now = (r, dt)" by (rule prod.exhaust)
  obtain q ident where q: "identifier_take (sd_fragment_identifier d) = (q, ident)" by (rule prod.exhaust)
  let ?d = "d\<lparr> sd_datagram_timing := dt, sd_fragment_identifier := ident \<rparr>"
  have est: "dt_estimator dt = dt_estimator (sd_datagram_timing d)" "r = Inl e \<Longrightarrow> e = TimingError.TimeMovedBackwards" for e
    using outgoing_frame [of "sd_datagram_timing d" now] r by simp_all
  have id: "q = Inl e \<Longrightarrow> e = FragmentIdentifierExhausted" for e
    using q by (auto simp: identifier_take_def split: option.splits)
  have sends: "drives X c (\<lambda>_ d'. same_tables d d') (send_fragments X ts n count env pieces p g ?d)" for ts n count pieces p g
  proof -
    obtain v d' where v: "send_fragments X ts n count env pieces p g ?d = (v, d')" by (rule prod.exhaust)
    have "same_tables d ?d" using est by (simp add: same_tables_def)
    with send_fragments_frame [of ?d X ts n count env pieces p g] v
    have "same_tables d d'" "\<forall>f. v = Inl f \<longrightarrow> (\<exists>e. f = Raised e \<and> \<not> internal e)"
      using same_tables_trans by auto
    with assms show ?thesis unfolding v by (cases v) (auto simp: same_tables_ok)
  qed
  show ?thesis
  proof (cases "encode_zlib (ext_zlib X) (ext_instruction_pb X) i")
    case (Inl e)
    then show ?thesis by (simp add: send_transport_instruction_def internal_def)
  next
    case (Inr compressed)
    then show ?thesis
      using sends est id by (cases r; cases q) (auto simp: send_transport_instruction_def part_def r q internal_def)
  qed
qed

text \<open>A plan that fits the state it was made from.\<close>

definition plan_current :: "SendPlan \<Rightarrow> SynchronizationState \<Rightarrow> bool"
  where "plan_current plan sy \<longleftrightarrow>
    sp_generation plan = sy_sender_generation sy \<and> sp_target_state plan = sy_local_latest sy
    \<and> sp_acknowledged_state plan = sy_remote_latest sy \<and> sp_throwaway_state plan = sy_known_receiver_state sy
    \<and> sp_base_state plan \<in> insert (sy_known_receiver_state sy) (ss_number ` set (sy_sent_states sy))
    \<and> sp_base_state plan < sp_target_state plan"

lemma plan_base_member:
  "plan_base now rto base ss = Inr b \<Longrightarrow> b \<in> insert base (ss_number ` set ss)"
  by (induction ss) (auto split: option.splits if_splits)

lemma plan_send_current: "plan_send sy now rto = Inr plan \<Longrightarrow> plan_current plan sy"
  using plan_base_member [of now rto "sy_known_receiver_state sy" "rev (sy_sent_states sy)"]
  by (auto simp: plan_send_def plan_current_def not_le split: if_splits sum.splits)

lemma plan_base_errors: "plan_base now rto base ss = Inl e \<Longrightarrow> e = SynchronizationError.TimeMovedBackwards"
  by (induction ss) (auto split: option.splits if_splits)

lemma plan_send_errors:
  assumes "plan_send sy now rto = Inl e" and "MIN_RETRANSMISSION_TIMEOUT_MS \<le> rto" and "rto \<le> MAX_RETRANSMISSION_TIMEOUT_MS"
  shows "e = SynchronizationError.TimeMovedBackwards
    \<or> e = NoNewState \<and> (\<exists>n \<in> insert (sy_known_receiver_state sy) (ss_number ` set (sy_sent_states sy)). sy_local_latest sy \<le> n)"
  using assms plan_base_errors plan_base_member [of now rto "sy_known_receiver_state sy" "rev (sy_sent_states sy)"]
  by (auto simp: plan_send_def split: if_splits sum.splits)

lemma driver_timeout:
  assumes "driver_ok X c d"
  shows "MIN_RETRANSMISSION_TIMEOUT_MS \<le> retransmission_timeout_ms d" and "retransmission_timeout_ms d \<le> MAX_RETRANSMISSION_TIMEOUT_MS"
  using assms by (simp_all add: driver_ok_def rtt_inv_def retransmission_timeout_ms_def)

lemma drives_advance_empty:
  assumes "driver_ok X c d"
  shows "drives X c (\<lambda>_ d'. sd_scheduler d' = sd_scheduler d \<and> sd_datagram_timing d' = sd_datagram_timing d
      \<and> (\<forall>n \<in> insert (sy_known_receiver_state (sd_synchronization d')) (ss_number ` set (sy_sent_states (sd_synchronization d'))).
           n < sy_local_latest (sd_synchronization d'))) (advance_empty d)"
proof (cases "advance_local (sd_synchronization d)")
  case (Pair r sy')
  show ?thesis
  proof (cases r)
    case (Inl e)
    then show ?thesis using advance_local_errors Pair by (simp add: advance_empty_def part_def)
  next
    case (Inr n)
    with Pair have adv: "advance_local (sd_synchronization d) = (Inr n, sy')" by simp
    let ?sy = "sd_synchronization d"
    have "checked_add (sy_local_latest ?sy) 1 = Some n" "sy_local_latest sy' = n"
        "sy_known_receiver_state sy' = sy_known_receiver_state ?sy" "sy_sent_states sy' = sy_sent_states ?sy"
      using adv by (auto simp: advance_local_def split: option.splits)
    moreover have "send_inv ?sy" using assms by (simp add: driver_ok_def history_ok_def)
    then have "\<forall>n \<in> insert (sy_known_receiver_state ?sy) (ss_number ` set (sy_sent_states ?sy)). n \<le> sy_local_latest ?sy"
      by (auto simp: send_inv_def)
    ultimately have "\<forall>m \<in> insert (sy_known_receiver_state sy') (ss_number ` set (sy_sent_states sy')). m < sy_local_latest sy'"
      using checked_add_one_less [of "sy_local_latest ?sy" n] by (auto intro: order_le_less_trans)
    then show ?thesis using driver_ok_advance [OF assms adv] by (simp add: advance_empty_def part_def adv)
  qed
qed

text \<open>After an empty state is added a plan is refused only when time moves backwards.\<close>

lemma drives_fresh_plan:
  assumes d: "driver_ok X c d"
    and new: "\<forall>n \<in> insert (sy_known_receiver_state (sd_synchronization d)) (ss_number ` set (sy_sent_states (sd_synchronization d))).
      n < sy_local_latest (sd_synchronization d)"
  shows "drives X c (\<lambda>plan d'. d' = d \<and> plan_current plan (sd_synchronization d))
    (lift_error Synchronization (driver_plan_send now d), d)"
proof (rule drives_lift [OF d])
  fix e assume "driver_plan_send now d = Inl e"
  with plan_send_errors [OF _ driver_timeout [OF d]] new have "e = SynchronizationError.TimeMovedBackwards"
    by (auto simp: driver_plan_send_def not_le [symmetric])
  then show "\<not> internal (Synchronization e)" by (simp add: internal_def)
qed (use plan_send_current in \<open>simp add: driver_plan_send_def\<close>)

lemma drives_choose_plan:
  assumes "driver_ok X c d"
  shows "drives X c (\<lambda>plan d'. plan_current plan (sd_synchronization d') \<and> sd_scheduler d' = sd_scheduler d) (choose_plan now d)"
proof (cases "driver_plan_send now d")
  case (Inr plan)
  then show ?thesis using assms plan_send_current by (simp add: choose_plan_def driver_plan_send_def)
next
  case (Inl e)
  have e: "e = SynchronizationError.TimeMovedBackwards \<or> e = NoNewState"
    using plan_send_errors [OF _ driver_timeout [OF assms]] Inl by (auto simp: driver_plan_send_def)
  show ?thesis
  proof (cases "e = NoNewState")
    case True
    have "drives X c (\<lambda>plan d'. plan_current plan (sd_synchronization d') \<and> sd_scheduler d' = sd_scheduler d)
        (and_then (advance_empty d) (\<lambda>_ d. (lift_error Synchronization (driver_plan_send now d), d)))"
    proof (rule drives_and_then [OF drives_advance_empty [OF assms]])
      fix x d' assume d': "driver_ok X c d'"
        "sd_scheduler d' = sd_scheduler d \<and> sd_datagram_timing d' = sd_datagram_timing d
          \<and> (\<forall>n \<in> insert (sy_known_receiver_state (sd_synchronization d')) (ss_number ` set (sy_sent_states (sd_synchronization d'))).
               n < sy_local_latest (sd_synchronization d'))"
      show "drives X c (\<lambda>plan d'. plan_current plan (sd_synchronization d') \<and> sd_scheduler d' = sd_scheduler d)
          (lift_error Synchronization (driver_plan_send now d'), d')"
        by (rule drives_mono [OF drives_fresh_plan [OF d'(1)]]) (use d'(2) in simp_all)
    qed
    then show ?thesis using True Inl by (simp add: choose_plan_def)
  qed (use Inl e in \<open>simp add: choose_plan_def internal_def\<close>)
qed

lemma difference_ok:
  assumes "repeated_additive pb" and "history_ok pb sy h"
    and "{base, target} \<subseteq> {sy_known_receiver_state sy, sy_local_latest sy} \<union> ss_number ` set (sy_sent_states sy)" and "base \<le> target"
  shows "\<exists>input. history_difference pb h base target = Inr input"
proof -
  obtain log where log: "history_refines pb h log" using assms(2) by (auto simp: history_ok_def)
  have "bt_get (ch_checkpoints h) n \<noteq> None" if "n \<in> {base, target}" for n
    using assms(2) subsetD [OF assms(3) that] unfolding history_ok_def by (elim conjE) (drule bspec)
  then obtain i j where ij: "bt_get (ch_checkpoints h) base = Some i" "bt_get (ch_checkpoints h) target = Some j"
    by fastforce
  then have "i \<le> j" using log assms(4) by (auto simp: history_refines_def)
  then show ?thesis using history_difference_slice [OF log assms(1) ij] by blast
qed

lemma history_ok_commit:
  assumes "history_ok pb sy h" and "commit_send sy plan = (Inr r, sy')" and "sy_known_receiver_state sy < sy_local_latest sy"
  shows "history_ok pb sy' (case sc_capacity_evicted_state r of None \<Rightarrow> h | Some e \<Rightarrow> remove_checkpoint h e)"
proof -
  have inv: "send_inv sy" using assms(1) by (simp add: history_ok_def)
  note ok = commit_send_okD [OF inv assms(2)]
  have sy': "sy_known_receiver_state sy' = sy_known_receiver_state sy" "sy_local_latest sy' = sy_local_latest sy"
    using commit_send_frame [of sy plan] assms(2) by simp_all
  show ?thesis
  proof (cases "sc_capacity_evicted_state r")
    case None
    then show ?thesis using assms(1,3) ok(3,4) sy' unfolding history_ok_def by auto
  next
    case (Some e)
    have e: "e \<in> ss_number ` set (sy_sent_states sy)" "e < sy_local_latest sy" using ok(5) Some by auto
    then have "sy_known_receiver_state sy < e" using inv by (auto simp: send_inv_def)
    moreover have "bt_get (ch_checkpoints (remove_checkpoint h e)) k = (if k = e then None else bt_get (ch_checkpoints h) k)" for k
      using assms(1) by (auto simp: history_ok_def history_refines_def remove_checkpoint_def btree_simps)
    moreover have "\<exists>log. history_refines pb (remove_checkpoint h e) log"
      using assms(1) history_refines_remove unfolding history_ok_def by blast
    ultimately show ?thesis
      using assms(1,3) ok(3,4) sy' e(2) Some unfolding history_ok_def by (auto split: if_splits)
  qed
qed

lemma commit_send_errors: "plan_current plan sy \<Longrightarrow> commit_send sy plan = (Inl e, sy') \<Longrightarrow> e = SynchronizationError.GenerationExhausted"
  by (auto simp: commit_send_def plan_current_def split: option.splits prod.splits if_splits)

lemma drives_commit_sent:
  assumes "driver_ok X c d" and "plan_current plan (sd_synchronization d)"
  shows "drives X c (\<lambda>_ d'. sd_scheduler d' = sd_scheduler d) (commit_sent plan d)"
proof (cases "commit_send (sd_synchronization d) plan")
  case (Pair q sy')
  show ?thesis
  proof (cases q)
    case (Inl e)
    then show ?thesis using commit_send_errors [OF assms(2)] Pair by (auto simp: commit_sent_def part_def internal_def)
  next
    case (Inr r)
    with Pair have com: "commit_send (sd_synchronization d) plan = (Inr r, sy')" by simp
    have lt: "sy_known_receiver_state (sd_synchronization d) < sy_local_latest (sd_synchronization d)"
      using assms by (auto simp: plan_current_def driver_ok_def history_ok_def send_inv_def intro: order_less_trans order_le_less_trans)
    have h: "history_ok (ext_client_pb X) sy' (case sc_capacity_evicted_state r of None \<Rightarrow> sd_client_history d | Some e \<Rightarrow> remove_checkpoint (sd_client_history d) e)"
      by (rule history_ok_commit [OF _ com lt]) (use assms(1) in \<open>simp add: driver_ok_def\<close>)
    have "references_ok c sy' m = references_ok c (sd_synchronization d) m" for m
      using commit_send_frame [of "sd_synchronization d" plan] com by (intro references_ok_cong) (simp_all add: receive_inv_def)
    moreover have "sy_local_latest sy' = sy_local_latest (sd_synchronization d)"
      using commit_send_frame [of "sd_synchronization d" plan] com by simp
    ultimately show ?thesis
      using assms(1) h by (auto simp: commit_sent_def part_def com driver_ok_def display_ok_def split: option.split)
  qed
qed

text \<open>The wake plan was made by the scheduler as it is now.\<close>

definition wake_current :: "WakePlan \<Rightarrow> SendScheduler \<Rightarrow> bool"
  where "wake_current plan sc \<longleftrightarrow> wp_generation plan = sc_generation sc \<and> wp_planned_at_ms plan = sc_last_observed_ms sc"

lemma commit_wake_errors: "wake_current plan sc \<Longrightarrow> scheduler_commit_send sc plan = (Inl e, sc') \<Longrightarrow> e = TimingError.GenerationExhausted"
  by (auto simp: scheduler_commit_send_def wake_current_def next_generation_def ok_or_def and_then_eq_Inl_iff split: option.splits if_splits)

lemma drives_plan_difference:
  assumes "externals_ok X c" and "driver_ok X c d" and "plan_current plan (sd_synchronization d)"
  shows "drives X c (\<lambda>_ d'. d' = d) (plan_difference X plan d)"
proof -
  have "\<exists>input. history_difference (ext_client_pb X) (sd_client_history d) (sp_base_state plan) (sp_target_state plan) = Inr input"
    by (rule difference_ok [of _ "sd_synchronization d"])
      (use assms in \<open>auto simp: externals_ok_def driver_ok_def plan_current_def intro: order_less_imp_le\<close>)
  then show ?thesis using assms(2) by (auto simp: plan_difference_def)
qed

lemma drives_finish_send:
  assumes "driver_ok X c d" and "plan_current plan (sd_synchronization d)" and "wake_current wake_plan (sd_scheduler d)"
  shows "drives X c (\<lambda>_ _. True) (finish_send wake_plan plan elapsed outcome d)"
proof -
  have "drives X c (\<lambda>_ _. True) (and_then (now_ms elapsed d) defer_temporary_send)"
    by (rule drives_and_then [OF drives_now [OF assms(1)]])
      (auto simp: defer_temporary_send_def intro!: drives_part dest: scheduler_note_errors)
  moreover have ne: "\<not> internal (Timing e)" if "scheduler_commit_send (sd_scheduler d) wake_plan = (Inl e, sc')" for e sc'
    using commit_wake_errors [OF assms(3) that] by (simp add: internal_def)
  have "drives X c (\<lambda>_ _. True) (and_then (commit_sent plan d) (\<lambda>_ d.
      part Timing (scheduler_commit_send (sd_scheduler d) wake_plan) (\<lambda>sc. d\<lparr> sd_scheduler := sc \<rparr>)))"
    by (rule drives_and_then [OF drives_commit_sent [OF assms(1,2)]])
      (auto intro!: drives_part dest: ne)
  ultimately show ?thesis using assms(1) by (cases outcome) (simp_all add: finish_send_def)
qed

lemma drives_send_instruction:
  assumes X: "externals_ok X c" and d: "driver_ok X c d" and wake: "wake_current wake_plan (sd_scheduler d)"
  shows "drives X c (\<lambda>_ _. True) (send_instruction X wake_plan now env elapsed d)"
  unfolding send_instruction_def
proof (rule drives_and_then [OF drives_choose_plan [OF d]], elim conjE, rule drives_and_then [OF drives_plan_difference [OF X]], assumption+,
    rule drives_and_then [OF drives_send_transport], assumption)
  fix plan d1 difference d2 outcome d3
  assume "plan_current plan (sd_synchronization d1)" "sd_scheduler d1 = sd_scheduler d" "d2 = d1" "driver_ok X c d3" "same_tables d2 d3"
  then show "drives X c (\<lambda>_ _. True) (finish_send wake_plan plan elapsed outcome d3)"
    using wake by (intro drives_finish_send) (simp_all add: same_tables_def)
qed

end
