(* ===== verification/Driver_Receive.thy ===== *)
theory Driver_Receive
  imports Driver_Invariant
begin

text \<open>
  The invariant of the driver under the receiving operations of \<open>src/session/driver.rs\<close>: opening and reassembling a
  datagram, applying a difference of the server, closing, and writing output.
\<close>

section \<open>Receiving\<close>

lemma observe_received_estimator:
  assumes "rtt_inv (dt_estimator dt)"
  shows "rtt_inv (dt_estimator (snd (observe_received dt q ts reply now)))"
    and "fst (observe_received dt q ts reply now) = Inl e \<Longrightarrow> e = TimingError.TimeMovedBackwards"
proof -
  have sample: "\<exists>est. observe_sample (dt_estimator dt) (ucast x) = (Inr (), est) \<and> rtt_inv est"
    if "\<not> (ucast x :: u64) > MAX_RTT_SAMPLE_MS" for x :: u16
    using observe_sample_refines [OF assms, of "ucast x"] that by (auto simp: word_less_nat_alt not_less)
  show "rtt_inv (dt_estimator (snd (observe_received dt q ts reply now)))"
    using assms sample by (fastforce simp: observe_received_def dt_observe_time_def Let_def split: option.splits)
  show "fst (observe_received dt q ts reply now) = Inl e \<Longrightarrow> e = TimingError.TimeMovedBackwards"
    using sample by (fastforce simp: observe_received_def dt_observe_time_def Let_def split: option.splits if_splits)
qed

lemma decode_zlib_returns: "inflate_bounded z \<Longrightarrow> \<exists>r. decode_zlib z pb compressed = Some r"
  using decompress_loop_bounded [of z "[]" 0 compressed "inflate_new z"]
  by (auto simp: decode_zlib_def decompress_exact_zlib_def split: option.split sum.split)

text \<open>What decoding gives: an instruction whose difference is harmless.\<close>

definition harmless_result :: "('s, 'p) externals \<Rightarrow> server option \<Rightarrow> TransportInstruction option \<Rightarrow> bool"
  where "harmless_result X known r \<longleftrightarrow> (\<forall>i. r = Some i \<longrightarrow> harmless X known (ti_state_difference i))"

lemma listens_push:
  assumes "listens c receiver ra" and "ra_push ra now f = (q, ra')"
    and f: "\<And>s. c = Some s \<Longrightarrow> fragment_of (fr_identifier f) (sv_messages s (fr_identifier f)) f"
  shows "listens c receiver ra'"
    and "c = Some s \<Longrightarrow> q = Inr (Complete whole) \<Longrightarrow> whole = concat (sv_messages s (fr_identifier f))"
proof -
  have "pushed_from (sv_messages s) f (q, ra')" if "c = Some s" for s
    using push_from [of "sv_messages s" ra f now] that assms f by (simp add: listens_def)
  then show "listens c receiver ra'" and "c = Some s \<Longrightarrow> q = Inr (Complete whole) \<Longrightarrow> whole = concat (sv_messages s (fr_identifier f))"
    using assms(1) by (auto simp: listens_def pushed_from_def)
qed

lemma drives_accept_fragment:
  assumes X: "externals_ok X c" and srv: "keeps_width X c" and d: "driver_ok X c d"
    and gen: "\<And>s f. c = Some s \<Longrightarrow> fragment_decode (op_plaintext opened) = Inr f \<Longrightarrow>
      fragment_of (fr_identifier f) (sv_messages s (fr_identifier f)) f"
  shows "drives X c (\<lambda>r _. harmless_result X c r) (accept_fragment X now opened d)"
proof (cases "fragment_decode (op_plaintext opened)")
  case (Inl e)
  then show ?thesis by (simp add: accept_fragment_def internal_def)
next
  case (Inr f)
  obtain r dt where r: "observe_received (sd_datagram_timing d) (op_sequence opened) (fr_timestamp f) (fr_timestamp_reply f) now = (r, dt)"
    by (rule prod.exhaust)
  obtain q ra where q: "ra_push (sd_reassembler d) now f = (q, ra)" by (rule prod.exhaust)
  have est: "rtt_inv (dt_estimator dt)" "r = Inl e \<Longrightarrow> e = TimingError.TimeMovedBackwards" for e
    using observe_received_estimator [of "sd_datagram_timing d" "op_sequence opened" "fr_timestamp f" "fr_timestamp_reply f" now] r d
    by (simp_all add: driver_ok_def)
  have "listens c (sd_packet_receiver d) (sd_reassembler d)" using d by (simp add: driver_ok_def)
  note hears = listens_push [OF this q, OF gen, OF _ Inr]
  have ok: "driver_ok X c (d\<lparr> sd_datagram_timing := dt, sd_reassembler := ra \<rparr>)"
    using d est(1) hears(1) by (simp add: driver_ok_def)
  have "drives X c (\<lambda>r _. harmless_result X c r) (and_then (asked Instruction (decode_zlib (ext_zlib X) (ext_instruction_pb X) compressed)
      (d\<lparr> sd_datagram_timing := dt, sd_reassembler := ra \<rparr>)) (\<lambda>instruction d. (Inr (Some instruction), d)))"
    if "q = Inr (Complete compressed)" for compressed
  proof -
    obtain v where v: "decode_zlib (ext_zlib X) (ext_instruction_pb X) compressed = Some v"
      using X decode_zlib_returns by (fastforce simp: externals_ok_def)
    have "harmless X c (ti_state_difference i)" if "v = Inr i" for i
      using srv hears(2) \<open>q = Inr (Complete compressed)\<close> v that by (cases c) (auto simp: keeps_width_def harmless_def)
    then show ?thesis using ok by (cases v) (simp_all add: asked_def v internal_def harmless_result_def)
  qed
  then show ?thesis
    using ok est(2) by (cases r; cases q)
      (auto simp: accept_fragment_def Inr r q part_def internal_def harmless_result_def split: ReassemblyOutcome.split)
qed

text \<open>While an instruction is incomplete, the first piece of another one that is itself in pieces ends the session: the
  error of the reassembler is passed on. A lost fragment thus ends the session unless ten quiet seconds follow.\<close>

lemma lost_fragment_ends_session:
  assumes "fragment_decode (op_plaintext opened) = Inr f"
    and "observe_received (sd_datagram_timing d) (op_sequence opened) (fr_timestamp f) (fr_timestamp_reply f) now = (Inr q, dt)"
    and "ra_incomplete (sd_reassembler d) = Some ii" and "ii_identifier ii \<noteq> fr_identifier f"
    and "\<not> (fr_number f = 0 \<and> fr_is_final f)" and "unat (fr_number f) < MAX_FRAGMENTS_PER_INSTRUCTION"
    and "ra_last_observed_ms (sd_reassembler d) \<le> now" and "unat now < unat (ii_created_at_ms ii) + 10000"
    and "unat (ii_created_at_ms ii) + 10000 < 2 ^ 64"
  shows "fst (accept_fragment X now opened d) = Inl (Raised (Reassembly TooManyIncompleteInstructions))"
proof -
  have "checked_add (ii_created_at_ms ii) 10000 = Some (ii_created_at_ms ii + 10000)" "\<not> ii_created_at_ms ii + 10000 \<le> now"
    using assms(8,9) unat_add_no_overflow [of "ii_created_at_ms ii" 10000] by (auto simp: checked_add_def word_le_nat_alt)
  then have "fst (ra_push (sd_reassembler d) now f) = Inl TooManyIncompleteInstructions"
    using assms(3-7) by (auto simp: ra_push_def ra_observe_time_def ra_expire_due_def ra_push_first_def)
  then show ?thesis by (cases "ra_push (sd_reassembler d) now f") (simp add: accept_fragment_def assms(1,2) part_def)
qed

lemma receiver_open_from_listens:
  assumes "listens c receiver ra" and "receiver_open_from A receiver addr source datagram = (opened, receiver', buffer)"
  shows "listens c receiver' ra"
    and "c = Some s \<Longrightarrow> opened = Inr packet \<Longrightarrow> fst (packet_open A (sv_key s) ServerToClient datagram) = Inr packet"
  using assms by (auto simp: listens_def receiver_open_from_def receiver_open_def split: if_splits prod.splits sum.splits)

lemma drives_decode_datagram:
  assumes X: "externals_ok X c" and srv: "keeps_width X c" and d: "driver_ok X c d" and gen: "genuine X c datagram"
  shows "drives X c (\<lambda>r _. harmless_result X c r) (decode_datagram X elapsed datagram source d)"
  unfolding decode_datagram_def
proof (rule drives_and_then [OF drives_now [OF d]])
  fix now d' assume d': "driver_ok X c d'" and "d' = d"
  obtain opened receiver buffer where r: "receiver_open_from (ext_aead X) (sd_packet_receiver d') (sd_server_addr d') source datagram
      = (opened, receiver, buffer)" by (metis prod_cases3)
  have "listens c (sd_packet_receiver d') (sd_reassembler d')" using d' by (simp add: driver_ok_def)
  note opens = receiver_open_from_listens [OF this r]
  have ok: "driver_ok X c (d'\<lparr> sd_packet_receiver := receiver \<rparr>)" using d' opens(1) by (simp add: driver_ok_def)
  have "drives X c (\<lambda>r _. harmless_result X c r) (accept_fragment X now packet (d'\<lparr> sd_packet_receiver := receiver \<rparr>))"
    if "opened = Inr packet" for packet
    by (rule drives_accept_fragment [OF X srv ok]) (use opens(2) that gen in \<open>auto simp: genuine_def\<close>)
  then show "drives X c (\<lambda>r _. harmless_result X c r)
      (let (opened, receiver, buffer) = receiver_open_from (ext_aead X) (sd_packet_receiver d') (sd_server_addr d') source datagram;
           d = d'\<lparr> sd_packet_receiver := receiver \<rparr>
       in case opened of
            Inl e \<Rightarrow> if ignored_packet_error e then (Inr None, d) else (Inl (Raised (Packet e)), d)
          | Inr opened \<Rightarrow> accept_fragment X now opened d)"
    using ok by (auto simp: r Let_def internal_def harmless_result_def split: sum.split)
qed

lemma history_ok_observe: "history_ok pb sy h \<Longrightarrow> history_ok pb (snd (observe_acknowledgement sy a)) h"
proof (cases "observe_acknowledgement sy a")
  case (Pair r sy')
  assume h: "history_ok pb sy h"
  have inv: "send_inv sy'" using send_inv_acknowledge [of sy a] h Pair by (simp add: history_ok_def)
  from Pair show ?thesis
  proof (cases rule: observe_acknowledgement_cases)
    case (advanced g)
    then show ?thesis using h inv Pair unfolding history_ok_def by auto
  qed (use h Pair in simp)
qed

lemma history_ok_acknowledged:
  assumes "history_ok pb sy h" and "repeated_additive pb"
  shows "\<exists>h'. acknowledge h (sy_known_receiver_state sy) = (Inr (), h') \<and> history_ok pb sy h'"
proof -
  obtain log where log: "history_refines pb h log" using assms(1) by (auto simp: history_ok_def)
  obtain place where "bt_get (ch_checkpoints h) (sy_known_receiver_state sy) = Some place"
    using assms(1) by (auto simp: history_ok_def)
  then obtain h' where h': "acknowledge h (sy_known_receiver_state sy) = (Inr (), h')" "history_refines pb h' log"
      "ch_checkpoints h' = bt_retain (\<lambda>number. number \<ge> sy_known_receiver_state sy) (ch_checkpoints h)"
    by (rule acknowledge_ok [OF log assms(2)])
  have get: "bt_get (ch_checkpoints h') k = (if k \<ge> sy_known_receiver_state sy then bt_get (ch_checkpoints h) k else None)" for k
    using log by (simp add: h'(3) btree_simps history_refines_def)
  have "history_ok pb sy h'"
    using assms(1) h'(2) unfolding history_ok_def get by (auto simp: send_inv_def)
  with h'(1) show ?thesis by blast
qed

lemma driver_ok_references: "driver_ok X c d \<Longrightarrow> references_ok c (sd_synchronization d) (sd_terminal_states d)"
  by (simp add: driver_ok_def)

text \<open>The driver after \<open>begin_receive\<close> and \<open>begin_shutdown_receive\<close>.\<close>

lemma driver_ok_observed:
  assumes "driver_ok X c d" and "sy = sd_synchronization d \<or> sy = snd (observe_acknowledgement (sd_synchronization d) a)"
  shows "driver_ok X c (d\<lparr> sd_synchronization := sy \<rparr>)"
proof -
  let ?sy = "sd_synchronization d"
  have "history_ok (ext_client_pb X) sy (sd_client_history d)"
    using assms history_ok_observe [of "ext_client_pb X" ?sy] by (auto simp: driver_ok_def)
  moreover have "references_ok c sy (sd_terminal_states d) = references_ok c ?sy (sd_terminal_states d)"
    using assms(2) by (intro references_ok_cong) (auto simp: receive_inv_def)
  moreover have "sy_local_latest sy = sy_local_latest ?sy" using assms(2) by auto
  ultimately show ?thesis using assms(1) by (simp add: driver_ok_def display_ok_def)
qed

lemma drives_acknowledge_history:
  assumes "externals_ok X c" and "driver_ok X c d"
  shows "drives X c (\<lambda>_ d'. sd_synchronization d' = sd_synchronization d) (acknowledge_history d)"
  using assms history_ok_acknowledged [of "ext_client_pb X" "sd_synchronization d" "sd_client_history d"]
  by (auto simp: acknowledge_history_def driver_ok_def externals_ok_def)

lemma steady_growing: "steady c xs \<Longrightarrow> growing c xs"
  by (induction xs) (auto simp: steady_def split: TerminalOperation.splits)

lemma apply_operation_fixed:
  assumes E: "env_ok E" and ts: "state_fixed c ts" and x: "steady c [x]"
  shows "\<exists>r. apply_operation E x ts = Some r \<and> (\<forall>ts'. r = Inr ts' \<longrightarrow> state_fixed c ts')"
proof -
  let ?s = "ts_screen ts"
  have ok: "screen_ok ?s" "roomy ?s" "state_ok ts" and cols: "cols_of (s_grid ?s) = c"
    using ts by (auto simp: state_fixed_def state_ok_def)
  have grow: "growing (cols_of (s_grid ?s)) [x]" using steady_growing [OF x] cols by simp
  obtain r where r: "apply_operation E x ts = Some r"
      "\<forall>ts'. r = Inr ts' \<longrightarrow> screen_ok (ts_screen ts') \<and> roomy (ts_screen ts')"
    using apply_operation_ok [OF E ok(1,2) grow] by blast
  have "cols_of (s_grid (ts_screen ts')) = c" if "apply_operation E x ts = Some (Inr ts')" for ts'
  proof (cases x)
    case (HostBytes input)
    then show ?thesis using apply_host_bytes_ok [OF E ok(1,2), of input] that cols by (auto simp: apply_operation_def)
  next
    case (Resize w h)
    then have "ts' = ts\<lparr> ts_screen := screen_set_size (unat h) (unat w) ?s \<rparr>" "size_ok \<lparr> size_rows = unat h, size_cols = unat w \<rparr>" "unat w = c"
      using that x by (auto simp: apply_operation_def checked_size_eq size_ok_def steady_def split: if_splits)
    then show ?thesis using screen_set_size_ok(2) [OF ok(1)] cols by simp
  next
    case (EchoAcknowledgement n)
    then show ?thesis using that cols by (auto simp: apply_operation_def split: if_splits)
  qed
  with r apply_operation_small [OF E ok(3) grow] show ?thesis by (auto simp: state_fixed_def state_ok_def)
qed

lemma terminal_apply_fixed:
  assumes E: "env_ok E" and ts: "state_fixed c ts" and xs: "steady c xs"
  shows "\<exists>r. apply_operations E xs ts = Some r \<and> (\<forall>ts'. r = Inr ts' \<longrightarrow> state_fixed c ts')"
  using ts xs
proof (induction xs arbitrary: ts)
  case (Cons x xs)
  then obtain r where "apply_operation E x ts = Some r" "\<forall>ts'. r = Inr ts' \<longrightarrow> state_fixed c ts'"
    using apply_operation_fixed [OF E Cons.prems(1), of x] by (auto simp: steady_def)
  then show ?case using Cons by (cases r) (auto simp: steady_def)
qed simp

lemma drives_apply_difference:
  assumes X: "externals_ok X c" and d: "driver_ok X c d" and base: "base \<in> set (sy_received_states (sd_synchronization d))"
    and input: "harmless X c input"
  shows "drives X c (\<lambda>ts d'. d' = d \<and> state_kept c ts) (apply_difference X base input d)"
proof -
  obtain ts where ts: "bt_get (sd_terminal_states d) base = Some ts" "state_kept c ts"
    using reference_state [OF driver_ok_references [OF d] base] by blast
  show ?thesis
  proof (cases "TerminalDifference_decode (ext_host_pb X) input")
    case (Inl e)
    then show ?thesis by (simp add: apply_difference_def ts(1) internal_def)
  next
    case (Inr df)
    have applied: "\<exists>r. apply_operations (ext_terminal X) (difference_operations df) ts = Some r \<and> (\<forall>ts'. r = Inr ts' \<longrightarrow> state_kept c ts')"
      if "c = Some s" for s
      using terminal_apply_fixed [of "ext_terminal X" "sv_columns s" ts "difference_operations df"] that X Inr ts(2) input
      by (auto simp: externals_ok_def env_prints_def harmless_def)
    have "drives X c (\<lambda>ts d'. d' = d \<and> state_kept c ts) (asked Terminal (terminal_apply (ext_terminal X) ts df) d)"
      by (rule drives_asked [OF d]) (use applied in \<open>cases c; auto simp: terminal_apply_def internal_def\<close>)+
    then show ?thesis by (simp add: apply_difference_def ts(1) Inr)
  qed
qed

text \<open>A committed plan keeps the terminal states in step with the reference states.\<close>

lemma references_ok_commit:
  assumes ref: "references_ok c sy m" and fits: "plan_fits sy plan" and ok: "commit_receive sy plan = (Inr r, sy')"
    and ts: "state_kept c ts"
  shows "references_ok c sy' (sd_terminal_states (discard_terminal_states (rc_discard_before_state r) (rc_capacity_evicted_state r)
      (d\<lparr> sd_terminal_states := bt_insert (ap_target_state plan) ts m \<rparr>)))"
proof -
  let ?t = "ap_target_state plan"
  have inv: "receive_inv sy" "bt_inv m" and keys: "bt_keys m = sy_received_states sy" and all: "\<forall>k ts. bt_get m k = Some ts \<longrightarrow> state_kept c ts"
    using ref by (simp_all add: references_ok_def)
  note com = commit_receive_inv [OF inv(1) fits ok]
  define m1 where "m1 = bt_retain (\<lambda>state. state \<ge> floor_after sy plan) (bt_insert ?t ts m)"
  define m2 where "m2 = (case evicted_after sy plan of None \<Rightarrow> m1 | Some e \<Rightarrow> bt_remove e m1)"
  have wf: "bt_inv m1" "bt_inv m2" using inv(2) by (auto simp: m1_def m2_def split: option.split)
  have get: "bt_get m2 k = (if evicted_after sy plan = Some k \<or> \<not> floor_after sy plan \<le> k then None
      else if k = ?t then Some ts else bt_get m k)" for k
    using inv(2) wf by (auto simp: m1_def m2_def btree_simps btree.wf_put split: option.split)
  have mem: "k \<in> set (sy_received_states sy) \<longleftrightarrow> bt_get m k \<noteq> None" for k
    using btree.mem_keys [OF inv(2)] keys by simp
  have "ap_base_state plan \<in> set (kept_after sy plan)" by (rule kept_after_facts(5) [OF inv(1) fits])
  moreover have t: "ap_base_state plan < ?t" "?t \<notin> set (sy_received_states sy)" using fits by (simp_all add: plan_fits_def)
  ultimately have floor: "floor_after sy plan \<le> ?t" by (auto simp: kept_after_def)
  have ev: "evicted_after sy plan \<noteq> Some ?t"
  proof
    assume "evicted_after sy plan = Some ?t"
    then have len: "length (kept_after sy plan) = 32"
        and t': "kept_after sy plan ! evict_index (kept_after sy plan) (floor_after sy plan) = ?t"
      by (auto simp: evicted_after_def split: if_splits)
    have "?t \<in> set (kept_after sy plan)"
      unfolding t' [symmetric] by (rule nth_mem [OF Suc_lessD [OF evict_index_less [OF len]]])
    then show False using t(2) by (simp add: kept_after_def)
  qed
  have "set (sy_received_states sy') = dom (bt_get m2)"
    using com(2) floor ev mem by (auto simp: get dom_def room_after_def kept_after_def split: if_splits)
  then have "bt_keys m2 = sy_received_states sy'"
    using btree.keys_eqI [OF wf(2)] com(1) by (simp add: receive_inv_def)
  moreover have "\<forall>k ts. bt_get m2 k = Some ts \<longrightarrow> state_kept c ts" using all ts by (simp add: get)
  moreover have "sd_terminal_states (discard_terminal_states (rc_discard_before_state r) (rc_capacity_evicted_state r)
      (d\<lparr> sd_terminal_states := bt_insert ?t ts m \<rparr>)) = m2"
    by (simp add: discard_terminal_states_def com(4,5) m1_def m2_def Let_def split: option.split)
  ultimately show ?thesis using com(1) wf(2) by (simp add: references_ok_def)
qed

lemma commit_receive_errors:
  "plan_fits sy plan \<Longrightarrow> ap_generation plan = sy_receiver_generation sy \<Longrightarrow> commit_receive sy plan = (Inl e, sy') \<Longrightarrow>
   e = SynchronizationError.GenerationExhausted"
  by (auto simp: commit_receive_def plan_fits_def Let_def split: option.splits prod.splits if_splits)

lemma drives_note_newest:
  assumes X: "externals_ok X c" and d: "driver_ok X c d" and t: "target = sy_remote_latest (sd_synchronization d)"
  shows "drives X c (\<lambda>_ _. True) (note_newest X target now d)"
proof -
  obtain ts where ts: "bt_get (sd_terminal_states d) target = Some ts" "state_kept c ts"
    using latest_reference [OF d] by (auto simp: t)
  have "\<exists>u lp. observe_authoritative (ext_terminal X) ts (sd_prediction d) = Some (Inr u, lp)
      \<and> display_ok (ext_terminal X) (sd_synchronization d) lp" if "c \<noteq> None"
    using observe_authoritative_ok [of "ext_terminal X" "Collect state_ok" ts "sd_prediction d"] that X d ts(2)
    by (auto simp: externals_ok_def display_ok_def driver_ok_def state_fixed_def) blast
  then have "drives X c (\<lambda>_ _. True) (predicted (observe_authoritative (ext_terminal X) ts (sd_prediction d))
      (d\<lparr> sd_reachability := note_contact (sd_reachability d) now \<rparr>))"
    using d by (intro drives_predicted) simp_all
  then show ?thesis
    by (auto simp: note_newest_def ts(1) Let_def intro: drives_and_then)
qed

lemma commit_receive_frame:
  assumes "commit_receive sy plan = (Inr r, sy')"
  shows "sy_sent_states sy' = sy_sent_states sy" "sy_known_receiver_state sy' = sy_known_receiver_state sy" "sy_local_latest sy' = sy_local_latest sy"
  using assms by (auto simp: commit_receive_def Let_def split: option.splits prod.splits if_splits)

lemma driver_ok_commit:
  assumes d: "driver_ok X c d" and fits: "plan_fits (sd_synchronization d) plan" and ts: "state_kept c ts"
    and ok: "commit_receive (sd_synchronization d) plan = (Inr r, sy')"
  shows "driver_ok X c (discard_terminal_states (rc_discard_before_state r) (rc_capacity_evicted_state r)
      (d\<lparr> sd_synchronization := sy', sd_terminal_states := bt_insert (ap_target_state plan) ts (sd_terminal_states d) \<rparr>))"
proof -
  note frame = commit_receive_frame [OF ok]
  have "history_ok (ext_client_pb X) sy' (sd_client_history d)"
    using d frame unfolding driver_ok_def history_ok_def by (simp add: send_inv_cong [OF frame])
  moreover have "display_ok (ext_terminal X) sy' (sd_prediction d)" if "c \<noteq> None" using that d frame by (simp add: driver_ok_def display_ok_def)
  moreover note references_ok_commit [OF driver_ok_references [OF d] fits ok ts, of "d\<lparr> sd_synchronization := sy' \<rparr>"]
  ultimately show ?thesis using d by (simp add: driver_ok_def discard_terminal_states_def Let_def)
qed

lemma drives_apply_plan:
  assumes X: "externals_ok X c" and d: "driver_ok X c d" and fits: "plan_fits (sd_synchronization d) plan"
    and gen: "ap_generation plan = sy_receiver_generation (sd_synchronization d)" and input: "harmless X c (ap_difference plan)"
  shows "drives X c (\<lambda>_ _. True) (apply_plan X plan now d)"
  unfolding apply_plan_def
proof (rule drives_and_then [OF drives_apply_difference [OF X d _ input]])
  show "ap_base_state plan \<in> set (sy_received_states (sd_synchronization d))" using fits by (simp add: plan_fits_def)
next
  fix ts d' assume "d' = d \<and> state_kept c ts"
  then have d': "d' = d" and ts: "state_kept c ts" by simp_all
  show "drives X c (\<lambda>_ _. True)
      (and_then (part Synchronization (commit_receive (sd_synchronization d') plan) (\<lambda>sy. d'\<lparr> sd_synchronization := sy \<rparr>)) (\<lambda>commit d.
        let d = d\<lparr> sd_terminal_states := bt_insert (ap_target_state plan) ts (sd_terminal_states d) \<rparr>;
            d = discard_terminal_states (rc_discard_before_state commit) (rc_capacity_evicted_state commit) d
        in if ap_target_state plan = sy_remote_latest (sd_synchronization d) then note_newest X (ap_target_state plan) now d
           else (Inr (), d)))"
  proof (cases "commit_receive (sd_synchronization d) plan")
    case (Pair r sy')
    show ?thesis
    proof (cases r)
      case (Inl e)
      then show ?thesis using commit_receive_errors [OF fits gen, of e sy'] Pair by (simp add: d' part_def internal_def)
    next
      case (Inr rc)
      have ok: "driver_ok X c (discard_terminal_states (rc_discard_before_state rc) (rc_capacity_evicted_state rc)
          (d\<lparr> sd_synchronization := sy', sd_terminal_states := bt_insert (ap_target_state plan) ts (sd_terminal_states d) \<rparr>))"
        using driver_ok_commit [OF d fits ts] Pair Inr by simp
      then show ?thesis
        using drives_note_newest [OF X ok refl] by (auto simp: d' part_def Pair Inr Let_def)
    qed
  qed
qed

lemma drives_publish_reachability: "driver_ok X c d \<Longrightarrow> drives X c (\<lambda>_ _. True) (publish_reachability now d)"
  unfolding publish_reachability_def
  by (rule drives_and_then [where P = "\<lambda>_ _. True"], rule drives_part) (auto simp: internal_def split: option.split)

lemma drives_receive_transition:
  assumes X: "externals_ok X c" and d: "driver_ok X c d"
    and plan: "\<And>plan. rt_remote_state t = Apply plan \<Longrightarrow>
      plan_fits (sd_synchronization d) plan \<and> ap_generation plan = sy_receiver_generation (sd_synchronization d)
      \<and> harmless X c (ap_difference plan)"
  shows "drives X c (\<lambda>_ _. True) (receive_transition X now sent t d)"
proof -
  define d0 where "d0 = (case (rt_acknowledgement t, sent) of
      (Advanced _ _, Some sent_at_ms) \<Rightarrow> d\<lparr> sd_reachability := note_reply (sd_reachability d) sent_at_ms \<rparr> | _ \<Rightarrow> d)"
  have d0: "driver_ok X c d0" "sd_synchronization d0 = sd_synchronization d"
    using d by (simp_all add: d0_def split: option.split AcknowledgementDisposition.split)
  show ?thesis
    unfolding receive_transition_def d0_def [symmetric] Let_def
  proof (rule drives_and_then [OF drives_acknowledge_history [OF X d0(1)]])
    fix d1 :: SessionDriver and u :: unit
    assume d1: "driver_ok X c d1" "sd_synchronization d1 = sd_synchronization d0"
    have 1: "drives X c (\<lambda>_ d2. sd_synchronization d2 = sd_synchronization d)
        (part Timing (note_acknowledgement_needed (sd_scheduler d1) now) (\<lambda>sc. d1\<lparr> sd_scheduler := sc \<rparr>))"
      using d1 d0(2) by (intro drives_part) (auto dest: scheduler_note_errors)
    have 2: "drives X c (\<lambda>_ _. True) (case rt_remote_state t of Apply plan \<Rightarrow> apply_plan X plan now d2 | _ \<Rightarrow> (Inr (), d2))"
      if "driver_ok X c d2" "sd_synchronization d2 = sd_synchronization d" for d2
      using that plan drives_apply_plan [OF X that(1)] by (auto split: RemoteStateDisposition.split)
    show "drives X c (\<lambda>_ _. True)
        (and_then (part Timing (note_acknowledgement_needed (sd_scheduler d1) now) (\<lambda>sc. d1\<lparr> sd_scheduler := sc \<rparr>)) (\<lambda>_ d.
         and_then (case rt_remote_state t of Apply plan \<Rightarrow> apply_plan X plan now d | _ \<Rightarrow> (Inr (), d)) (\<lambda>_ d.
           publish_reachability now d)))"
      by (rule drives_and_then [OF 1], rule drives_and_then [OF 2]) (simp_all add: drives_publish_reachability)
  qed
qed

lemma begin_errors:
  "begin_receive sy i = (Inl e, sy') \<Longrightarrow> \<not> internal (Synchronization e)"
  "begin_shutdown_receive sy i = (Inl e, sy') \<Longrightarrow> \<not> internal (Synchronization e)"
  by (auto simp: begin_receive_def begin_shutdown_receive_def and_then_eq_Inl_iff Let_def validate_instruction_def internal_def
      observe_acknowledgement_def split: option.splits if_splits prod.splits)

lemma drives_handle_normal_instruction:
  assumes X: "externals_ok X c" and d: "driver_ok X c d" and input: "harmless X c (ti_state_difference i)"
  shows "drives X c (\<lambda>_ _. True) (handle_normal_instruction X elapsed i d)"
  unfolding handle_normal_instruction_def Let_def
proof (rule drives_and_then [OF drives_now [OF d]], rule drives_and_then [where P = "\<lambda>t d'. \<forall>plan. rt_remote_state t = Apply plan \<longrightarrow>
      plan_fits (sd_synchronization d') plan \<and> ap_generation plan = sy_receiver_generation (sd_synchronization d')
      \<and> harmless X c (ap_difference plan)"])
  fix now d' assume d': "driver_ok X c d'"
  show "drives X c (\<lambda>t d'. \<forall>plan. rt_remote_state t = Apply plan \<longrightarrow>
      plan_fits (sd_synchronization d') plan \<and> ap_generation plan = sy_receiver_generation (sd_synchronization d')
      \<and> harmless X c (ap_difference plan))
    (part Synchronization (begin_receive (sd_synchronization d') i) (\<lambda>sy. d'\<lparr> sd_synchronization := sy \<rparr>))"
    using begin_errors(1) begin_receive_plan driver_ok_observed [OF d'] begin_receive_state [of "sd_synchronization d'" i] input
    by (intro drives_part) (metis, fastforce)
qed (auto intro: drives_receive_transition [OF X])

lemma prediction_clear_pending: "lp_pending (snd (prediction_clear lp)) = []"
  by (simp add: prediction_clear_def)

lemma drives_handle_remote_shutdown:
  assumes X: "externals_ok X c" and d: "driver_ok X c d" and input: "harmless X c (ti_state_difference i)"
  shows "drives X c (\<lambda>_ _. True) (handle_remote_shutdown X i d)"
  unfolding handle_remote_shutdown_def Let_def
proof (rule drives_and_then [where P = "\<lambda>t d'. st_base_state t \<in> set (sy_received_states (sd_synchronization d'))
    \<and> harmless X c (st_difference t)"])
  let ?i = "if ti_acknowledged_state i = SHUTDOWN_STATE
       then i\<lparr> ti_acknowledged_state := sy_known_receiver_state (sd_synchronization d) \<rparr> else i"
  have "driver_ok X c (d\<lparr> sd_synchronization := snd (begin_shutdown_receive (sd_synchronization d) ?i) \<rparr>)"
    using driver_ok_observed [OF d] begin_shutdown_receive_state [of "sd_synchronization d" ?i] by blast
  moreover have "st_base_state t \<in> set (sy_received_states sy') \<and> harmless X c (st_difference t)"
    if "begin_shutdown_receive (sd_synchronization d) ?i = (Inr t, sy')" for t sy'
    using that input by (auto simp: begin_shutdown_receive_def and_then_eq_Inr_iff split: if_splits dest!: arg_cong [where f = snd])
  ultimately show "drives X c (\<lambda>t d'. st_base_state t \<in> set (sy_received_states (sd_synchronization d')) \<and> harmless X c (st_difference t))
      (part Synchronization (begin_shutdown_receive (sd_synchronization d) ?i) (\<lambda>sy. d\<lparr> sd_synchronization := sy \<rparr>))"
    using begin_errors(2) by (intro drives_part) (metis, simp)
next
  fix t :: ShutdownTransition and d' :: SessionDriver
  assume d': "driver_ok X c d'" and t: "st_base_state t \<in> set (sy_received_states (sd_synchronization d')) \<and> harmless X c (st_difference t)"
  show "drives X c (\<lambda>_ _. True) (and_then (acknowledge_history d') (\<lambda>_ d.
      and_then (apply_difference X (st_base_state t) (st_difference t) d) (\<lambda>final_terminal d.
       (Inr (), d\<lparr> sd_final_terminal := Some final_terminal, sd_prediction := snd (prediction_reset (sd_prediction d)),
                   sd_output_requested := True \<rparr>))))"
  proof (rule drives_and_then [OF drives_acknowledge_history [OF X d']], rule drives_and_then [OF drives_apply_difference [OF X]])
    show "driver_ok X c d2 \<Longrightarrow> sd_synchronization d2 = sd_synchronization d' \<Longrightarrow>
        st_base_state t \<in> set (sy_received_states (sd_synchronization d2))" for d2 using t by simp
  qed (use t in \<open>auto simp: driver_ok_def display_ok_def state_fixed_def prediction_reset_def prediction_ok_clear prediction_clear_pending\<close>)
qed

lemma drives_handle_datagram:
  assumes X: "externals_ok X c" and srv: "keeps_width X c" and d: "driver_ok X c d" and gen: "genuine X c datagram"
  shows "drives X c (\<lambda>_ _. True) (handle_datagram X elapsed elapsed' datagram source d)"
  unfolding handle_datagram_def
  by (rule drives_and_then [OF drives_decode_datagram [OF X srv d gen]])
     (auto simp: harmless_result_def split: option.split
       intro: drives_and_then [OF drives_handle_remote_shutdown [OF X]] drives_and_then [OF drives_handle_normal_instruction [OF X]])

lemma drives_classify_receive:
  assumes "driver_ok X c d"
  shows "drives X c (\<lambda>received _. \<forall>x. received = Some x \<longrightarrow> r = Inr x) (classify_receive elapsed r d)"
proof (cases r)
  case (Inl kind)
  have retry: "drives X c (\<lambda>_ _. True) (defer_receive now d')" if "driver_ok X c d'" for now d'
    using that by (auto simp: defer_receive_def internal_def split: option.split)
  have "drives X c (\<lambda>received _. received = None)
      (and_then (now_ms elapsed d) (\<lambda>failed_at d. and_then (defer_receive failed_at d) (\<lambda>_ d. (Inr (None :: (bytes \<times> SocketAddr) option), d))))"
    by (rule drives_and_then [OF drives_now [OF assms]], rule drives_and_then [OF retry]) simp_all
  then have "drives X c (\<lambda>received _. \<forall>x. received = Some x \<longrightarrow> r = Inr x)
      (and_then (now_ms elapsed d) (\<lambda>failed_at d. and_then (defer_receive failed_at d) (\<lambda>_ d. (Inr (None :: (bytes \<times> SocketAddr) option), d))))"
    by (rule drives_mono) simp
  then show ?thesis
    using assms by (simp add: classify_receive_def Inl internal_def)
qed (use assms in \<open>simp add: classify_receive_def\<close>)

section \<open>Output\<close>

lemma prediction_display_ok:
  assumes E: "env_prints E" and lp: "prediction_ok E (Collect state_ok) lp" and ts: "state_ok ts"
  shows "state_ok (display lp ts)"
proof (cases "lp_projected lp")
  case (Some projected)
  with lp obtain base where "state_ok base" "replay (with_predicted_ascii E) (map pp_byte (lp_pending lp)) base = Some (Inr projected)"
      "list_all graphic (map pp_byte (lp_pending lp))"
    by (auto simp: prediction_ok_def split: if_splits)
  then have "state_ok projected" using terminal.replay_total [of E] E by (force simp: env_prints_def)
  with ts Some show ?thesis by (simp add: display_def)
qed (use ts in \<open>simp add: display_def\<close>)

lemma paint_returns:
  assumes "state_ok ts" "state_ok previous"
  shows "\<exists>r. paint_full E ts = Some r" and "\<exists>r. paint_incremental E previous ts = Some r"
  using assms state_formatted_ok [of "ts_screen ts" "env_itoa E"] state_diff_ok [of "ts_screen ts" "ts_screen previous" "env_itoa E"]
  by (auto simp: paint_full_def paint_incremental_def state_ok_def)

lemma drives_emit_output:
  assumes X: "externals_ok X c" and d: "driver_ok X c d"
  shows "drives X c (\<lambda>_ _. True) (emit_output X d)"
proof -
  have "\<exists>ts. latest_terminal_state d = Inr ts \<and> (c \<noteq> None \<longrightarrow> state_ok ts)"
    using latest_reference [OF d] d by (cases "sd_final_terminal d") (auto simp: latest_terminal_state_def driver_ok_def state_fixed_def)
  then obtain ts where ts: "latest_terminal_state d = Inr ts" "c \<noteq> None \<Longrightarrow> state_ok ts" by blast
  have cur: "state_ok (display (sd_prediction d) ts)" if "c \<noteq> None"
    using that X d ts(2) by (intro prediction_display_ok [of "ext_terminal X"]) (auto simp: externals_ok_def driver_ok_def display_ok_def)
  let ?paint = "if sd_force_full_repaint d then paint_full (ext_terminal X) (display (sd_prediction d) ts)
         else (case sd_painted_state d of
                 Some previous \<Rightarrow> paint_incremental (ext_terminal X) previous (display (sd_prediction d) ts)
               | None \<Rightarrow> paint_full (ext_terminal X) (display (sd_prediction d) ts))"
  have "?paint \<noteq> None" if "c \<noteq> None"
    using that paint_returns [OF cur] d cur by (auto simp: driver_ok_def split: option.split)
  then have paint: "drives X c (\<lambda>_ d'. d' = d) (asked Paint ?paint d)"
    by (intro drives_asked [OF d]) (simp_all add: internal_def)
  have "driver_ok X c (d\<lparr> sd_output := out, sd_painted_state := Some (display (sd_prediction d) ts), sd_output_requested := False,
                  sd_force_full_repaint := False \<rparr>)" for out
    using d cur by (auto simp: driver_ok_def)
  then show ?thesis
    unfolding emit_output_def Let_def ts(1) lift_error_simps and_then_Inr by (intro drives_and_then [OF paint]) simp
qed

section \<open>Closing\<close>

lemma drives_finish_acknowledgement:
  assumes "driver_ok X c d" and "plan_current plan (sd_synchronization d)"
  shows "drives X c (\<lambda>_ _. True) (finish_acknowledgement plan outcome d)"
  using assms drives_and_then [OF drives_commit_sent [OF assms], of "\<lambda>_ _. True" "\<lambda>_ d. (Inr True, d)"]
  by (cases outcome) (simp_all add: finish_acknowledgement_def)

lemma drives_send_shutdown_acknowledgement:
  assumes X: "externals_ok X c" and d: "driver_ok X c d"
  shows "drives X c (\<lambda>_ _. True) (send_shutdown_acknowledgement X now env d)"
  unfolding send_shutdown_acknowledgement_def
proof (rule drives_and_then [OF drives_advance_empty [OF d]])
  fix u :: unit and d' :: SessionDriver
  assume d': "driver_ok X c d'" and new: "sd_scheduler d' = sd_scheduler d \<and> sd_datagram_timing d' = sd_datagram_timing d
      \<and> (\<forall>n \<in> insert (sy_known_receiver_state (sd_synchronization d')) (ss_number ` set (sy_sent_states (sd_synchronization d'))).
           n < sy_local_latest (sd_synchronization d'))"
  note plan = drives_fresh_plan [OF d' conjunct2 [OF conjunct2 [OF new]], of now]
  show "drives X c (\<lambda>_ _. True) (and_then (lift_error Synchronization (driver_plan_send now d'), d') (\<lambda>send_plan d.
      and_then (plan_difference X send_plan d) (\<lambda>difference d.
      and_then (send_transport_instruction X
        ((plan_instruction send_plan difference INITIAL_CHAFF)\<lparr> ti_acknowledged_state := SHUTDOWN_STATE \<rparr>) now env d)
      (finish_acknowledgement send_plan))))"
    by (rule drives_and_then [OF plan], rule drives_and_then [OF drives_plan_difference [OF X]], assumption, simp,
        rule drives_and_then [OF drives_send_transport], assumption,
        rule drives_finish_acknowledgement) (auto simp: same_tables_def)
qed

lemma drives_send_shutdown_request:
  assumes X: "externals_ok X c" and d: "driver_ok X c d"
  shows "drives X c (\<lambda>_ _. True) (send_shutdown_request X now env d)"
proof -
  let ?sy = "sd_synchronization d"
  have h: "history_ok (ext_client_pb X) ?sy (sd_client_history d)" and a: "repeated_additive (ext_client_pb X)"
    using X d by (simp_all add: driver_ok_def externals_ok_def)
  moreover have "sy_known_receiver_state ?sy \<le> sy_local_latest ?sy" using h by (simp add: history_ok_def send_inv_def)
  ultimately obtain input where "history_difference (ext_client_pb X) (sd_client_history d) (sy_known_receiver_state ?sy) (sy_local_latest ?sy) = Inr input"
    using difference_ok [OF a h, of "sy_known_receiver_state ?sy" "sy_local_latest ?sy"] by auto
  then show ?thesis
    unfolding send_shutdown_request_def Let_def by (simp add: drives_mono [OF drives_send_transport [OF d]])
qed

section \<open>Connecting\<close>

lemma history_ok_connect:
  assumes "pb_encoded_len pb \<lparr> td_operations = [] \<rparr> = 0" and "history_append pb ClientHistory_new operation = (Inr u, h)"
  shows "history_ok pb SynchronizationState_new h"
proof -
  have "history_refines pb h [operation]" "ch_checkpoints h = ch_checkpoints ClientHistory_new"
    using history_append_ok [OF history_refines_new [OF assms(1)]] assms(2) by auto
  then show ?thesis
    using sync_inv_new(1)
    by (auto simp: history_ok_def ClientHistory_new_def SynchronizationState_new_def btree_simps split: if_splits)
qed

lemma driver_connect_ok:
  assumes X: "externals_ok X c" and size: "\<And>s. c = Some s \<Longrightarrow>
      sv_columns s = unat columns \<and> 2 \<le> unat columns \<and> 2 \<le> unat rows \<and> sv_key s = bs_session_key bootstrap"
    and d: "driver_connect X bound bootstrap columns rows m = Inr d"
  shows "driver_ok X c d"
proof -
  obtain ts where ts: "TerminalState_new columns rows = Inr ts" using d by (auto simp: driver_connect_def split: sum.splits)
  obtain u h where h: "history_append (ext_client_pb X) ClientHistory_new (ClientOperation.Resize columns rows) = (Inr u, h)"
    using d by (auto simp: driver_connect_def split: sum.splits option.splits prod.splits)
  obtain n sy where sy: "advance_local SynchronizationState_new = (Inr n, sy)"
    using d by (auto simp: driver_connect_def split: sum.splits option.splits prod.splits)
  have pb: "pb_encoded_len (ext_client_pb X) \<lparr> td_operations = [] \<rparr> = 0" using X by (simp add: externals_ok_def)
  note adv = history_ok_advance [OF history_ok_connect [OF pb h] sy]
  have fields: "sd_synchronization d = sy" "sd_client_history d = checkpoint h n" "sd_terminal_states d = bt_insert 0 ts bt_empty"
      "sd_prediction d = LocalPrediction_new m" "sd_datagram_timing d = DatagramTiming_new 0" "sd_painted_state d = None" "sd_final_terminal d = None"
      "sd_packet_receiver d = PacketReceiver_new (bs_session_key bootstrap) ServerToClient" "sd_reassembler d = FragmentReassembler_new 0"
    using d by (auto simp: driver_connect_def ts h sy split: sum.splits option.splits prod.splits)
  have new: "state_kept c ts"
    using state_ok_new [OF ts] size ts by (cases c) (auto simp: state_fixed_def TerminalState_new_def checked_size_eq Screen_new_def Grid_new_def allocate_rows_def split: if_splits)
  have "receive_inv sy" using sync_inv_new(2) adv(4,5) sy
    by (auto simp: receive_inv_def advance_local_def split: option.splits)
  moreover have "bt_keys (bt_insert 0 ts bt_empty) = [0 :: u64]" by (simp add: bt_keys_def bt_empty_def)
  ultimately have "references_ok c sy (bt_insert 0 ts bt_empty)"
    using new adv(4) by (auto simp: references_ok_def btree_simps btree.wf_put SynchronizationState_new_def split: if_splits)
  moreover have "lp_pending (LocalPrediction_new m) = []" by (simp add: LocalPrediction_new_def)
  moreover have "listens c (sd_packet_receiver d) (sd_reassembler d)"
    using size by (simp add: listens_def fields PacketReceiver_new_def ra_from_new)
  ultimately show ?thesis
    using adv(1) by (simp add: driver_ok_def fields display_ok_def prediction_ok_new DatagramTiming_new_def rtt_inv_new)
qed

end
