(* ===== verification/Driver_Loop.thy ===== *)
theory Driver_Loop
  imports Driver_Receive
begin

text \<open>
  The two loops of the session task, \<open>run\<close> and \<open>run_local_shutdown\<close> of \<open>src/session/driver.rs\<close>, as passes of one
  state machine, and the waiting of \<open>wait_next\<close>. What the runtime supplies in a pass (the clock, the readiness of the
  channels and of the socket, the results of sends) is the record \<open>pass\<close>. Shown here: the invariant of the driver
  holds after every sequence of passes, a pass that waits waits for a time in the future, and a local close ends.
\<close>

section \<open>Waiting\<close>

datatype Wake =
    Command SessionCommand
  | Datagram datagram_result
  | Output
  | OwnerDropped
  | Cancelled
  | GracefulClose
  | Timer

text \<open>The answers to one poll. A watched value answers whether it changed or its sender is gone, the output channel
  whether it has room or its receiver is gone.\<close>

record readiness =
  rd_cancellation :: "bool option"
  rd_command :: "SessionCommand option option"
  rd_graceful_close :: "bool option"
  rd_timer :: bool
  rd_output :: "bool option"
  rd_datagram :: "datagram_result option"

definition wait_poll :: "bool \<Rightarrow> bool \<Rightarrow> bool \<Rightarrow> readiness \<Rightarrow> Wake option"
  where "wait_poll graceful_close needs_output receive_enabled r =
    (if rd_cancellation r = Some True then Some Wake.Cancelled
     else case rd_command r of
       Some (Some command) \<Rightarrow> Some (Command command)
     | Some None \<Rightarrow> Some Wake.OwnerDropped
     | None \<Rightarrow>
     if graceful_close \<and> rd_graceful_close r = Some True then Some GracefulClose
     else if rd_timer r then Some Timer
     else case (if needs_output then rd_output r else None) of
       Some permit \<Rightarrow> Some (if permit then Output else Wake.OwnerDropped)
     | None \<Rightarrow> map_option Datagram (if receive_enabled then rd_datagram r else None))"

fun wait_next :: "bool \<Rightarrow> bool \<Rightarrow> bool \<Rightarrow> readiness list \<Rightarrow> Wake option"
  where
    "wait_next graceful_close needs_output receive_enabled [] = None"
  | "wait_next graceful_close needs_output receive_enabled (r # rs) =
      (case wait_poll graceful_close needs_output receive_enabled r of
         Some wake \<Rightarrow> Some wake
       | None \<Rightarrow> wait_next graceful_close needs_output receive_enabled rs)"

section \<open>Passes\<close>

text \<open>\<open>pa_clock i\<close> is the \<open>i\<close>-th reading of the clock in the pass, in milliseconds since the start;
  \<open>pa_representable\<close> tells whether the clock can represent such a time.\<close>

record pass =
  pa_cancelled :: bool
  pa_clock :: "nat \<Rightarrow> nat"
  pa_send :: send_env
  pa_cancelled_later :: bool
  pa_representable :: "u64 \<Rightarrow> bool"
  pa_polls :: "readiness list"
  pa_reply :: send_env
  pa_finish :: "readiness list"

datatype phase = Serving | Closing u64 u64

datatype flow = Go phase | Asleep | Draining | Exit SessionExit

text \<open>Waiting for room for the last output.\<close>

fun wait_permit :: "readiness list \<Rightarrow> (SessionExit + unit) option"
  where
    "wait_permit [] = None"
  | "wait_permit (r # rs) =
      (case rd_cancellation r of
         Some altered \<Rightarrow> Some (Inl (if altered then SessionExit.Cancelled else SessionExit.OwnerDropped))
       | None \<Rightarrow>
           (case rd_output r of
              Some permit \<Rightarrow> Some (if permit then Inr () else Inl SessionExit.OwnerDropped)
            | None \<Rightarrow> wait_permit rs))"

definition finish_graceful_close :: "('s, 'p) externals \<Rightarrow> SessionExit \<Rightarrow> pass \<Rightarrow> SessionDriver \<Rightarrow> flow driven"
  where "finish_graceful_close X exit p d =
    (if \<not> sd_output_requested d then (Inr (Exit exit), d)
     else if pa_cancelled_later p then (Inr (Exit SessionExit.Cancelled), d)
     else case wait_permit (pa_finish p) of
       None \<Rightarrow> (Inr Draining, d)
     | Some (Inl exit) \<Rightarrow> (Inr (Exit exit), d)
     | Some (Inr _) \<Rightarrow> and_then (emit_output X d) (\<lambda>_ d. (Inr (Exit exit), d)))"

definition acknowledge_shutdown :: "('s, 'p) externals \<Rightarrow> pass \<Rightarrow> (SessionDriver \<Rightarrow> flow driven) \<Rightarrow> SessionDriver \<Rightarrow> flow driven"
  where "acknowledge_shutdown X p rest d =
    and_then (now_ms (pa_clock p 5) d) (\<lambda>now d.
    and_then (send_shutdown_acknowledgement X now (pa_reply p) d) (\<lambda>sent d.
      if sent then rest d else (Inr (Exit SessionExit.Cancelled), d)))"

text \<open>The housekeeping at the top of \<open>run\<close>.\<close>

definition keep_prediction :: "u64 \<Rightarrow> SessionDriver \<Rightarrow> SessionDriver"
  where "keep_prediction now d =
    (let (expired, prediction) = prediction_expire now (sd_prediction d);
         estimator = dt_estimator (sd_datagram_timing d);
         interval = map_option (\<lambda>_. frame_interval_ms estimator) (smoothed_rtt_ms estimator);
         (altered, prediction) = update_policy now interval prediction
     in d\<lparr> sd_prediction := prediction, sd_output_requested := (sd_output_requested d \<or> expired \<or> altered) \<rparr>)"

definition keep_house :: "u64 \<Rightarrow> SessionDriver \<Rightarrow> unit driven"
  where "keep_house now d =
    and_then (publish_reachability now d) (\<lambda>_ d.
      if attachment_timed_out (sd_reachability d) now then (Inl (Raised ConnectionTimeout), d)
      else
    and_then (part Reassembly (ra_expire (sd_reassembler d) now) (\<lambda>ra. d\<lparr> sd_reassembler := ra \<rparr>)) (\<lambda>_ d.
      (Inr (), keep_prediction now d)))"

definition receive_enabled :: "u64 \<Rightarrow> SessionDriver \<Rightarrow> bool"
  where "receive_enabled now d \<longleftrightarrow> now \<ge> sd_receive_not_before_ms d"

definition earliest_wake :: "u64 \<Rightarrow> u64 \<Rightarrow> SessionDriver \<Rightarrow> ReachabilityError + u64"
  where "earliest_wake now wake_at_ms d =
    (let wake_at_ms = (case prediction_next_deadline_ms (sd_prediction d) of None \<Rightarrow> wake_at_ms | Some t \<Rightarrow> min wake_at_ms t) in
     case reachability_next_deadline_ms (sd_reachability d) of
       Inl e \<Rightarrow> Inl e
     | Inr deadline \<Rightarrow>
         let wake_at_ms = (case deadline of None \<Rightarrow> wake_at_ms | Some t \<Rightarrow> min wake_at_ms t)
         in Inr (if receive_enabled now d then wake_at_ms else min wake_at_ms (sd_receive_not_before_ms d)))"

definition begin_local_shutdown :: "pass \<Rightarrow> SessionDriver \<Rightarrow> flow driven"
  where "begin_local_shutdown p d =
    and_then (now_ms (pa_clock p 2) d) (\<lambda>started d.
      case checked_add started GRACEFUL_CLOSE_ACK_TIMEOUT_MS of
        None \<Rightarrow> (Inl (Raised ClockExhausted), d)
      | Some deadline \<Rightarrow> (Inr (Go (Closing deadline started)), d))"

definition serve_datagram :: "('s, 'p) externals \<Rightarrow> pass \<Rightarrow> datagram_result \<Rightarrow> SessionDriver \<Rightarrow> flow driven"
  where "serve_datagram X p result d =
    and_then (classify_receive (pa_clock p 2) result d) (\<lambda>received d.
      case received of
        None \<Rightarrow> (Inr (Go Serving), d)
      | Some (inbound, source) \<Rightarrow>
          and_then (handle_datagram X (pa_clock p 3) (pa_clock p 4) inbound source d) (\<lambda>outcome d.
            case outcome of
              Continue \<Rightarrow> (Inr (Go Serving), d)
            | RemoteShutdown \<Rightarrow> acknowledge_shutdown X p (finish_graceful_close X RemoteClosed p) d))"

definition serve_wake :: "('s, 'p) externals \<Rightarrow> pass \<Rightarrow> Wake \<Rightarrow> SessionDriver \<Rightarrow> flow driven"
  where "serve_wake X p wake d =
    (case wake of
       Command command \<Rightarrow> and_then (handle_command X (pa_clock p 2) command d) (\<lambda>_ d. (Inr (Go Serving), d))
     | Datagram result \<Rightarrow> serve_datagram X p result d
     | Output \<Rightarrow> and_then (emit_output X d) (\<lambda>_ d. (Inr (Go Serving), d))
     | Wake.OwnerDropped \<Rightarrow> (Inr (Exit SessionExit.OwnerDropped), d)
     | Wake.Cancelled \<Rightarrow> (Inr (Exit SessionExit.Cancelled), d)
     | GracefulClose \<Rightarrow> begin_local_shutdown p d
     | Timer \<Rightarrow> (Inr (Go Serving), d))"

definition serve_wait :: "('s, 'p) externals \<Rightarrow> pass \<Rightarrow> u64 \<Rightarrow> u64 \<Rightarrow> SessionDriver \<Rightarrow> flow driven"
  where "serve_wait X p now wake_at_ms d =
    and_then (lift_error Reachability (earliest_wake now wake_at_ms d), d) (\<lambda>wake_at_ms d.
      if \<not> pa_representable p wake_at_ms then (Inl (Raised ClockExhausted), d)
      else case wait_next True (sd_output_requested d) (receive_enabled now d) (pa_polls p) of
             None \<Rightarrow> (Inr Asleep, d)
           | Some wake \<Rightarrow> serve_wake X p wake d)"

definition serve_pass :: "('s, 'p) externals \<Rightarrow> pass \<Rightarrow> SessionDriver \<Rightarrow> flow driven"
  where "serve_pass X p d =
    (if pa_cancelled p then (Inr (Exit SessionExit.Cancelled), d)
     else
    and_then (now_ms (pa_clock p 0) d) (\<lambda>now d.
    and_then (keep_house now d) (\<lambda>_ d.
    and_then (part Timing (poll (sd_scheduler d) now (dt_estimator (sd_datagram_timing d))
        (latest_unacknowledged_sent_at_ms (sd_synchronization d))) (\<lambda>sc. d\<lparr> sd_scheduler := sc \<rparr>)) (\<lambda>answer d.
      case answer of
        Send plan \<Rightarrow>
          and_then (send_instruction X plan now (pa_send p) (pa_clock p 1) d) (\<lambda>_ d.
            (Inr (if pa_cancelled_later p then Exit SessionExit.Cancelled else Go Serving), d))
      | Pending wake_at_ms \<Rightarrow> serve_wait X p now wake_at_ms d))))"

section \<open>Closing\<close>

definition close_send :: "('s, 'p) externals \<Rightarrow> pass \<Rightarrow> u64 \<Rightarrow> u64 \<Rightarrow> SessionDriver \<Rightarrow> (SessionExit + u64) driven"
  where "close_send X p now next_send_ms d =
    (if now < next_send_ms then (Inr (Inr next_send_ms), d)
     else
    and_then (send_shutdown_request X now (pa_send p) d) (\<lambda>outcome d.
      case outcome of
        Sent \<Rightarrow>
          (lift_error id (map_sum id Inr (ok_or ClockExhausted (checked_add now (retransmission_timeout_ms d)))), d)
      | SendCancelled \<Rightarrow> (Inr (Inl SessionExit.Cancelled), d)
      | Deferred \<Rightarrow>
          and_then (now_ms (pa_clock p 1) d) (\<lambda>failed_at_ms d.
            (lift_error id (map_sum id Inr (ok_or ClockExhausted (checked_add failed_at_ms (io_retry_ms d)))), d))))"

definition close_wake_ms :: "u64 \<Rightarrow> u64 \<Rightarrow> u64 \<Rightarrow> SessionDriver \<Rightarrow> u64"
  where "close_wake_ms now deadline_ms next_send_ms d =
    (let wake_ms = min next_send_ms deadline_ms
     in if receive_enabled now d then wake_ms else min wake_ms (sd_receive_not_before_ms d))"

definition close_done :: "('s, 'p) externals \<Rightarrow> pass \<Rightarrow> phase \<Rightarrow> bool \<Rightarrow> SessionDriver \<Rightarrow> flow driven"
  where "close_done X p again acknowledged d =
    (if acknowledged \<or> sd_final_terminal d \<noteq> None then finish_graceful_close X LocalClosed p d
     else (Inr (Go again), d))"

definition close_instruction :: "('s, 'p) externals \<Rightarrow> pass \<Rightarrow> phase \<Rightarrow> TransportInstruction \<Rightarrow> SessionDriver \<Rightarrow> flow driven"
  where "close_instruction X p again instruction d =
    (let acknowledged = (ti_acknowledged_state instruction = SHUTDOWN_STATE) in
     if is_shutdown instruction
     then and_then (handle_remote_shutdown X instruction d) (\<lambda>_ d. acknowledge_shutdown X p (close_done X p again acknowledged) d)
     else
       let ordinary = (if acknowledged
                       then instruction\<lparr> ti_acknowledged_state := sy_known_receiver_state (sd_synchronization d) \<rparr>
                       else instruction)
       in and_then (handle_normal_instruction X (pa_clock p 4) ordinary d) (\<lambda>_ d. close_done X p again acknowledged d))"

definition close_datagram :: "('s, 'p) externals \<Rightarrow> pass \<Rightarrow> phase \<Rightarrow> datagram_result \<Rightarrow> SessionDriver \<Rightarrow> flow driven"
  where "close_datagram X p again result d =
    and_then (classify_receive (pa_clock p 2) result d) (\<lambda>received d.
      case received of
        None \<Rightarrow> (Inr (Go again), d)
      | Some (inbound, source) \<Rightarrow>
          and_then (decode_datagram X (pa_clock p 3) inbound source d) (\<lambda>decoded d.
            case decoded of
              None \<Rightarrow> (Inr (Go again), d)
            | Some instruction \<Rightarrow> close_instruction X p again instruction d))"

definition close_wake :: "('s, 'p) externals \<Rightarrow> pass \<Rightarrow> phase \<Rightarrow> Wake \<Rightarrow> SessionDriver \<Rightarrow> flow driven"
  where "close_wake X p again wake d =
    (case wake of
       Command command \<Rightarrow> and_then (handle_command X (pa_clock p 2) command d) (\<lambda>_ d. (Inr (Go again), d))
     | Datagram result \<Rightarrow> close_datagram X p again result d
     | Output \<Rightarrow> and_then (emit_output X d) (\<lambda>_ d. (Inr (Go again), d))
     | Wake.OwnerDropped \<Rightarrow> (Inr (Exit SessionExit.OwnerDropped), d)
     | Wake.Cancelled \<Rightarrow> (Inr (Exit SessionExit.Cancelled), d)
     | GracefulClose \<Rightarrow> (Inr (Go again), d)
     | Timer \<Rightarrow> (Inr (Go again), d))"

definition close_pass :: "('s, 'p) externals \<Rightarrow> u64 \<Rightarrow> u64 \<Rightarrow> pass \<Rightarrow> SessionDriver \<Rightarrow> flow driven"
  where "close_pass X deadline_ms next_send_ms p d =
    (if pa_cancelled p then (Inr (Exit SessionExit.Cancelled), d)
     else
    and_then (now_ms (pa_clock p 0) d) (\<lambda>now d.
      if now \<ge> deadline_ms then (Inr (Exit LocalClosed), d)
      else
    and_then (close_send X p now next_send_ms d) (\<lambda>sent d.
      case sent of
        Inl exit \<Rightarrow> (Inr (Exit exit), d)
      | Inr next_send_ms \<Rightarrow>
          if \<not> pa_representable p (close_wake_ms now deadline_ms next_send_ms d) then (Inl (Raised ClockExhausted), d)
          else case wait_next False (sd_output_requested d) (receive_enabled now d) (pa_polls p) of
                 None \<Rightarrow> (Inr Asleep, d)
               | Some wake \<Rightarrow> close_wake X p (Closing deadline_ms next_send_ms) wake d)))"

section \<open>The task\<close>

fun session_pass :: "('s, 'p) externals \<Rightarrow> phase \<Rightarrow> pass \<Rightarrow> SessionDriver \<Rightarrow> flow driven"
  where
    "session_pass X Serving p d = serve_pass X p d"
  | "session_pass X (Closing deadline_ms next_send_ms) p d = close_pass X deadline_ms next_send_ms p d"

fun driver_run :: "('s, 'p) externals \<Rightarrow> phase \<Rightarrow> pass list \<Rightarrow> SessionDriver \<Rightarrow> flow driven"
  where
    "driver_run X ph [] d = (Inr (Go ph), d)"
  | "driver_run X ph (p # ps) d =
      and_then (session_pass X ph p d) (\<lambda>flow d.
        case flow of Go ph \<Rightarrow> driver_run X ph ps d | _ \<Rightarrow> (Inr flow, d))"

section \<open>The invariant in a pass\<close>

text \<open>The datagrams that can arrive in a pass are genuine.\<close>

definition heard :: "('s, 'p) externals \<Rightarrow> server option \<Rightarrow> pass \<Rightarrow> bool"
  where "heard X known p \<longleftrightarrow>
    (\<forall>r \<in> set (pa_polls p). \<forall>datagram source. rd_datagram r = Some (Inr (datagram, source)) \<longrightarrow> genuine X known datagram)"

lemma wait_poll_datagram: "wait_poll g n e r = Some (Datagram result) \<Longrightarrow> rd_datagram r = Some result"
  by (auto simp: wait_poll_def split: if_splits option.splits)

lemma wait_next_datagram:
  "wait_next g n e rs = Some (Datagram result) \<Longrightarrow> \<exists>r \<in> set rs. rd_datagram r = Some result"
  by (induction rs) (auto split: option.splits dest: wait_poll_datagram)

lemma wait_next_heard:
  "heard X c p \<Longrightarrow> wait_next g n e (pa_polls p) = Some (Datagram (Inr (datagram, source))) \<Longrightarrow> genuine X c datagram"
  using wait_next_datagram unfolding heard_def by blast

lemma internal_error: "session_error e = InternalState \<Longrightarrow> internal e"
  by (cases e rule: session_error.cases) (auto simp: internal_def split: if_splits elim: instruction_session_error.elims)

lemma drives_return:
  "drives X c P r \<Longrightarrow> (\<And>d. driver_ok X c d \<Longrightarrow> driver_ok X c (f d)) \<Longrightarrow> drives X c (\<lambda>_ _. True) (and_then r (\<lambda>_ d. (Inr x, f d)))"
  by (erule drives_and_then) simp

lemma drives_finish_graceful_close:
  assumes X: "externals_ok X c" and d: "driver_ok X c d"
  shows "drives X c (\<lambda>_ _. True) (finish_graceful_close X exit p d)"
  using d drives_return [OF drives_emit_output [OF X d], of "\<lambda>d. d" "Exit exit"]
  by (auto simp: finish_graceful_close_def split: option.split sum.split)

lemma drives_acknowledge_shutdown:
  assumes X: "externals_ok X c" and d: "driver_ok X c d" and rest: "\<And>d. driver_ok X c d \<Longrightarrow> drives X c (\<lambda>_ _. True) (rest d)"
  shows "drives X c (\<lambda>_ _. True) (acknowledge_shutdown X p rest d)"
  unfolding acknowledge_shutdown_def
  by (rule drives_and_then [OF drives_now [OF d]], rule drives_and_then [OF drives_send_shutdown_acknowledgement [OF X]])
     (auto intro: rest)

lemma prediction_policy_ok:
  assumes "prediction_ok E S lp"
  shows "prediction_ok E S (snd (prediction_expire now lp))" "set (lp_pending (snd (prediction_expire now lp))) \<subseteq> set (lp_pending lp)"
    and "prediction_ok E S (snd (update_policy now interval lp))" "lp_pending (snd (update_policy now interval lp)) = lp_pending lp"
  using assms prediction_ok_clear [OF assms]
  by (auto simp: prediction_expire_def prediction_clear_def update_policy_def Let_def prediction_ok_flags split: option.split)

lemma driver_ok_keep_prediction:
  assumes d: "driver_ok X c d"
  shows "driver_ok X c (keep_prediction now d)"
proof -
  let ?sy = "sd_synchronization d"
  have kept: "display_ok E ?sy (snd (update_policy now interval (snd (prediction_expire now (sd_prediction d)))))"
    if "display_ok E ?sy (sd_prediction d)" for E :: "'b terminal_env" and interval
    using that prediction_policy_ok(1,2) [of E "Collect state_ok" "sd_prediction d" now]
      prediction_policy_ok(3,4) [of E "Collect state_ok" "snd (prediction_expire now (sd_prediction d))" now interval]
    by (auto simp: display_ok_def)
  then show ?thesis
    using d by (simp add: keep_prediction_def driver_ok_def Let_def split_beta)
qed

lemma drives_keep_house:
  assumes d: "driver_ok X c d"
  shows "drives X c (\<lambda>_ _. True) (keep_house now d)"
  unfolding keep_house_def
proof (rule drives_and_then [OF drives_publish_reachability [OF d]])
  fix u d' assume d': "driver_ok X c d'"
  have "drives X c (\<lambda>_ _. True) (part Reassembly (ra_expire (sd_reassembler d') now) (\<lambda>ra. d'\<lparr> sd_reassembler := ra \<rparr>))"
    using d' ra_from_expire [of _ "sd_reassembler d'" now]
    by (intro drives_part) (auto simp: internal_def driver_ok_def listens_def)
  from drives_return [OF this, of "keep_prediction now" "()"] show "drives X c (\<lambda>_ _. True)
     (if attachment_timed_out (sd_reachability d') now then (Inl (Raised ConnectionTimeout), d')
      else and_then (part Reassembly (ra_expire (sd_reassembler d') now) (\<lambda>ra. d'\<lparr> sd_reassembler := ra \<rparr>)) (\<lambda>_ d.
        (Inr (), keep_prediction now d)))"
    by (simp add: internal_def driver_ok_keep_prediction)
qed

lemma drives_serve_datagram:
  assumes X: "externals_ok X c" and srv: "keeps_width X c" and d: "driver_ok X c d"
    and gen: "\<And>inbound source. result = Inr (inbound, source) \<Longrightarrow> genuine X c inbound"
  shows "drives X c (\<lambda>_ _. True) (serve_datagram X p result d)"
  unfolding serve_datagram_def
proof (rule drives_and_then [OF drives_classify_receive [OF d]])
  fix received d1 assume d1: "driver_ok X c d1" and received: "\<forall>x. received = Some x \<longrightarrow> result = Inr x"
  have "drives X c (\<lambda>_ _. True) (and_then (handle_datagram X (pa_clock p 3) (pa_clock p 4) inbound source d1) (\<lambda>outcome d.
      case outcome of
        Continue \<Rightarrow> (Inr (Go Serving), d)
      | RemoteShutdown \<Rightarrow> acknowledge_shutdown X p (finish_graceful_close X RemoteClosed p) d))"
    if "received = Some (inbound, source)" for inbound source
    by (rule drives_and_then [OF drives_handle_datagram [OF X srv d1 gen]], use that received in simp)
       (auto split: DatagramOutcome.split intro!: drives_acknowledge_shutdown [OF X] drives_finish_graceful_close [OF X])
  then show "drives X c (\<lambda>_ _. True)
      (case received of
         None \<Rightarrow> (Inr (Go Serving), d1)
       | Some (inbound, source) \<Rightarrow>
           and_then (handle_datagram X (pa_clock p 3) (pa_clock p 4) inbound source d1) (\<lambda>outcome d.
             case outcome of
               Continue \<Rightarrow> (Inr (Go Serving), d)
             | RemoteShutdown \<Rightarrow> acknowledge_shutdown X p (finish_graceful_close X RemoteClosed p) d))"
    using d1 by (auto split: option.split)
qed

lemma drives_begin_local_shutdown:
  "driver_ok X c d \<Longrightarrow> drives X c (\<lambda>_ _. True) (begin_local_shutdown p d)"
  unfolding begin_local_shutdown_def
  by (rule drives_and_then [OF drives_now]) (auto simp: internal_def split: option.split)

lemma drives_serve_wake:
  assumes X: "externals_ok X c" and srv: "keeps_width X c" and d: "driver_ok X c d"
    and gen: "\<And>inbound source. wake = Datagram (Inr (inbound, source)) \<Longrightarrow> genuine X c inbound"
  shows "drives X c (\<lambda>_ _. True) (serve_wake X p wake d)"
  using d gen drives_return [OF drives_emit_output [OF X d], of "\<lambda>d. d"] drives_return [OF drives_handle_command [OF X d], of "\<lambda>d. d"]
  by (auto simp: serve_wake_def drives_begin_local_shutdown split: Wake.split intro!: drives_serve_datagram [OF X srv])

lemma drives_serve_wait:
  assumes X: "externals_ok X c" and srv: "keeps_width X c" and d: "driver_ok X c d" and p: "heard X c p"
  shows "drives X c (\<lambda>_ _. True) (serve_wait X p now wake d)"
  unfolding serve_wait_def
  by (rule drives_and_then [where P = "\<lambda>_ _. True"])
     (auto simp: internal_def split: option.split intro: drives_lift [OF d] drives_serve_wake [OF X srv] wait_next_heard [OF p])

lemma poll_wake_current: "poll sc now timing latest = (Inr (Send plan), sc') \<Longrightarrow> wake_current plan sc'"
  by (auto simp: poll_eq wake_current_def decide_def Let_def split: if_splits option.splits sum.splits prod.splits)

lemma deadlines_errors: "deadlines sc timing latest = Inl e \<Longrightarrow> e = TimingError.TimerExhausted"
  by (auto simp: deadlines_def and_then_def local_change_due_def checked_deadline_def transpose_result_def ok_or_def
      split: option.splits sum.splits)

lemma poll_errors: "poll sc now timing latest = (Inl e, sc') \<Longrightarrow> \<not> internal (Timing e)"
  by (auto simp: poll_eq internal_def Let_def split: if_splits option.splits sum.splits prod.splits dest!: deadlines_errors)

lemma drives_serve_pass:
  assumes X: "externals_ok X c" and srv: "keeps_width X c" and d: "driver_ok X c d" and p: "heard X c p"
  shows "drives X c (\<lambda>_ _. True) (serve_pass X p d)"
proof -
  have polled: "drives X c (\<lambda>answer d'. case answer of Send plan \<Rightarrow> wake_current plan (sd_scheduler d') | Pending _ \<Rightarrow> True)
      (part Timing (poll (sd_scheduler d) now (dt_estimator (sd_datagram_timing d)) (latest_unacknowledged_sent_at_ms (sd_synchronization d)))
        (\<lambda>sc. d\<lparr> sd_scheduler := sc \<rparr>))" if "driver_ok X c d" for now d
    using that by (intro drives_part) (auto dest: poll_errors poll_wake_current split: SchedulerPoll.split)
  show ?thesis
    unfolding serve_pass_def
    by (auto simp: d drives_serve_wait [OF X srv _ p] split: SchedulerPoll.split
        intro!: drives_and_then [OF drives_now [OF d]] drives_and_then [OF drives_keep_house] drives_and_then [OF polled]
          drives_return [OF drives_send_instruction [OF X], of _ _ "\<lambda>d. d"])
qed

lemma drives_close_send:
  assumes X: "externals_ok X c" and d: "driver_ok X c d"
  shows "drives X c (\<lambda>_ _. True) (close_send X p now next_send d)"
proof -
  have wait: "drives X c (\<lambda>_ _. True) (lift_error id (map_sum id Inr (ok_or ClockExhausted r)), d')" if "driver_ok X c d'" for r d'
    using that by (cases r) (simp_all add: ok_or_def internal_def)
  have again: "drives X c (\<lambda>_ _. True) (and_then (now_ms (pa_clock p 1) d') (\<lambda>failed_at_ms d.
      (lift_error id (map_sum id Inr (ok_or ClockExhausted (checked_add failed_at_ms (io_retry_ms d)))), d)))" if "driver_ok X c d'" for d'
    by (rule drives_and_then [OF drives_now [OF that]], rule wait)
  show ?thesis
    unfolding close_send_def
    using d wait again by (auto split: TransportSendOutcome.split intro!: drives_and_then [OF drives_send_shutdown_request [OF X d]])
qed

lemma drives_close_done:
  assumes X: "externals_ok X c" and d: "driver_ok X c d"
  shows "drives X c (\<lambda>_ _. True) (close_done X p again acknowledged d)"
  using d drives_finish_graceful_close [OF X d] by (simp add: close_done_def)

lemma drives_close_instruction:
  assumes X: "externals_ok X c" and d: "driver_ok X c d" and input: "harmless X c (ti_state_difference instruction)"
  shows "drives X c (\<lambda>_ _. True) (close_instruction X p again instruction d)"
  unfolding close_instruction_def Let_def
  using d input by (auto intro!: drives_and_then [OF drives_handle_remote_shutdown [OF X]] drives_and_then [OF drives_handle_normal_instruction [OF X]]
      drives_acknowledge_shutdown [OF X] drives_close_done [OF X])

lemma drives_close_datagram:
  assumes X: "externals_ok X c" and srv: "keeps_width X c" and d: "driver_ok X c d"
    and gen: "\<And>inbound source. result = Inr (inbound, source) \<Longrightarrow> genuine X c inbound"
  shows "drives X c (\<lambda>_ _. True) (close_datagram X p again result d)"
proof -
  have "drives X c (\<lambda>_ _. True) (and_then (decode_datagram X (pa_clock p 3) inbound source d1) (\<lambda>decoded d.
      case decoded of None \<Rightarrow> (Inr (Go again), d) | Some instruction \<Rightarrow> close_instruction X p again instruction d))"
    if "driver_ok X c d1" "result = Inr (inbound, source)" for d1 inbound source
    by (rule drives_and_then [OF drives_decode_datagram [OF X srv that(1) gen [OF that(2)]]])
       (auto simp: harmless_result_def split: option.split intro!: drives_close_instruction [OF X])
  then show ?thesis
    unfolding close_datagram_def
    by (intro drives_and_then [OF drives_classify_receive [OF d]]) (auto split: option.split)
qed

lemma drives_close_wake:
  assumes X: "externals_ok X c" and srv: "keeps_width X c" and d: "driver_ok X c d"
    and gen: "\<And>inbound source. wake = Datagram (Inr (inbound, source)) \<Longrightarrow> genuine X c inbound"
  shows "drives X c (\<lambda>_ _. True) (close_wake X p again wake d)"
  using d gen drives_return [OF drives_emit_output [OF X d], of "\<lambda>d. d"] drives_return [OF drives_handle_command [OF X d], of "\<lambda>d. d"]
  by (auto simp: close_wake_def split: Wake.split intro!: drives_close_datagram [OF X srv])

lemma drives_close_pass:
  assumes X: "externals_ok X c" and srv: "keeps_width X c" and d: "driver_ok X c d" and p: "heard X c p"
  shows "drives X c (\<lambda>_ _. True) (close_pass X deadline next_send p d)"
  unfolding close_pass_def
  using d by (auto simp: internal_def split: sum.split option.split
      intro!: drives_and_then [OF drives_now [OF d]] drives_and_then [OF drives_close_send [OF X]] drives_close_wake [OF X srv]
        wait_next_heard [OF p])

lemma drives_run:
  assumes X: "externals_ok X c" and srv: "keeps_width X c"
  shows "driver_ok X c d \<Longrightarrow> \<forall>p \<in> set ps. heard X c p \<Longrightarrow> drives X c (\<lambda>_ _. True) (driver_run X ph ps d)"
proof (induction ps arbitrary: ph d)
  case (Cons p ps)
  have "drives X c (\<lambda>_ _. True) (session_pass X ph p d)"
    using Cons.prems by (cases ph) (simp_all add: drives_serve_pass [OF X srv] drives_close_pass [OF X srv])
  then show ?case
    unfolding driver_run.simps using Cons.prems(2) by (elim drives_and_then) (auto split: flow.split intro: Cons.IH)
qed simp

section \<open>A local close ends\<close>

lemma wait_poll_timer: "rd_timer r \<Longrightarrow> wait_poll g n e r \<noteq> None"
  by (auto simp: wait_poll_def split: option.split)

lemma wait_next_timer: "\<exists>r \<in> set rs. rd_timer r \<Longrightarrow> \<exists>wake. wait_next g n e rs = Some wake"
proof (induction rs)
  case (Cons r rs)
  then show ?case using wait_poll_timer [of r g n e] by (auto split: option.split)
qed simp

text \<open>The ways a pass of the closing loop can go on when it does not fail: it keeps the deadline and does not sleep on.\<close>

definition closes :: "u64 \<Rightarrow> flow driven \<Rightarrow> bool"
  where "closes deadline r \<longleftrightarrow>
    (case fst r of
       Inl _ \<Rightarrow> True
     | Inr flow \<Rightarrow> flow = Draining \<or> (\<exists>exit. flow = Exit exit) \<or> (\<exists>next_send. flow = Go (Closing deadline next_send)))"

lemma closes_simps [simp]:
  "closes deadline (Inl f, d)" "closes deadline (Inr (Go (Closing deadline next_send)), d)" "closes deadline (Inr Draining, d)"
  "closes deadline (Inr (Exit exit), d)"
  by (simp_all add: closes_def)

lemma closes_and_then: "(\<And>x d. closes deadline (k x d)) \<Longrightarrow> closes deadline (and_then r k)"
  by (cases r; cases "fst r") (auto simp: closes_def)

lemma closes_finish: "closes deadline (finish_graceful_close X exit p d)"
  by (auto simp: finish_graceful_close_def split: option.split sum.split intro!: closes_and_then)

lemma closes_done: "closes deadline (close_done X p (Closing deadline next_send) acknowledged d)"
  by (simp add: close_done_def closes_finish)

lemma closes_wake: "closes deadline (close_wake X p (Closing deadline next_send) wake d)"
  by (auto simp: close_wake_def close_datagram_def close_instruction_def acknowledge_shutdown_def Let_def closes_done
      split: Wake.split option.split intro!: closes_and_then)

lemma close_pass_closes:
  assumes "\<exists>r \<in> set (pa_polls p). rd_timer r"
  shows "closes deadline (close_pass X deadline next_send p d)"
proof -
  have "closes deadline (case wait_next False n e (pa_polls p) of None \<Rightarrow> (Inr Asleep, d)
      | Some wake \<Rightarrow> close_wake X p (Closing deadline next_send) wake d)" for n e next_send d
    using wait_next_timer [OF assms, of False n e] closes_wake by auto
  then show ?thesis
    unfolding close_pass_def by (auto split: sum.split intro!: closes_and_then)
qed

lemma close_pass_expired:
  assumes "unat deadline \<le> pa_clock p 0"
  shows "case fst (close_pass X deadline next_send p d) of Inl _ \<Rightarrow> True | Inr flow \<Rightarrow> \<exists>exit. flow = Exit exit"
  using assms by (auto simp: close_pass_def now_ms_def word_le_nat_alt unat_of_nat)

section \<open>Timers lie ahead\<close>

lemma reachability_deadline_ahead:
  assumes "reachability_update t0 now = (Inr r, t)" and "reachability_next_deadline_ms t = Inr (Some deadline)"
    and "\<not> attachment_timed_out t now"
  shows "now < deadline"
proof -
  have cur: "rt_current t = reachability_at (rt_last_contact_ms t) (rt_last_reply_ms t) now"
    using reachability_update_okD(1) [OF assms(1)] by (simp add: calculate_ok_iff)
  have due: "checked_add s w = Some d \<Longrightarrow> now < d \<longleftrightarrow> \<not> Reachability.passed s w now" for s w d
    using checked_add_passed [of s w d now] by (simp add: not_le [symmetric])
  show ?thesis
    using assms(2,3) cur
    by (cases "rt_last_contact_ms t")
       (auto simp: reachability_next_deadline_ms_def contact_deadline_ms_def attachment_timed_out_def ok_or_def due split: if_splits option.splits)
qed

lemma prediction_deadline_ahead:
  assumes "prediction_next_deadline_ms (snd (update_policy now interval (snd (prediction_expire now lp)))) = Some t"
  shows "now < t"
proof -
  have keep: "expiration_deadline_ms (snd (update_policy now interval lp)) = expiration_deadline_ms lp" for lp
    by (simp add: update_policy_def expiration_deadline_ms_def front_plus_def Let_def split: option.split)
  have expiry: "now < t" if "expiration_deadline_ms (snd (prediction_expire now lp)) = Some t" for t
    using that by (auto simp: prediction_expire_def prediction_clear_def expiration_deadline_ms_def front_plus_def not_le split: if_splits option.splits)
  have glitch: "now < t" if "lp_mode (snd (update_policy now interval lp)) = Adaptive" "lp_confidence (snd (update_policy now interval lp)) = Confirmed"
      "\<not> lp_adaptive_glitch (snd (update_policy now interval lp))" "front_plus ADAPTIVE_PREDICTION_GLITCH_MS (snd (update_policy now interval lp)) = Some t" for lp t
    using that by (auto simp: update_policy_def front_plus_def Let_def not_le split: if_splits option.splits list.splits)
  show ?thesis
    using assms expiry glitch unfolding prediction_next_deadline_ms_def keep Let_def by (auto split: option.splits if_splits)
qed

lemma keep_house_ahead:
  assumes "keep_house now d = (Inr (), d')"
  shows "reachability_next_deadline_ms (sd_reachability d') = Inr (Some t) \<Longrightarrow> now < t"
    and "prediction_next_deadline_ms (sd_prediction d') = Some t \<Longrightarrow> now < t"
proof -
  obtain v tr where v: "reachability_update (sd_reachability d) now = (v, tr)" by (rule prod.exhaust)
  obtain u ra where u: "ra_expire (sd_reassembler d) now = (u, ra)" by (rule prod.exhaust)
  obtain r where r: "reachability_update (sd_reachability d) now = (Inr r, tr)"
    using assms v by (cases v) (simp_all add: keep_house_def publish_reachability_def part_def)
  define d1 where "d1 = (case r of None \<Rightarrow> d\<lparr> sd_reachability := tr \<rparr>
      | Some reachability \<Rightarrow> d\<lparr> sd_reachability := tr, sd_published_reachability := reachability \<rparr>)\<lparr> sd_reassembler := ra \<rparr>"
  have d1: "sd_reachability d1 = tr" by (simp add: d1_def split: option.split)
  have out: "\<not> attachment_timed_out tr now" and d': "d' = keep_prediction now d1"
    using assms r u d1 by (cases u; cases r; simp add: keep_house_def publish_reachability_def part_def d1_def split: if_splits)+
  have "sd_reachability d' = sd_reachability d1" "\<exists>interval. sd_prediction d' = snd (update_policy now interval (snd (prediction_expire now (sd_prediction d1))))"
    by (auto simp: d' keep_prediction_def Let_def split_beta)
  then show "reachability_next_deadline_ms (sd_reachability d') = Inr (Some t) \<Longrightarrow> now < t"
    and "prediction_next_deadline_ms (sd_prediction d') = Some t \<Longrightarrow> now < t"
    using reachability_deadline_ahead [OF r _ out] prediction_deadline_ahead d1 by auto
qed

lemma poll_ahead: "poll sc now timing latest = (Inr (Pending wake), sc') \<Longrightarrow> now < wake"
  by (auto simp: poll_eq Let_def split: if_splits option.splits sum.splits prod.splits dest: decide_Pending)

lemma close_send_ahead:
  assumes "externals_ok X c" and "driver_ok X c d" and "now \<le> of_nat (pa_clock p 1)"
    and "close_send X p now next_send d = (Inr (Inr next_send'), d')"
  shows "now < next_send'"
proof -
  have later: "t < t'" if "checked_add t r = Some t'" "r \<noteq> 0" for t r t' :: u64
    using that by (auto simp: checked_add_def word_less_nat_alt unat_add_no_overflow unat_gt_0 split: if_splits)
  have pos: "retransmission_timeout_ms d' \<noteq> 0" "io_retry_ms d' \<noteq> 0"
    using driver_timeout [of X c d'] drives_close_send [OF assms(1,2), of p now next_send] assms(4)
    by (auto simp: io_retry_ms_def max_def split: if_splits)
  show ?thesis
  proof (cases "now < next_send")
    case False
    then obtain outcome d1 where sent: "send_shutdown_request X now (pa_send p) d = (Inr outcome, d1)"
      using assms(4) by (auto simp: close_send_def and_then_eq_Inr_iff)
    show ?thesis
    proof (cases outcome)
      case Sent
      then show ?thesis using False assms(4) later [of now] pos by (auto simp: close_send_def sent ok_or_def split: option.splits)
    next
      case Deferred
      then have "checked_add (of_nat (pa_clock p 1)) (io_retry_ms d') = Some next_send'"
        using False assms(4) by (auto simp: close_send_def sent ok_or_def now_ms_def split: option.splits if_splits)
      from later [OF this pos(2)] assms(3) show ?thesis by simp
    qed (use False assms(4) in \<open>simp add: close_send_def sent\<close>)
  qed (use assms(4) in \<open>simp add: close_send_def\<close>)
qed

section \<open>Properties\<close>

text \<open>C1: A session never fails for reasons of its own. Whatever the network, the server and the application do in a
  sequence of passes, the tables of the driver stay in step, and an error it stops with is never one of a missing
  client state, a missing terminal state or a stale plan, so \<open>InternalState\<close> is never reported; for this
  (\<open>known = None\<close>) nothing is asked of the server. Moreover the terminal states stay well-formed and nothing panics, in
  a release build, under these conditions on the session and on a known server (\<open>known = Some s\<close>): the session starts
  with at least two rows and columns; the instructions among the server's messages resize, if at all, to the same
  width and at least two rows; and the datagrams that open under the key are pieces of these messages. Other
  datagrams are arbitrary.\<close>

theorem session_invariant:
  assumes "driver_connect X bound bootstrap columns rows m = Inr d" and "externals_ok X known"
    and "\<forall>s. known = Some s \<longrightarrow>
      sv_columns s = unat columns \<and> 2 \<le> unat columns \<and> 2 \<le> unat rows \<and> sv_key s = bs_session_key bootstrap"
    and "keeps_width X known" and "\<forall>p \<in> set ps. heard X known p"
  shows "case driver_run X Serving ps d of
      (Inl (Raised e), _) \<Rightarrow> \<not> internal e \<and> session_error e \<noteq> InternalState
    | (Inl Panicked, _) \<Rightarrow> known = None
    | (Inr flow, d') \<Rightarrow> driver_ok X known d'"
proof -
  have "driver_ok X known d" using driver_connect_ok [OF assms(2) _ assms(1)] assms(3) by blast
  from drives_run [OF assms(2,4) this assms(5), of Serving] show ?thesis
    using internal_error by (auto simp: drives_def split: prod.split sum.split fault.split)
qed

text \<open>C8: Whenever a loop waits, its timer lies ahead, so the timer, which is looked at before the socket, cannot keep
  the session from receiving. The serving loop waits for a time after now; the closing loop, while its deadline is
  ahead and the clock does not run backwards, for a time after now and not past the deadline.\<close>

theorem timers_ahead:
  "(keep_house now d = (Inr (), d1) \<and> poll (sd_scheduler d1) now timing latest = (Inr (Pending due), sc)
      \<and> earliest_wake now due (d1\<lparr> sd_scheduler := sc \<rparr>) = Inr wake \<longrightarrow> now < wake)
   \<and> (externals_ok X None \<and> driver_ok X None d \<and> now \<le> of_nat (pa_clock p 1) \<and> now < deadline
      \<and> close_send X p now next_send d = (Inr (Inr next_send'), d2) \<longrightarrow>
        now < close_wake_ms now deadline next_send' d2 \<and> close_wake_ms now deadline next_send' d2 \<le> deadline)"
proof -
  have "now < wake" if house: "keep_house now d = (Inr (), d1)" and due: "poll (sd_scheduler d1) now timing latest = (Inr (Pending due), sc)"
      and wake: "earliest_wake now due (d1\<lparr> sd_scheduler := sc \<rparr>) = Inr wake"
    using keep_house_ahead [OF house] poll_ahead [OF due] wake
    by (auto simp: earliest_wake_def receive_enabled_def min_def not_le Let_def split: option.splits sum.splits if_splits)
  moreover have "now < close_wake_ms now deadline next_send' d2 \<and> close_wake_ms now deadline next_send' d2 \<le> deadline"
    if "externals_ok X None" "driver_ok X None d" "now \<le> of_nat (pa_clock p 1)" "now < deadline"
      "close_send X p now next_send d = (Inr (Inr next_send'), d2)"
    using close_send_ahead [OF that(1-3,5)] that(4)
    by (auto simp: close_wake_ms_def receive_enabled_def min_def not_le Let_def)
  ultimately show ?thesis by blast
qed

text \<open>C6: A local close ends. The deadline is fixed when the close begins; once a pass starts at or after it, and if in
  every pass the timer eventually fires, the session has stopped by then, with an exit or an error, or it waits for
  the application to make room for the last output.\<close>

theorem local_close_bounded:
  assumes "ps \<noteq> []" and "unat deadline \<le> pa_clock (last ps) 0" and "\<forall>p \<in> set ps. \<exists>r \<in> set (pa_polls p). rd_timer r"
  shows "case fst (driver_run X (Closing deadline next_send) ps d) of
      Inl fault \<Rightarrow> True
    | Inr flow \<Rightarrow> flow = Draining \<or> (\<exists>exit. flow = Exit exit)"
  using assms
proof (induction ps arbitrary: next_send d)
  case (Cons p ps)
  show ?case
  proof (cases "fst (close_pass X deadline next_send p d)")
    case (Inr flow)
    have "flow = Draining \<or> (\<exists>exit. flow = Exit exit) \<or> (\<exists>next_send. flow = Go (Closing deadline next_send))"
      using close_pass_closes [of p deadline X next_send d] Cons.prems(3) Inr by (simp add: closes_def)
    moreover have "\<exists>exit. flow = Exit exit" if "ps = []"
      using that Cons.prems(2) close_pass_expired [of deadline p X next_send d] Inr by simp
    ultimately show ?thesis
      using Inr Cons.IH Cons.prems(2,3) by (cases "close_pass X deadline next_send p d"; cases "ps = []") auto
  qed (auto simp: and_then_def split: prod.split)
qed simp

section \<open>Examples\<close>

text \<open>A lawful encoding of host differences, as pairs of a tag and a byte: 0 begins an operation, 1 says that it has host
  bytes, 2 is one of them, 3 is a byte of the size and 4 a byte of the echo acknowledgement.\<close>

definition tagged :: "u8 \<Rightarrow> bytes \<Rightarrow> bytes"
  where "tagged t hs = concat (map (\<lambda>b. [t, b]) hs)"

lemma length_pairs: "length (concat (map (\<lambda>b. [t, b]) hs)) = 2 * length hs"
  by (induction hs) simp_all

definition demo_operation :: "WireHostOperation \<Rightarrow> bytes"
  where "demo_operation x =
    [0, 0] @ (case who_host_bytes x of None \<Rightarrow> [] | Some b \<Rightarrow> [1, 0] @ tagged 2 (whb_bytes b))
    @ (case who_size x of None \<Rightarrow> [] | Some z \<Rightarrow> tagged 3 (to_be_bytes 4 (whs_columns z) @ to_be_bytes 4 (whs_rows z)))
    @ (case who_echo_acknowledgement x of None \<Rightarrow> [] | Some e \<Rightarrow> tagged 4 (to_be_bytes 8 (wea_number e)))"

text \<open>What is read of an operation so far, from its end: whether it has host bytes, these, the size and the number.\<close>

type_synonym demo_partial = "bool \<times> bytes \<times> bytes \<times> bytes"

definition demo_whole :: "demo_partial \<Rightarrow> WireHostOperation"
  where "demo_whole = (\<lambda>(host, hs, z, e).
    \<lparr> who_host_bytes = (if host then Some \<lparr> whb_bytes = hs \<rparr> else None),
      who_size = (if z = [] then None
        else Some \<lparr> whs_columns = from_be_bytes (take 4 z), whs_rows = from_be_bytes (drop 4 z) \<rparr>),
      who_echo_acknowledgement = (if e = [] then None else Some \<lparr> wea_number = from_be_bytes e \<rparr>) \<rparr>)"

fun demo_operations :: "bytes \<Rightarrow> WireHostOperation list \<times> demo_partial"
  where
    "demo_operations (t # b # rest) =
      (let (xs, host, hs, z, e) = demo_operations rest in
       if t = 0 then (demo_whole (host, hs, z, e) # xs, False, [], [], [])
       else if t = 1 then (xs, True, hs, z, e)
       else if t = 2 then (xs, host, b # hs, z, e)
       else if t = 3 then (xs, host, hs, b # z, e)
       else (xs, host, hs, z, b # e))"
  | "demo_operations _ = ([], False, [], [], [])"

definition demo_host_prost :: "WireHostDifference prost"
  where "demo_host_prost =
    \<lparr> pb_encode_to_vec = (\<lambda>d. concat (map demo_operation (whd_operations d))),
      pb_encoded_len = (\<lambda>d. length (concat (map demo_operation (whd_operations d)))),
      pb_decode = (\<lambda>input. Some \<lparr> whd_operations = fst (demo_operations input) \<rparr>) \<rparr>"

lemma demo_operations_tagged:
  assumes "demo_operations rest = (xs, host, hs, z, e)"
  shows "demo_operations (tagged 2 new @ rest) = (xs, host, new @ hs, z, e)"
    and "demo_operations (tagged 3 new @ rest) = (xs, host, hs, new @ z, e)"
    and "demo_operations (tagged 4 new @ rest) = (xs, host, hs, z, new @ e)"
  using assms by (induction new) (simp_all add: tagged_def)

lemma demo_operations_operation:
  assumes "demo_operations rest = (xs, False, [], [], [])"
  shows "demo_operations (demo_operation x @ rest) = (x # xs, False, [], [], [])"
proof -
  obtain h z e where x: "x = \<lparr> who_host_bytes = h, who_size = z, who_echo_acknowledgement = e \<rparr>" by (cases x)
  define r1 where "r1 = (case e of None \<Rightarrow> [] | Some e \<Rightarrow> tagged 4 (to_be_bytes 8 (wea_number e))) @ rest"
  define r2 where "r2 = (case z of None \<Rightarrow> [] | Some z \<Rightarrow> tagged 3 (to_be_bytes 4 (whs_columns z) @ to_be_bytes 4 (whs_rows z))) @ r1"
  define ez where "ez = (case e of None \<Rightarrow> [] | Some e \<Rightarrow> to_be_bytes 8 (wea_number e))"
  define zz where "zz = (case z of None \<Rightarrow> [] | Some z \<Rightarrow> to_be_bytes 4 (whs_columns z) @ to_be_bytes 4 (whs_rows z))"
  have 1: "demo_operations r1 = (xs, False, [], [], ez)"
    using demo_operations_tagged(3) [OF assms] assms by (simp add: r1_def ez_def split: option.split)
  have 2: "demo_operations r2 = (xs, False, [], zz, ez)"
    using demo_operations_tagged(2) [OF 1] 1 by (simp add: r2_def zz_def split: option.split)
  have 3: "demo_operations ((case h of None \<Rightarrow> [] | Some b \<Rightarrow> [1, 0] @ tagged 2 (whb_bytes b)) @ r2)
      = (xs, h \<noteq> None, (case h of None \<Rightarrow> [] | Some b \<Rightarrow> whb_bytes b), zz, ez)"
    using demo_operations_tagged(1) [OF 2] 2 by (simp split: option.split)
  have "demo_whole (h \<noteq> None, (case h of None \<Rightarrow> [] | Some b \<Rightarrow> whb_bytes b), zz, ez) = x"
  proof -
    have nil: "to_be_bytes n w \<noteq> []" if "0 < n" for n and w :: "'c::len word"
      using that length_to_be_bytes [of n w] by (metis length_greater_0_conv)
    show ?thesis
      by (cases h; cases z; cases e) (simp_all add: x demo_whole_def ez_def zz_def nil from_to_be_bytes_id)
  qed
  moreover have "demo_operation x @ rest = 0 # 0 # (case h of None \<Rightarrow> [] | Some b \<Rightarrow> [1, 0] @ tagged 2 (whb_bytes b)) @ r2"
    by (simp add: demo_operation_def x r2_def r1_def)
  ultimately show ?thesis using 3 by simp
qed

lemma demo_host_lawful: "prost_lawful demo_host_prost"
proof -
  have "demo_operations (concat (map demo_operation xs)) = (xs, False, [], [], [])" for xs
    by (induction xs) (simp_all add: demo_operations_operation)
  then show ?thesis by (simp add: prost_lawful_def demo_host_prost_def)
qed

definition demo_externals :: "(unit, unit) externals"
  where "demo_externals =
    \<lparr> ext_aead = demo_aead, ext_zlib = demo_zlib, ext_instruction_pb = demo_prost, ext_client_pb = demo_difference_prost,
      ext_host_pb = demo_host_prost, ext_terminal = demo_env \<rparr>"

lemma demo_externals_ok: "externals_ok demo_externals known"
proof -
  have "pb_encoded_len demo_difference_prost \<lparr> td_operations = [] \<rparr> = 0" by (simp add: demo_difference_prost_def)
  then show ?thesis
    using demo_repeated_additive demo_zlib_lawful(2) demo_env_prints by (auto simp: externals_ok_def demo_externals_def)
qed

definition demo_bootstrap :: Bootstrap
  where "demo_bootstrap = \<lparr> bs_server_addr = \<lparr> v4_ip = 0x7F000001, v4_port = 60001 \<rparr>, bs_session_key = replicate 16 7 \<rparr>"

definition demo_driver :: SessionDriver
  where "demo_driver =
    \<lparr> sd_server_addr = bs_server_addr demo_bootstrap, sd_key = bs_session_key demo_bootstrap,
      sd_packet_receiver = PacketReceiver_new (bs_session_key demo_bootstrap) ServerToClient, sd_send_sequence = SendSequence_new,
      sd_fragment_identifier = Some 0, sd_reassembler = FragmentReassembler_new 0,
      sd_synchronization = SynchronizationState_new\<lparr> sy_local_latest := 1, sy_sender_generation := 1 \<rparr>,
      sd_scheduler = (SendScheduler_new 0)\<lparr> sc_local_change_at_ms := Some 0, sc_generation := 1 \<rparr>,
      sd_datagram_timing = DatagramTiming_new 0,
      sd_client_history = \<lparr> ch_operation_offset = 0, ch_next_operation = 1, ch_operations = [ClientOperation.Resize 80 24],
        ch_checkpoints = [(0, 0), (1, 1)] \<rparr>,
      sd_terminal_states = [(0, demo_state\<lparr> ts_echo_acknowledgement := None \<rparr>)],
      sd_prediction = LocalPrediction_new Adaptive, sd_painted_state = None, sd_output_requested = False,
      sd_force_full_repaint = False, sd_receive_not_before_ms = 0, sd_state = Connecting,
      sd_reachability = ReachabilityTracker_new, sd_published_reachability = AwaitingPeer, sd_final_terminal = None,
      sd_socket = [], sd_output = [] \<rparr>"

lemma demo_connect: "driver_connect demo_externals None demo_bootstrap 80 24 Adaptive = Inr demo_driver"
proof -
  have "TerminalState_new 80 24 = Inr (demo_state\<lparr> ts_echo_acknowledgement := None \<rparr>)"
    by (simp add: TerminalState_new_def checked_size_eq demo_state_def)
  moreover have "history_append demo_difference_prost ClientHistory_new (ClientOperation.Resize 80 24) =
      (Inr (), \<lparr> ch_operation_offset = 0, ch_next_operation = 1, ch_operations = [ClientOperation.Resize 80 24], ch_checkpoints = [(0, 0)] \<rparr>)"
    by (simp add: history_append_def ClientHistory_new_def bt_empty_def checked_add_def
        encode_client_difference_def wire_operation_eq operation_ok_def demo_difference_prost_def)
  ultimately show ?thesis
    by (simp add: driver_connect_def demo_externals_def demo_driver_def advance_local_def SynchronizationState_new_def checked_add_def
        note_local_change_def sc_observe_time_def SendScheduler_new_def next_generation_def ok_or_def checkpoint_def bt_empty_def
        ReachabilityTracker_new_def)
qed

definition demo_pass :: "nat \<Rightarrow> readiness list \<Rightarrow> pass"
  where "demo_pass t polls =
    \<lparr> pa_cancelled = False, pa_clock = (\<lambda>_. t), pa_send = (\<lambda>_. (False, Inl NetworkDown)), pa_cancelled_later = False,
      pa_representable = (\<lambda>_. True), pa_polls = polls, pa_reply = (\<lambda>_. (False, Inl NetworkDown)), pa_finish = [] \<rparr>"

definition demo_timer :: readiness
  where "demo_timer =
    \<lparr> rd_cancellation = None, rd_command = None, rd_graceful_close = None, rd_timer = True, rd_output = None, rd_datagram = None \<rparr>"

text \<open>A server that resizes to 80 columns and 30 rows and writes a letter, all in one message of one piece.\<close>

definition demo_host_difference :: WireHostDifference
  where "demo_host_difference = \<lparr> whd_operations =
    [\<lparr> who_host_bytes = None, who_size = Some \<lparr> whs_columns = 80, whs_rows = 30 \<rparr>, who_echo_acknowledgement = None \<rparr>,
     \<lparr> who_host_bytes = Some \<lparr> whb_bytes = [0x61] \<rparr>, who_size = None, who_echo_acknowledgement = None \<rparr>] \<rparr>"

definition demo_reply :: TransportInstruction
  where "demo_reply = demo_instruction\<lparr> ti_state_difference := pb_encode_to_vec demo_host_prost demo_host_difference \<rparr>"

definition demo_server :: server
  where "demo_server = \<lparr> sv_columns = 80, sv_key = bs_session_key demo_bootstrap,
    sv_messages = (\<lambda>_. [pb_encode_to_vec demo_prost demo_reply]) \<rparr>"

definition demo_fragment :: Fragment
  where "demo_fragment = \<lparr> fr_timestamp = 1, fr_timestamp_reply = None, fr_identifier = 0, fr_number = 0, fr_is_final = True,
    fr_body = pb_encode_to_vec demo_prost demo_reply \<rparr>"

definition demo_datagram :: bytes
  where "demo_datagram =
    (case packet_seal demo_aead (bs_session_key demo_bootstrap) ServerToClient 0 (fragment_image demo_fragment) (replicate 500 0) of
       (Inr n, output) \<Rightarrow> take n output | _ \<Rightarrow> [])"

definition demo_arrival :: readiness
  where "demo_arrival = demo_timer\<lparr> rd_timer := False,
    rd_datagram := Some (Inr (demo_datagram, V4 (bs_server_addr demo_bootstrap))) \<rparr>"

lemma demo_server_keeps_width: "keeps_width demo_externals (Some demo_server)"
proof -
  let ?bytes = "pb_encode_to_vec demo_prost demo_reply"
  have "encode_zlib demo_zlib demo_prost demo_reply = Inr ?bytes"
    by (simp add: encode_zlib_def demo_prost_def demo_zlib_def demo_reply_def demo_instruction_def demo_host_prost_def
        demo_host_difference_def demo_operation_def tagged_def length_pairs)
  from decode_encode_zlib [OF demo_prost_lawful demo_zlib_lawful(1) this]
  have dec: "decode_zlib demo_zlib demo_prost ?bytes = Some (Inr demo_reply)" by (simp add: demo_reply_def demo_instruction_def)
  have "pb_decode demo_host_prost (ti_state_difference demo_reply) = Some demo_host_difference"
    using demo_host_lawful by (simp add: demo_reply_def prost_lawful_def)
  then have "harmless demo_externals (Some demo_server) (ti_state_difference demo_reply)"
    by (auto simp: harmless_def TerminalDifference_decode_def demo_externals_def demo_host_difference_def known_fields_def steady_def
        demo_server_def split: if_splits)
  with dec show ?thesis by (simp add: keeps_width_def demo_externals_def demo_server_def)
qed

lemma demo_datagram_opens:
  "fst (packet_open demo_aead (bs_session_key demo_bootstrap) ServerToClient demo_datagram)
     = Inr \<lparr> op_sequence = 0, op_plaintext = fragment_image demo_fragment \<rparr>"
  "fragment_decode (fragment_image demo_fragment) = Inr demo_fragment"
proof -
  have len: "length (fr_body demo_fragment) < 200"
    by (simp add: demo_fragment_def demo_prost_def demo_reply_def demo_instruction_def demo_host_prost_def demo_host_difference_def
        demo_operation_def tagged_def length_pairs)
  then show "fragment_decode (fragment_image demo_fragment) = Inr demo_fragment"
    by (intro fragment_decode_image) (simp_all add: demo_fragment_def)
  obtain n buffer where sealed: "packet_seal demo_aead (bs_session_key demo_bootstrap) ServerToClient 0 (fragment_image demo_fragment)
      (replicate 500 0) = (Inr n, buffer)"
    using len by (simp add: packet_seal_def crypto_seal_def demo_aead_def Let_def not_less)
  show "fst (packet_open demo_aead (bs_session_key demo_bootstrap) ServerToClient demo_datagram)
     = Inr \<lparr> op_sequence = 0, op_plaintext = fragment_image demo_fragment \<rparr>"
    using packet_seal_open [OF demo_aead_correct sealed] by (simp add: demo_datagram_def sealed)
qed

lemma demo_server_heard: "heard demo_externals (Some demo_server) (demo_pass t [demo_arrival])"
  using demo_datagram_opens
  by (auto simp: heard_def genuine_def demo_pass_def demo_arrival_def demo_externals_def demo_server_def fragment_of_def)
     (simp_all add: demo_fragment_def)

theorem session_invariant_witness:
  "(case driver_run demo_externals Serving [demo_pass 3 [demo_arrival], demo_pass 5 [demo_arrival]] demo_driver of
      (Inl (Raised e), _) \<Rightarrow> \<not> internal e \<and> session_error e \<noteq> InternalState
    | (Inl Panicked, _) \<Rightarrow> Some demo_server = None
    | (Inr flow, d') \<Rightarrow> driver_ok demo_externals (Some demo_server) d')
   \<and> prost_lawful (ext_host_pb demo_externals)
   \<and> fst (packet_open demo_aead (sv_key demo_server) ServerToClient demo_datagram)
       = Inr \<lparr> op_sequence = 0, op_plaintext = fragment_image demo_fragment \<rparr>"
proof (intro conjI)
  show "case driver_run demo_externals Serving [demo_pass 3 [demo_arrival], demo_pass 5 [demo_arrival]] demo_driver of
      (Inl (Raised e), _) \<Rightarrow> \<not> internal e \<and> session_error e \<noteq> InternalState
    | (Inl Panicked, _) \<Rightarrow> Some demo_server = None
    | (Inr flow, d') \<Rightarrow> driver_ok demo_externals (Some demo_server) d'"
    by (rule session_invariant [OF demo_connect demo_externals_ok _ demo_server_keeps_width])
       (simp_all add: demo_server_heard, simp add: demo_server_def)
qed (simp_all add: demo_externals_def demo_host_lawful demo_server_def demo_datagram_opens)

theorem timers_ahead_witness:
  "\<exists>d1 sc wake. keep_house 3 demo_driver = (Inr (), d1) \<and> poll (sd_scheduler d1) 3 RttEstimator_new None = (Inr (Pending 15), sc)
     \<and> earliest_wake 3 15 (d1\<lparr> sd_scheduler := sc \<rparr>) = Inr wake \<and> 3 < wake"
proof -
  let ?d = "demo_driver\<lparr> sd_reassembler := (FragmentReassembler_new 0)\<lparr> ra_last_observed_ms := 3 \<rparr> \<rparr>"
  let ?sc = "(SendScheduler_new 0)\<lparr> sc_local_change_at_ms := Some 0, sc_generation := 1, sc_last_observed_ms := 3 \<rparr>"
  have "keep_house 3 demo_driver = (Inr (), ?d)"
    by (simp add: keep_house_def publish_reachability_def part_def reachability_update_def calculate_def ReachabilityTracker_new_def demo_driver_def
        attachment_timed_out_def ra_expire_def ra_observe_time_def ra_expire_due_def FragmentReassembler_new_def keep_prediction_def
        prediction_expire_def expiration_deadline_ms_def front_plus_def LocalPrediction_new_def update_policy_def DatagramTiming_new_def
        RttEstimator_new_def smoothed_rtt_ms_def displaying_prediction_def)
  moreover have "poll (sd_scheduler ?d) 3 RttEstimator_new None = (Inr (Pending 15), ?sc)"
    by (simp add: poll_eq demo_driver_def SendScheduler_new_def deadlines_def local_change_due_def transpose_result_def
        checked_deadline_def checked_add_def decide_def earliest_def ok_or_def)
  moreover have "earliest_wake 3 15 (?d\<lparr> sd_scheduler := ?sc \<rparr>) = Inr 15"
    by (simp add: earliest_wake_def receive_enabled_def demo_driver_def prediction_next_deadline_ms_def expiration_deadline_ms_def
        front_plus_def LocalPrediction_new_def reachability_next_deadline_ms_def ReachabilityTracker_new_def)
  ultimately show ?thesis using timers_ahead by blast
qed

theorem local_close_bounded_witness:
  "case fst (driver_run demo_externals (Closing 4000 0) [demo_pass 100 [demo_timer], demo_pass 4000 [demo_timer]] demo_driver) of
      Inl fault \<Rightarrow> True
    | Inr flow \<Rightarrow> flow = Draining \<or> (\<exists>exit. flow = Exit exit)"
  by (rule local_close_bounded) (simp_all add: demo_pass_def demo_timer_def)

end
