(* ===== verification/Transport.thy ===== *)
theory Transport
  imports Driver_Loop
begin

text \<open>
  The way of an instruction from one end to the other: what \<open>send_transport_instruction\<close> of \<open>src/session/driver.rs\<close>
  leaves on the socket, a peer that opens, reassembles and decodes with the same components turns back into the
  instruction.
\<close>

section \<open>Cutting into chunks\<close>

lemma chunks_Nil [simp]: "chunks n [] = []"
  by (simp add: chunks.simps)

lemma chunks_step: "xs \<noteq> [] \<Longrightarrow> 0 < n \<Longrightarrow> chunks n xs = take n xs # chunks n (drop n xs)"
  by (subst chunks.simps) simp

lemma concat_chunks: "0 < n \<Longrightarrow> concat (chunks n xs) = xs"
proof (induction n xs rule: chunks.induct)
  case (1 n xs)
  then show ?case by (cases "xs = []") (simp_all add: chunks_step)
qed

lemma chunks_le: "c \<in> set (chunks n xs) \<Longrightarrow> length c \<le> n"
proof (induction n xs rule: chunks.induct)
  case (1 n xs)
  then show ?case by (cases "xs = [] \<or> n = 0") (auto simp: chunks_step chunks.simps [of 0])
qed

lemma length_chunks: "0 < n \<Longrightarrow> length (chunks n xs) = (length xs + n - 1) div n"
proof (induction n xs rule: chunks.induct)
  case (1 n xs)
  show ?case
  proof (cases "xs = []")
    case False
    then have "length (chunks n xs) = Suc ((length xs - n + n - 1) div n)" using 1 by (simp add: chunks_step)
    also have "\<dots> = (length xs + n - 1) div n"
    proof (cases "length xs \<le> n")
      case True
      have "(length xs + n - 1) div n = Suc ((length xs - 1) div n)"
        using 1(2) False le_div_geq [of n "length xs + n - 1"] by (cases xs) auto
      then show ?thesis using True 1(2) False by (cases xs) auto
    next
      case gt: False
      then show ?thesis using 1(2) le_div_geq [of n "length xs + n - 1"] by simp
    qed
    finally show ?thesis .
  qed (use 1(2) in simp)
qed

section \<open>The peer\<close>

text \<open>A peer with a receiver and a reassembler. Arrivals come with their time; what cannot be opened is ignored.\<close>

fun peer_assemble :: "('s, 'p) externals \<Rightarrow> FragmentReassembler \<Rightarrow> (u64 \<times> Fragment) list \<Rightarrow> TransportInstruction option"
  where
    "peer_assemble X ra [] = None"
  | "peer_assemble X ra ((now, f) # rest) =
      (case ra_push ra now f of
         (Inl _, _) \<Rightarrow> None
       | (Inr (Complete compressed), _) \<Rightarrow>
           (case decode_zlib (ext_zlib X) (ext_instruction_pb X) compressed of Some (Inr i) \<Rightarrow> Some i | _ \<Rightarrow> None)
       | (Inr _, ra) \<Rightarrow> peer_assemble X ra rest)"

fun peer_receive :: "('s, 'p) externals \<Rightarrow> PacketReceiver \<Rightarrow> FragmentReassembler \<Rightarrow> (u64 \<times> bytes) list \<Rightarrow> TransportInstruction option"
  where
    "peer_receive X r ra [] = None"
  | "peer_receive X r ra ((now, datagram) # rest) =
      (case receiver_open (ext_aead X) r datagram of
         (Inl _, (r, _)) \<Rightarrow> peer_receive X r ra rest
       | (Inr opened, (r, _)) \<Rightarrow>
           (case fragment_decode (op_plaintext opened) of
              Inl _ \<Rightarrow> None
            | Inr f \<Rightarrow>
           (case ra_push ra now f of
              (Inl _, _) \<Rightarrow> None
            | (Inr (Complete compressed), _) \<Rightarrow>
                (case decode_zlib (ext_zlib X) (ext_instruction_pb X) compressed of Some (Inr i) \<Rightarrow> Some i | _ \<Rightarrow> None)
            | (Inr _, ra) \<Rightarrow> peer_receive X r ra rest)))"

text \<open>A datagram that carries a fragment under a sequence number.\<close>

definition carries :: "('s, 'p) externals \<Rightarrow> SessionKey \<Rightarrow> bytes \<Rightarrow> u64 \<Rightarrow> Fragment \<Rightarrow> bool"
  where "carries X key datagram s f \<longleftrightarrow>
    (\<exists>opened. fst (packet_open (ext_aead X) key ClientToServer datagram) = Inr opened
       \<and> op_sequence opened = s \<and> fragment_decode (op_plaintext opened) = Inr f)"

lemma replay_accept_newer:
  assumes "replay_inv w accepted" and "\<forall>a \<in> accepted. a < s"
  shows "\<exists>w'. replay_accept w s = (Inr (), w') \<and> replay_inv w' (insert s accepted)"
proof -
  have "replay_spec accepted s = None"
  proof (cases "accepted = {}")
    case False
    then obtain h where "rw_highest (w :: ReplayWindow) = Some h" "h \<in> accepted" "\<forall>a \<in> accepted. a \<le> h"
      using assms(1) by (auto simp: replay_inv_def split: option.splits)
    with assms(2) Max_replay [of h accepted] show ?thesis
      by (auto simp: replay_spec_def word_less_nat_alt)
  qed (simp add: replay_spec_def)
  then show ?thesis using replay_step [OF assms(1), of s] by (auto split: prod.splits sum.splits)
qed

lemma peer_receive_carried:
  assumes "length stamps = length ds"
    and "list_all2 (\<lambda>datagram (s, f). carries X key datagram s f) ds sfs" and "pr_key r = key \<and> pr_direction r = ClientToServer"
    and "replay_inv (pr_replay r) accepted" and "\<forall>a \<in> accepted. \<forall>s \<in> fst ` set sfs. a < s" and "sorted_wrt (<) (map fst sfs)"
  shows "peer_receive X r ra (zip stamps ds) = peer_assemble X ra (zip stamps (map snd sfs))"
  using assms(2,1,3-)
proof (induction arbitrary: stamps r ra accepted rule: list_all2_induct)
  case (Cons datagram ds sf sfs)
  obtain s f where sf: "sf = (s, f)" by (rule prod.exhaust)
  obtain t ts where stamps: "stamps = t # ts" using Cons.prems(1) by (cases stamps) auto
  obtain opened where "fst (packet_open (ext_aead X) (pr_key r) ClientToServer datagram) = Inr opened"
      "op_sequence opened = s" "fragment_decode (op_plaintext opened) = Inr f"
    using Cons.hyps(1) Cons.prems(2) by (auto simp: sf carries_def)
  then obtain buf where opened: "packet_open (ext_aead X) (pr_key r) ClientToServer datagram = (Inr opened, buf)"
      "op_sequence opened = s" "fragment_decode (op_plaintext opened) = Inr f"
    by (metis prod.collapse)
  obtain w where w: "replay_accept (pr_replay r) s = (Inr (), w)" "replay_inv w (insert s accepted)"
    using replay_accept_newer [OF Cons.prems(3), of s] Cons.prems(4) by (auto simp: sf)
  let ?r = "r\<lparr> pr_replay := w \<rparr>"
  have "receiver_open (ext_aead X) r datagram = (Inr opened, (?r, buf))"
    using opened w by (simp add: receiver_open_def Cons.prems(2))
  moreover have "peer_receive X ?r ra' (zip ts ds) = peer_assemble X ra' (zip ts (map snd sfs))" for ra'
    by (rule Cons.IH [where accepted = "insert s accepted"]) (use Cons.prems w(2) in \<open>auto simp: sf stamps\<close>)
  ultimately show ?case
    by (auto simp: stamps sf opened(3) split: prod.split sum.split ReassemblyOutcome.split)
qed simp

lemma peer_assemble_run:
  assumes "run_all push_at ra ps = (Inr outs, ra')" and "set outs \<subseteq> {ReassemblyOutcome.Pending, ReassemblyOutcome.Duplicate}"
  shows "peer_assemble X ra (ps @ qs) = peer_assemble X ra' qs"
  using assms
proof (induction ps arbitrary: ra outs)
  case (Cons p ps)
  obtain o1 ra1 where p: "push_at ra p = (Inr o1, ra1)" and rest: "\<exists>outs. run_all push_at ra1 ps = (Inr outs, ra') \<and> set outs \<subseteq> {ReassemblyOutcome.Pending, ReassemblyOutcome.Duplicate}"
      and o1: "o1 \<in> {ReassemblyOutcome.Pending, ReassemblyOutcome.Duplicate}"
    using Cons.prems by (auto simp: and_then_eq_Inr_iff)
  from rest Cons.IH have "peer_assemble X ra1 (ps @ qs) = peer_assemble X ra' qs" by blast
  with p o1 show ?case by (cases p) auto
qed simp

section \<open>The sender\<close>

definition piece :: "OutgoingTimestamps \<Rightarrow> u64 \<Rightarrow> nat \<Rightarrow> nat \<times> bytes \<Rightarrow> Fragment"
  where "piece ts ident count nb =
    \<lparr> fr_timestamp = ot_timestamp ts, fr_timestamp_reply = ot_timestamp_reply ts, fr_identifier = ident,
      fr_number = of_nat (fst nb), fr_is_final = (fst nb + 1 = count), fr_body = snd nb \<rparr>"

lemma send_fragments_sent:
  assumes A: "aead_correct (ext_aead X)" and reply: "ot_timestamp_reply ts \<noteq> Some NO_TIMESTAMP_REPLY"
  shows "send_fragments X ts ident count env pieces plaintext datagram d = (Inr Sent, d') \<Longrightarrow>
    \<exists>ds ss. sd_socket d' = sd_socket d @ ds
      \<and> list_all2 (\<lambda>datagram (s, f). carries X (sd_key d) datagram s f) ds (zip ss (map (piece ts ident count) pieces))
      \<and> length ss = length pieces \<and> sorted_wrt (<) ss \<and> (\<forall>s \<in> set ss. \<exists>s0. sd_send_sequence d = Some s0 \<and> s0 \<le> s)"
proof (induction pieces arbitrary: plaintext datagram d)
  case (Cons nb pieces)
  obtain number body where nb: "nb = (number, body)" by (rule prod.exhaust)
  let ?f = "piece ts ident count nb"
  have go: "\<not> fst (env number)" "number < 65536" using Cons.prems by (auto simp: nb split: if_splits)
  obtain n pl where enc: "fragment_encode_of ?f plaintext = (Inr n, pl)"
    using Cons.prems go by (cases "fragment_encode_of ?f plaintext"; cases "fst (fragment_encode_of ?f plaintext)") (auto simp: nb piece_def)
  obtain s sq where sq: "send_sequence_take (sd_send_sequence d) = (Inr s, sq)"
    using Cons.prems go enc by (cases "send_sequence_take (sd_send_sequence d)"; cases "fst (send_sequence_take (sd_send_sequence d))")
      (auto simp: nb piece_def part_def)
  obtain m dg where seal: "packet_seal (ext_aead X) (sd_key d) ClientToServer s (take n pl) datagram = (Inr m, dg)"
    using Cons.prems go enc sq by (cases "packet_seal (ext_aead X) (sd_key d) ClientToServer s (take n pl) datagram";
      cases "fst (packet_seal (ext_aead X) (sd_key d) ClientToServer s (take n pl) datagram)") (auto simp: nb piece_def part_def)
  let ?d = "d\<lparr> sd_send_sequence := sq, sd_socket := sd_socket d @ [take m dg] \<rparr>"
  have "send_fragments X ts ident count env pieces pl dg ?d = (Inr Sent, d')"
    using Cons.prems go enc sq seal by (auto simp: nb piece_def part_def Let_def split: sum.splits if_splits)
  from Cons.IH [OF this] obtain ds ss where rest: "sd_socket d' = sd_socket d @ take m dg # ds"
      "list_all2 (\<lambda>datagram (s, f). carries X (sd_key d) datagram s f) ds (zip ss (map (piece ts ident count) pieces))"
      "length ss = length pieces" "sorted_wrt (<) ss" "\<forall>t \<in> set ss. \<exists>s0. sq = Some s0 \<and> s0 \<le> t"
    by auto
  have "take n pl = fragment_image ?f" "fragment_decode (fragment_image ?f) = Inr ?f"
    using enc fragment_decode_image [of ?f] reply unfolding fragment_encode_ok_iff by (auto simp: piece_def)
  then have "carries X (sd_key d) (take m dg) s ?f"
    using packet_seal_open [OF A seal] by (simp add: carries_def)
  moreover have seq: "sd_send_sequence d = Some s" "\<And>s0. sq = Some s0 \<Longrightarrow> s < s0"
    using send_tickets.take_ok [OF sq] by auto
  ultimately show ?case
    using rest by (intro exI [of _ "take m dg # ds"] exI [of _ "s # ss"]) (auto dest: order.strict_trans2)
qed simp

lemma outgoing_reply: "outgoing dt now = (Inr ts, dt') \<Longrightarrow> ot_timestamp_reply ts \<noteq> Some NO_TIMESTAMP_REPLY"
  by (auto simp: outgoing_def dt_observe_time_def Let_def Option.bind_eq_Some_conv split: if_splits)

lemma send_transport_sent:
  assumes A: "aead_correct (ext_aead X)" and sent: "send_transport_instruction X i now env d = (Inr Sent, d')"
  obtains compressed ts ident ds ss where "encode_zlib (ext_zlib X) (ext_instruction_pb X) i = Inr compressed"
    "sd_socket d' = sd_socket d @ ds" "length ss = length (chunks MAX_FRAGMENT_BODY_BYTES compressed)" "sorted_wrt (<) ss"
    "list_all2 (\<lambda>datagram (s, f). carries X (sd_key d) datagram s f) ds
       (zip ss (map (piece ts ident (length (chunks MAX_FRAGMENT_BODY_BYTES compressed))) (enumerate 0 (chunks MAX_FRAGMENT_BODY_BYTES compressed))))"
    "\<forall>s \<in> set ss. \<exists>s0. sd_send_sequence d = Some s0 \<and> s0 \<le> s"
proof -
  obtain compressed where c: "encode_zlib (ext_zlib X) (ext_instruction_pb X) i = Inr compressed"
    using sent by (cases "encode_zlib (ext_zlib X) (ext_instruction_pb X) i") (auto simp: send_transport_instruction_def)
  obtain ts dt where ts: "outgoing (sd_datagram_timing d) now = (Inr ts, dt)"
    using sent c by (cases "outgoing (sd_datagram_timing d) now"; cases "fst (outgoing (sd_datagram_timing d) now)")
      (auto simp: send_transport_instruction_def part_def)
  obtain ident nx where ident: "identifier_take (sd_fragment_identifier d) = (Inr ident, nx)"
    using sent c ts by (cases "identifier_take (sd_fragment_identifier d)"; cases "fst (identifier_take (sd_fragment_identifier d))")
      (auto simp: send_transport_instruction_def part_def)
  let ?d = "d\<lparr> sd_datagram_timing := dt, sd_fragment_identifier := nx \<rparr>"
  have "send_fragments X ts ident (length (chunks MAX_FRAGMENT_BODY_BYTES compressed)) env (enumerate 0 (chunks MAX_FRAGMENT_BODY_BYTES compressed))
      (replicate MAX_DATAGRAM_BYTES 0) (replicate MAX_DATAGRAM_BYTES 0) ?d = (Inr Sent, d')"
    using sent by (simp add: send_transport_instruction_def c ts ident part_def length_chunks)
  from send_fragments_sent [OF A outgoing_reply [OF ts] this] that [OF c] show thesis by auto
qed

lemma piece_of:
  assumes "k < length bodies" and "length bodies < 2 ^ 16"
  shows "fragment_of ident bodies (piece ts ident (length bodies) (k, bodies ! k))" and "unat (fr_number (piece ts ident n (k, b))) = k"
proof -
  have "unat (of_nat k :: u16) = k" using assms by (intro of_nat_inverse [OF refl]) simp
  then show "fragment_of ident bodies (piece ts ident (length bodies) (k, bodies ! k))" "unat (fr_number (piece ts ident n (k, b))) = k"
    using assms by (simp_all add: fragment_of_def piece_def)
qed

lemma list_all2_carried_length:
  "list_all2 P ds (zip ss (map g xs)) \<Longrightarrow> length ss = length xs \<Longrightarrow> length ds = length xs"
  by (auto dest: list_all2_lengthD)

text \<open>The pieces of a message, in order and in time, are put together.\<close>

lemma stamped_pieces_nth:
  assumes "k < length bodies" "length stamps = length bodies"
  shows "zip stamps (map (piece ts ident (length bodies)) (enumerate 0 bodies)) ! k =
    (stamps ! k, piece ts ident (length bodies) (k, bodies ! k))"
  using assms by (simp add: nth_enumerate_eq)

lemma stamped_pieces_numbers:
  assumes "k \<le> length bodies" "length stamps = length bodies" "length bodies < 2 ^ 16"
  shows "numbers (take k (zip stamps (map (piece ts ident (length bodies)) (enumerate 0 bodies)))) = {..<k}"
    (is "numbers (take k ?ps) = _")
proof -
  have "set (take k ?ps) = (!) ?ps ` {0..<k}" by (rule nth_image [symmetric]) (use assms in simp)
  also have "(\<lambda>p. unat (fr_number (snd p))) ` \<dots> = (\<lambda>j. j) ` {0..<k}"
    unfolding image_image
    by (rule image_cong) (use assms in \<open>auto simp: nth_enumerate_eq piece_of(2) [of _ bodies]\<close>)
  finally show ?thesis by (simp add: atLeast0LessThan)
qed

lemma stamped_piece_in_time:
  assumes q: "q \<in> set (zip stamps (map (piece ts ident (length bodies)) (enumerate 0 bodies)))"
    and len: "length stamps = length bodies" "length bodies < 2 ^ 16" and mono: "sorted stamps"
    and life: "unat (last stamps) < b"
  shows "fragment_of ident bodies (snd q) \<and> unat (fst q) < b"
proof -
  obtain k where k: "k < length bodies" "q = (stamps ! k, piece ts ident (length bodies) (k, bodies ! k))"
    using q stamped_pieces_nth len(1) unfolding in_set_conv_nth by fastforce
  have "stamps ! k \<le> last stamps"
    using mono k(1) len(1) sorted_nth_mono [of stamps k "length stamps - 1"] last_conv_nth [of stamps]
    by (cases "stamps = []") auto
  then show ?thesis using k piece_of(1) [OF k(1) len(2)] life by (simp add: word_le_nat_alt)
qed

lemma pieces_assembled:
  assumes ok: "message_ok bodies" and none: "ra_incomplete ra = None"
    and len: "length stamps = length bodies" and mono: "sorted (ra_last_observed_ms ra # stamps)"
    and life: "unat (last stamps) < unat (hd stamps) + 10000" "unat (hd stamps) + 10000 < 2 ^ 64"
    and dec: "decode_zlib (ext_zlib X) (ext_instruction_pb X) (concat bodies) = Some (Inr i)"
  shows "peer_assemble X ra (zip stamps (map (piece ts ident (length bodies)) (enumerate 0 bodies))) = Some i"
proof -
  let ?n = "length bodies" and ?fs = "map (piece ts ident (length bodies)) (enumerate 0 bodies)"
  let ?ps = "zip stamps ?fs"
  have n: "0 < ?n" "?n < 2 ^ 16" using ok by (auto simp: message_ok_def)
  have numbers: "numbers (take k ?ps) = {..<k}" if "k \<le> ?n" for k
    using stamped_pieces_numbers [OF that len n(2)] .
  have split: "?ps = butlast ?ps @ [last ?ps]" using n(1) len by (simp add: append_butlast_last_id flip: length_greater_0_conv)
  have hd: "fst (hd ?ps) = hd stamps" using n(1) len by (cases stamps; cases bodies) auto
  have stamps: "map fst ?ps = stamps" using len by simp
  have "\<exists>outs ra'. run_all push_at ra (butlast ?ps) = (Inr outs, ra')
      \<and> set outs \<subseteq> {ReassemblyOutcome.Pending, ReassemblyOutcome.Duplicate}
      \<and> fst (push_at ra' (last ?ps)) = Inr (Complete (concat bodies))
      \<and> ra_incomplete (snd (push_at ra' (last ?ps))) = None"
  proof (rule gather_delivers [OF ok none, of _ _ ident])
    have "fragment_of ident bodies (snd q) \<and> unat (fst q) < unat (hd stamps) + 10000" if "q \<in> set ?ps" for q
      using stamped_piece_in_time [OF that len n(2) _ life(1)] mono by simp
    then show "\<forall>q \<in> set (butlast ?ps @ [last ?ps]). fragment_of ident bodies (snd q) \<and> unat (fst q) < unat (fst (hd (butlast ?ps @ [last ?ps]))) + 10000"
      unfolding split [symmetric] hd by blast
    show "sorted (ra_last_observed_ms ra # map fst (butlast ?ps @ [last ?ps]))" unfolding split [symmetric] stamps by (rule mono)
    show "unat (fst (hd (butlast ?ps @ [last ?ps]))) + 10000 < 2 ^ 64" unfolding split [symmetric] hd by (rule life(2))
    show "numbers (butlast ?ps @ [last ?ps]) = {..<length bodies}" unfolding split [symmetric] using numbers [of ?n] len by simp
    show "numbers (butlast ?ps) \<noteq> {..<length bodies}"
      using numbers [of "?n - 1"] diff_less [OF zero_less_one n(1)] len by (auto simp: butlast_conv_take)
  qed
  then obtain outs ra' where run: "run_all push_at ra (butlast ?ps) = (Inr outs, ra')"
      "set outs \<subseteq> {ReassemblyOutcome.Pending, ReassemblyOutcome.Duplicate}"
      "fst (push_at ra' (last ?ps)) = Inr (Complete (concat bodies))" by blast
  have "peer_assemble X ra (butlast ?ps @ [last ?ps]) = Some i"
    unfolding peer_assemble_run [OF run(1,2)] using run(3) dec
    by (cases "last ?ps"; cases "push_at ra' (last ?ps)") auto
  then show ?thesis using split by metis
qed

section \<open>Properties\<close>

text \<open>C2: What the client sends arrives. When \<open>send_transport_instruction\<close> reports that an instruction was sent, the
  datagrams it put on the socket, arriving in order within the lifetime of an incomplete instruction at a peer that
  has the key and has so far accepted only earlier packets, pass the cipher, the direction check and the replay window,
  are put together and decompressed, and give exactly that instruction.\<close>

theorem transport_delivers:
  assumes "aead_correct (ext_aead X)" and "prost_lawful (ext_instruction_pb X)" and "zlib_lawful (ext_zlib X) holds"
    and "compress_to_vec_zlib (ext_zlib X) (pb_encode_to_vec (ext_instruction_pb X) i) 6 \<noteq> []"
    and "ti_protocol_version i = PROTOCOL_VERSION"
    and "send_transport_instruction X i now env d = (Inr Sent, d')"
    and "pr_key r = sd_key d" and "pr_direction r = ClientToServer"
    and "replay_inv (pr_replay r) accepted" and "\<forall>a \<in> accepted. \<forall>s. sd_send_sequence d = Some s \<longrightarrow> a < s"
    and "ra_incomplete ra = None" and "sorted (ra_last_observed_ms ra # stamps)"
    and "unat (last stamps) < unat (hd stamps) + 10000" and "unat (hd stamps) + 10000 < 2 ^ 64"
    and "sd_socket d' = sd_socket d @ datagrams" and "length stamps = length datagrams"
  shows "peer_receive X r ra (zip stamps datagrams) = Some i"
proof -
  obtain compressed ts ident ds ss where c: "encode_zlib (ext_zlib X) (ext_instruction_pb X) i = Inr compressed"
    and sock: "sd_socket d' = sd_socket d @ ds" and ss: "length ss = length (chunks MAX_FRAGMENT_BODY_BYTES compressed)" "sorted_wrt (<) ss"
    and car: "list_all2 (\<lambda>datagram (s, f). carries X (sd_key d) datagram s f) ds
       (zip ss (map (piece ts ident (length (chunks MAX_FRAGMENT_BODY_BYTES compressed))) (enumerate 0 (chunks MAX_FRAGMENT_BODY_BYTES compressed))))"
    and new: "\<forall>s \<in> set ss. \<exists>s0. sd_send_sequence d = Some s0 \<and> s0 \<le> s"
    by (rule send_transport_sent [OF assms(1,6)])
  let ?b = "chunks MAX_FRAGMENT_BODY_BYTES compressed"
  have ds: "datagrams = ds" using sock assms(15) by simp
  have comp: "compressed \<noteq> []" "length compressed \<le> MAX_COMPRESSED_INSTRUCTION_BYTES"
    using c assms(4) by (auto simp: encode_zlib_def Let_def not_less split: if_splits)
  have ok: "message_ok ?b"
    using comp by (auto simp: message_ok_def length_chunks chunks_step concat_chunks simp flip: length_concat)
  have len: "length stamps = length ?b" using list_all2_carried_length [OF car] ss(1) assms(16) ds by simp
  have newer: "a < s" if "a \<in> accepted" "s \<in> set ss" for a s using assms(10) new that by (blast intro: order.strict_trans2)
  have "peer_receive X r ra (zip stamps ds) = peer_assemble X ra (zip stamps (map snd (zip ss (map (piece ts ident (length ?b)) (enumerate 0 ?b)))))"
    by (rule peer_receive_carried [OF _ car, where accepted = accepted])
       (use assms(7-9,16) ds newer ss in \<open>auto dest: set_zip_leftD\<close>)
  also have "\<dots> = Some i"
    using pieces_assembled [OF ok assms(11) len assms(12-14)] decode_encode_zlib [OF assms(2,3) c assms(5)] ss(1)
    by (simp add: concat_chunks)
  finally show ?thesis using ds by simp
qed

lemma demo_sent:
  "\<exists>d'. send_transport_instruction demo_externals demo_instruction 3 (\<lambda>_. (False, Inr 80)) demo_driver = (Inr Sent, d')
     \<and> length (sd_socket d') = 1 \<and> sd_socket demo_driver = []"
proof -
  define c where "c = pb_encode_to_vec demo_prost demo_instruction"
  have c: "length c = 42" by (simp add: c_def demo_prost_def demo_instruction_def)
  have enc: "encode_zlib demo_zlib demo_prost demo_instruction = Inr c"
    using c by (simp add: encode_zlib_def c_def demo_prost_def demo_zlib_def Let_def)
  have chunks: "chunks 1400 c = [c]" using c by (subst chunks_step) (auto simp: chunks_Nil)
  define ts where "ts = \<lparr> ot_timestamp = wire_milliseconds 3, ot_timestamp_reply = None \<rparr>"
  have out: "outgoing (sd_datagram_timing demo_driver) 3 = (Inr ts, (DatagramTiming_new 0)\<lparr> dt_last_observed_ms := 3 \<rparr>)"
    by (simp add: outgoing_def dt_observe_time_def demo_driver_def DatagramTiming_new_def ts_def)
  let ?f = "piece ts 0 1 (0, c)"
  have frag: "fragment_encode (ot_timestamp ts) (ot_timestamp_reply ts) 0 0 True c (replicate 2048 0)
      = (Inr 56, fragment_image ?f @ drop 56 (replicate 2048 0))"
    using fragment_encode_ok_iff [of ?f "replicate 2048 0" 56] c by (simp add: piece_def)
  have "\<exists>dg. packet_seal demo_aead k ClientToServer 0 (take 56 (fragment_image ?f @ drop 56 (replicate 2048 0))) (replicate 2048 0) = (Inr 80, dg)" for k
    using c by (simp add: packet_seal_def crypto_seal_def demo_aead_def piece_def Let_def)
  then obtain dg where seal: "packet_seal demo_aead (sd_key demo_driver) ClientToServer 0
      (take 56 (fragment_image ?f @ drop 56 (replicate 2048 0))) (replicate 2048 0) = (Inr 80, dg)" by blast
  have seq: "sd_send_sequence demo_driver = Some 0" "sd_fragment_identifier demo_driver = Some 0" "sd_socket demo_driver = []"
    by (simp_all add: demo_driver_def SendSequence_new_def)
  show ?thesis
    using frag seal c seq enc chunks out
    by (simp add: send_transport_instruction_def demo_externals_def part_def identifier_take_def send_sequence_take_def Let_def)
qed

theorem transport_delivers_witness:
  "\<exists>d' datagram. send_transport_instruction demo_externals demo_instruction 3 (\<lambda>_. (False, Inr 80)) demo_driver = (Inr Sent, d')
     \<and> sd_socket d' = [datagram]
     \<and> peer_receive demo_externals (PacketReceiver_new (sd_key demo_driver) ClientToServer) (FragmentReassembler_new 0) (zip [5] [datagram])
         = Some demo_instruction"
proof -
  obtain d' datagram where sent: "send_transport_instruction demo_externals demo_instruction 3 (\<lambda>_. (False, Inr 80)) demo_driver = (Inr Sent, d')"
      "sd_socket d' = sd_socket demo_driver @ [datagram]" "sd_socket demo_driver = []"
    using demo_sent by (auto simp: length_Suc_conv)
  have ne: "compress_to_vec_zlib (ext_zlib demo_externals) (pb_encode_to_vec (ext_instruction_pb demo_externals) demo_instruction) 6 \<noteq> []"
    by (simp add: demo_externals_def demo_zlib_def demo_prost_def demo_instruction_def)
  have "peer_receive demo_externals (PacketReceiver_new (sd_key demo_driver) ClientToServer) (FragmentReassembler_new 0) (zip [5] [datagram])
      = Some demo_instruction"
    by (rule transport_delivers [where accepted = "{}" and holds = "\<lambda>s input output. input = output" and d = demo_driver, OF _ _ _ ne _ sent(1)])
       (simp_all add: sent demo_externals_def demo_aead_correct demo_prost_lawful demo_zlib_lawful PacketReceiver_new_def FragmentReassembler_new_def
         demo_instruction_def replay_inv_default)
  with sent show ?thesis by auto
qed

end
