(* ===== verification/Session.thy ===== *)
theory Session
  imports Driver_Loop
begin

text \<open>
  The interface of the application, \<open>src/session.rs\<close>: the handle with its bounded command queue, the requests to close
  and to cancel, and the task. The application runs beside the task, so its calls are interleaved with the looks of a
  poll. Shown here: commands are handled in the order in which they were accepted, and a close begins after every
  command accepted before the poll that sees the request; one accepted during that poll can be overtaken.
\<close>

section \<open>The handle\<close>

datatype SessionCommandError = Closed | InputTooLarge | InvalidTerminalSize

text \<open>The channels between the handle and the task: the queue of commands and whether its receiver is alive, the two
  watched requests, the output and whether its sender is alive, and the state the task publishes, with whether it changed
  since it was last looked at and whether its senders are alive.\<close>

record Session =
  se_commands :: "SessionCommand list"
  se_receiver_alive :: bool
  se_cancellation :: bool
  se_graceful_close :: bool
  se_close_requested :: bool
  se_output :: "bytes list"
  se_output_alive :: bool
  se_state :: SessionState
  se_state_unseen :: bool
  se_state_alive :: bool

definition Session_new :: Session
  where "Session_new =
    \<lparr> se_commands = [], se_receiver_alive = True, se_cancellation = False, se_graceful_close = False,
      se_close_requested = False, se_output = [], se_output_alive = True,
      se_state = Connecting, se_state_unseen = False, se_state_alive = True \<rparr>"

definition connect_with_prediction_mode ::
    "('s, 'p) externals \<Rightarrow> ErrorKind option \<Rightarrow> Bootstrap \<Rightarrow> u32 \<Rightarrow> u32 \<Rightarrow> PredictionMode \<Rightarrow> SessionError + (Session \<times> SessionDriver)"
  where "connect_with_prediction_mode X bound bootstrap columns rows prediction_mode =
    (case driver_connect X bound bootstrap columns rows prediction_mode of
       Inl e \<Rightarrow> Inl (session_error e)
     | Inr driver \<Rightarrow> Inr (Session_new, driver))"

definition connect :: "('s, 'p) externals \<Rightarrow> ErrorKind option \<Rightarrow> Bootstrap \<Rightarrow> u32 \<Rightarrow> u32 \<Rightarrow> SessionError + (Session \<times> SessionDriver)"
  where "connect X bound bootstrap columns rows = connect_with_prediction_mode X bound bootstrap columns rows Adaptive"

definition session_state :: "Session \<Rightarrow> SessionState"
  where "session_state s = (if \<not> se_state_alive s then SessionState.Closed else se_state s)"

text \<open>The calls that wait are \<open>None\<close> as long as they do: for a change of the state, for output, for room in the queue.\<close>

definition state_changed :: "Session \<Rightarrow> (SessionState \<times> Session) option"
  where "state_changed s =
    (if se_state_unseen s then Some (se_state s, s\<lparr> se_state_unseen := False \<rparr>)
     else if \<not> se_state_alive s then Some (SessionState.Closed, s)
     else None)"

definition next_output :: "Session \<Rightarrow> (bytes option \<times> Session) option"
  where "next_output s =
    (case se_output s of
       chunk # rest \<Rightarrow> Some (Some chunk, s\<lparr> se_output := rest \<rparr>)
     | [] \<Rightarrow> if se_output_alive s then None else Some (None, s))"

definition send_command :: "SessionCommand \<Rightarrow> Session \<Rightarrow> (SessionCommandError, unit, Session) outcome option"
  where "send_command command s =
    (if \<not> se_receiver_alive s then Some (Inl Closed, s)
     else if length (se_commands s) \<ge> SESSION_COMMAND_QUEUE_CAPACITY then None
     else if se_close_requested s \<or> se_cancellation s \<or> session_state s = SessionState.Closed then Some (Inl Closed, s)
     else Some (Inr (), s\<lparr> se_commands := se_commands s @ [command] \<rparr>))"

definition send_input :: "bytes \<Rightarrow> Session \<Rightarrow> (SessionCommandError, unit, Session) outcome option"
  where "send_input input s =
    (if length input > MAX_INPUT_COMMAND_BYTES then Some (Inl InputTooLarge, s) else send_command (SessionCommand.Input input) s)"

definition session_resize :: "u32 \<Rightarrow> u32 \<Rightarrow> Session \<Rightarrow> (SessionCommandError, unit, Session) outcome option"
  where "session_resize columns rows s =
    (if \<not> is_valid_size columns rows then Some (Inl InvalidTerminalSize, s) else send_command (SessionCommand.Resize columns rows) s)"

definition request_repaint :: "Session \<Rightarrow> (SessionCommandError, unit, Session) outcome option"
  where "request_repaint s = send_command Repaint s"

definition session_close :: "Session \<Rightarrow> Session"
  where "session_close s = (if \<not> se_close_requested s then s\<lparr> se_close_requested := True, se_graceful_close := True \<rparr> else s)"

definition session_cancel :: "Session \<Rightarrow> Session"
  where "session_cancel s = s\<lparr> se_cancellation := True \<rparr>"

section \<open>The task\<close>

datatype task_result = Running | Panicking | Finished "SessionError + SessionExit"

definition task_run :: "('s, 'p) externals \<Rightarrow> pass list \<Rightarrow> SessionDriver \<Rightarrow> Session \<Rightarrow> task_result \<times> Session"
  where "task_run X ps d s =
    (case fst (driver_run X Serving ps d) of
       Inl (Raised e) \<Rightarrow> (Finished (Inl (session_error e)), s\<lparr> se_state := SessionState.Closed, se_state_unseen := True \<rparr>)
     | Inl Panicked \<Rightarrow> (Panicking, s)
     | Inr (Exit exit) \<Rightarrow> (Finished (Inr exit), s\<lparr> se_state := SessionState.Closed, se_state_unseen := True \<rparr>)
     | Inr _ \<Rightarrow> (Running, s))"

section \<open>Waiting on the handle\<close>

text \<open>A poll of the task does not look at everything at once: it looks at the queue first and, when that is empty, at the
  request to close, and the application may use the handle in between. \<open>channels_between s s' r\<close> is what such a poll
  finds, with the handle in state \<open>s\<close> at the first look and in state \<open>s'\<close> at the second. The rest of the readiness is
  up to the outside.\<close>

definition channels_between :: "Session \<Rightarrow> Session \<Rightarrow> readiness \<Rightarrow> readiness"
  where "channels_between s s' r =
    r\<lparr> rd_cancellation := (if se_cancellation s then Some True else None),
       rd_command := (case se_commands s of [] \<Rightarrow> None | command # _ \<Rightarrow> Some (Some command)),
       rd_graceful_close := (if se_graceful_close s' then Some True else None) \<rparr>"

text \<open>What happens, in order: a command is accepted, the task finds the queue empty in a poll, it handles a command, it
  begins the close.\<close>

datatype session_event = Accepted SessionCommand | FoundEmpty | Handled SessionCommand | CloseBegun

fun accepted :: "session_event list \<Rightarrow> SessionCommand list"
  where
    "accepted [] = []"
  | "accepted (Accepted c # es) = c # accepted es"
  | "accepted (_ # es) = accepted es"

fun handled :: "session_event list \<Rightarrow> SessionCommand list"
  where
    "handled [] = []"
  | "handled (Handled c # es) = c # handled es"
  | "handled (_ # es) = handled es"

text \<open>Calls of the application and steps of the task, in any order. The indices are the state of the handle, the events so
  far, and, while a poll is between its two looks, the state of the handle at the first. The calls of the application
  are possible at any time.\<close>

inductive session_reachable :: "Session \<Rightarrow> session_event list \<Rightarrow> Session option \<Rightarrow> bool"
  where
    start: "session_reachable Session_new [] None"
  | input: "session_reachable s es looked \<Longrightarrow> send_input input s = Some (Inr (), s') \<Longrightarrow>
      session_reachable s' (es @ [Accepted (SessionCommand.Input input)]) looked"
  | resize: "session_reachable s es looked \<Longrightarrow> session_resize columns rows s = Some (Inr (), s') \<Longrightarrow>
      session_reachable s' (es @ [Accepted (SessionCommand.Resize columns rows)]) looked"
  | repaint: "session_reachable s es looked \<Longrightarrow> request_repaint s = Some (Inr (), s') \<Longrightarrow>
      session_reachable s' (es @ [Accepted Repaint]) looked"
  | close: "session_reachable s es looked \<Longrightarrow> session_reachable (session_close s) es looked"
  | cancel: "session_reachable s es looked \<Longrightarrow> session_reachable (session_cancel s) es looked"
  | seen: "session_reachable s es looked \<Longrightarrow> state_changed s = Some (st, s') \<Longrightarrow> session_reachable s' es looked"
  | output_read: "session_reachable s es looked \<Longrightarrow> next_output s = Some (chunk, s') \<Longrightarrow> session_reachable s' es looked"
  | command: "session_reachable s es None \<Longrightarrow>
      wait_poll (CloseBegun \<notin> set es) needs_output enabled (channels_between s s r) = Some (Command c) \<Longrightarrow>
      session_reachable (s\<lparr> se_commands := tl (se_commands s) \<rparr>) (es @ [Handled c]) None"
  | found_empty: "session_reachable s es None \<Longrightarrow> se_commands s = [] \<Longrightarrow> session_reachable s (es @ [FoundEmpty]) (Some s)"
  | graceful: "session_reachable s' es (Some s) \<Longrightarrow> CloseBegun \<notin> set es \<Longrightarrow>
      wait_poll True needs_output enabled (channels_between s s' r) = Some GracefulClose \<Longrightarrow>
      session_reachable s' (es @ [CloseBegun]) None"
  | poll_over: "session_reachable s es (Some s0) \<Longrightarrow> session_reachable s es None"
  | published: "session_reachable s es looked \<Longrightarrow> session_reachable (s\<lparr> se_state := st, se_state_unseen := True \<rparr>) es looked"
  | output_written: "session_reachable s es looked \<Longrightarrow> session_reachable (s\<lparr> se_output := se_output s @ [chunk] \<rparr>) es looked"

lemma events_append [simp]:
  "accepted (es @ es') = accepted es @ accepted es'" "handled (es @ es') = handled es @ handled es'"
  by (induction es rule: accepted.induct) simp_all

lemma send_command_accepts:
  assumes "send_command c s = Some (Inr (), s')"
  shows "s' = s\<lparr> se_commands := se_commands s @ [c] \<rparr>" and "length (se_commands s) < SESSION_COMMAND_QUEUE_CAPACITY"
    and "\<not> se_close_requested s"
  using assms by (auto simp: send_command_def split: if_splits)

lemma call_accepts:
  "send_input input s = Some (Inr (), s') \<Longrightarrow> send_command (SessionCommand.Input input) s = Some (Inr (), s')"
  "session_resize columns rows s = Some (Inr (), s') \<Longrightarrow> send_command (SessionCommand.Resize columns rows) s = Some (Inr (), s')"
  "request_repaint s = Some (Inr (), s') \<Longrightarrow> send_command Repaint s = Some (Inr (), s')"
  by (auto simp: send_input_def session_resize_def request_repaint_def split: if_splits)

lemma wait_poll_channels:
  "wait_poll g n e (channels_between s s' r) = Some (Command c) \<Longrightarrow> \<exists>cs. se_commands s = c # cs"
  "wait_poll g n e (channels_between s s' r) = Some GracefulClose \<Longrightarrow> se_commands s = [] \<and> se_graceful_close s'"
  by (auto simp: wait_poll_def channels_between_def split: list.splits if_splits option.splits)

lemma wait_poll_queue_first:
  "\<not> se_cancellation s \<Longrightarrow> se_commands s = c # cs \<Longrightarrow> wait_poll g n e (channels_between s s' r) = Some (Command c)"
  by (simp add: wait_poll_def channels_between_def)

text \<open>The last poll of a history: everything accepted before its look at the queue was handled, and nothing since.\<close>

definition poll_open :: "session_event list \<Rightarrow> bool"
  where "poll_open es \<longleftrightarrow>
    (\<exists>before during. es = before @ FoundEmpty # during \<and> handled before = accepted before \<and> handled during = []
       \<and> FoundEmpty \<notin> set during)"

definition close_in_order :: "session_event list \<Rightarrow> bool"
  where "close_in_order es \<longleftrightarrow> (\<forall>up_to after. es = up_to @ CloseBegun # after \<longrightarrow> poll_open up_to \<and> accepted after = [])"

definition session_inv :: "Session \<Rightarrow> session_event list \<Rightarrow> Session option \<Rightarrow> bool"
  where "session_inv s es looked \<longleftrightarrow>
    handled es @ se_commands s = accepted es \<and> length (se_commands s) \<le> SESSION_COMMAND_QUEUE_CAPACITY
    \<and> se_graceful_close s = se_close_requested s \<and> (CloseBegun \<in> set es \<longrightarrow> se_close_requested s)
    \<and> (looked \<noteq> None \<longrightarrow> poll_open es) \<and> close_in_order es"

lemma poll_open_accepted: "poll_open es \<Longrightarrow> poll_open (es @ [Accepted c])"
  unfolding poll_open_def by (elim exE conjE) (rule exI, rule exI [where x = "_ @ [Accepted c]"], simp)

lemma close_in_order_snoc:
  assumes "close_in_order es" and "e \<noteq> CloseBegun" and "CloseBegun \<in> set es \<Longrightarrow> accepted [e] = []"
  shows "close_in_order (es @ [e])"
  unfolding close_in_order_def
proof (intro allI impI)
  fix up_to "after" assume eq: "es @ [e] = up_to @ CloseBegun # after"
  then obtain rest where rest: "after = rest @ [e]" using assms(2) by (cases "after" rule: rev_cases) auto
  with eq have es: "es = up_to @ CloseBegun # rest" by simp
  with assms(3) have "accepted [e] = []" by simp
  with assms(1) es show "poll_open up_to \<and> accepted after = []" by (simp add: close_in_order_def rest del: accepted.simps)
qed

lemma close_in_order_begun:
  "close_in_order es \<Longrightarrow> CloseBegun \<notin> set es \<Longrightarrow> poll_open es \<Longrightarrow> close_in_order (es @ [CloseBegun])"
  unfolding close_in_order_def by (auto simp: append_eq_append_conv2 Cons_eq_append_conv append_eq_Cons_conv)

lemma session_inv_accept:
  assumes "session_inv s es looked" and "send_command c s = Some (Inr (), s')"
  shows "session_inv s' (es @ [Accepted c]) looked"
  using send_command_accepts [OF assms(2)] assms(1)
  by (auto simp: session_inv_def poll_open_accepted intro: close_in_order_snoc)

lemma session_reachable_inv: "session_reachable s es looked \<Longrightarrow> session_inv s es looked"
proof (induction rule: session_reachable.induct)
  case start
  then show ?case by (simp add: session_inv_def Session_new_def close_in_order_def)
next
  case (command s es needs_output enabled r c)
  then show ?case
    using wait_poll_channels(1) [OF command.hyps(2)] close_in_order_snoc [of es "Handled c"] by (auto simp: session_inv_def)
next
  case (found_empty s es)
  then have "poll_open (es @ [FoundEmpty])" unfolding poll_open_def
    by (intro exI [of _ es] exI [of _ "[]"]) (simp add: session_inv_def)
  with found_empty show ?case using close_in_order_snoc [of es FoundEmpty] by (simp add: session_inv_def)
next
  case (graceful s' es s needs_output enabled r)
  then show ?case
    using wait_poll_channels(2) [OF graceful.hyps(3)] close_in_order_begun [of es] by (simp add: session_inv_def)
qed (auto simp: session_inv_accept call_accepts, auto simp: state_changed_def next_output_def session_inv_def session_close_def session_cancel_def
    split: if_splits list.splits)

text \<open>A close can overtake a command. A command that is accepted between the two looks of a poll, and a close requested
  right after it, are seen in the wrong order: the close begins while the command is still queued, although it was
  accepted before the call of \<open>close\<close>.\<close>

lemma close_can_overtake:
  "\<exists>s. session_reachable s [FoundEmpty, Accepted Repaint, CloseBegun] None \<and> se_commands s = [Repaint]"
proof -
  let ?r = "demo_timer\<lparr> rd_timer := False \<rparr>"
  let ?s = "Session_new\<lparr> se_commands := [Repaint] \<rparr>"
  have "session_reachable Session_new ([] @ [FoundEmpty]) (Some Session_new)"
    by (rule session_reachable.found_empty [OF session_reachable.start]) (simp add: Session_new_def)
  then have "session_reachable ?s (([] @ [FoundEmpty]) @ [Accepted Repaint]) (Some Session_new)"
    by (rule session_reachable.repaint) (simp add: request_repaint_def send_command_def Session_new_def session_state_def)
  note reached = session_reachable.close [OF this]
  have "session_reachable (session_close ?s) ((([] @ [FoundEmpty]) @ [Accepted Repaint]) @ [CloseBegun]) None"
    by (rule session_reachable.graceful [where r = ?r and needs_output = False and enabled = False, OF reached])
       (simp_all add: wait_poll_def channels_between_def session_close_def Session_new_def demo_timer_def)
  then show ?thesis by (intro exI [of _ "session_close ?s"]) (simp add: session_close_def Session_new_def)
qed

section \<open>Properties\<close>

text \<open>C7: Commands are handled in the order in which they were accepted, none twice and none left out, and at most 64
  wait; the queue comes before everything but a cancellation. A graceful close begins only after every command that
  was accepted before the poll which sees the request looked at the queue. Commands accepted later in that same poll,
  between its look at the queue and its look at the request, are not covered, although the documentation of \<open>close\<close>
  promises it for all commands accepted before the call (see \<open>close_can_overtake\<close>): they are still queued when the close
  begins. Once it has begun no command is accepted any more: a call waits for room in a full queue or is refused with
  \<open>Closed\<close>.\<close>

theorem close_after_commands:
  assumes "session_reachable s es looked"
  shows "handled es @ se_commands s = accepted es \<and> length (se_commands s) \<le> SESSION_COMMAND_QUEUE_CAPACITY
    \<and> (\<forall>first rest. \<not> se_cancellation s \<and> se_commands s = first # rest \<longrightarrow>
         wait_poll graceful needs_output enabled (channels_between s s' r) = Some (Command first))
    \<and> (\<forall>up_to after. es = up_to @ CloseBegun # after \<longrightarrow>
         (\<exists>before during. up_to = before @ FoundEmpty # during \<and> handled before = accepted before
            \<and> handled during = [] \<and> FoundEmpty \<notin> set during)
         \<and> accepted after = []
         \<and> send_command c s =
             (if se_receiver_alive s \<and> length (se_commands s) = SESSION_COMMAND_QUEUE_CAPACITY then None else Some (Inl Closed, s)))"
proof -
  have inv: "session_inv s es looked" by (rule session_reachable_inv [OF assms])
  have "send_command c s =
      (if se_receiver_alive s \<and> length (se_commands s) = SESSION_COMMAND_QUEUE_CAPACITY then None else Some (Inl Closed, s))"
    if "CloseBegun \<in> set es"
    using inv that by (auto simp: session_inv_def send_command_def)
  moreover have "poll_open up_to \<and> accepted after = []" if "es = up_to @ CloseBegun # after" for up_to "after"
    using inv that by (simp add: session_inv_def close_in_order_def)
  ultimately show ?thesis
    using inv wait_poll_queue_first by (auto simp: session_inv_def poll_open_def)
qed

theorem close_after_commands_witness:
  "\<exists>s. session_reachable s [Accepted Repaint, Handled Repaint, FoundEmpty, CloseBegun] None
     \<and> se_commands s = [] \<and> send_command Repaint s = Some (Inl Closed, s)"
proof -
  let ?r = "demo_timer\<lparr> rd_timer := False \<rparr>"
  let ?s = "session_close (Session_new\<lparr> se_commands := [Repaint] \<rparr>)"
  let ?t = "?s\<lparr> se_commands := tl (se_commands ?s) \<rparr>"
  have "session_reachable ?s ([] @ [Accepted Repaint]) None"
    by (intro session_reachable.close session_reachable.repaint [OF session_reachable.start])
       (simp add: request_repaint_def send_command_def Session_new_def session_state_def)
  then have "session_reachable ?t (([] @ [Accepted Repaint]) @ [Handled Repaint]) None"
    by (intro session_reachable.command [where r = ?r and needs_output = False and enabled = False])
       (simp_all add: wait_poll_def channels_between_def session_close_def Session_new_def)
  then have "session_reachable ?t ((([] @ [Accepted Repaint]) @ [Handled Repaint]) @ [FoundEmpty]) (Some ?t)"
    by (rule session_reachable.found_empty) (simp add: session_close_def Session_new_def)
  then have t: "session_reachable ?t (((([] @ [Accepted Repaint]) @ [Handled Repaint]) @ [FoundEmpty]) @ [CloseBegun]) None"
    by (rule session_reachable.graceful [where r = ?r and needs_output = False and enabled = False])
       (simp_all add: wait_poll_def channels_between_def session_close_def Session_new_def)
  from close_after_commands [OF t, of True False False ?t ?r Repaint, THEN conjunct2, THEN conjunct2, THEN conjunct2, rule_format,
      of "[Accepted Repaint, Handled Repaint, FoundEmpty]" "[]"]
  have "send_command Repaint ?t = Some (Inl Closed, ?t)" by (simp add: session_close_def Session_new_def)
  with t show ?thesis by (intro exI [of _ ?t]) (simp add: session_close_def Session_new_def)
qed

end
