(* ===== verification/Spec2Isabelle.thy ===== *)
theory Spec2Isabelle
  imports Packet Fragment Instruction Synchronization Timing Reachability Bootstrap Terminal_Difference
    Driver_Error Client_History Prediction Transport Session
begin

text \<open>
  A verification library for \<open>mosh-client-rs\<close>, a client of the mobile shell protocol. The client keeps two streams
  of numbered states in step with a server over UDP: the input of the user, which the server has to receive, and the
  screen of the remote terminal, which the client has to show. Paths below are relative to \<open>src/src\<close> of the
  repository.

  \<^bold>\<open>The program and its theories\<close>, from the wire to the application:

  \<^item> \<open>Limits\<close>: the constants of \<open>limits.rs\<close>.

  \<^item> \<open>Packet\<close>: \<open>crypto.rs\<close> and \<open>packet.rs\<close>. \<open>packet_seal\<close> and \<open>packet_open\<close> are the codec, \<open>replay_accept\<close> the
    64-bit replay window, \<open>send_sequence_take\<close> the counter behind the nonces, \<open>receiver_open_from\<close> the receiver.
    Shown: opening undoes sealing; the window refines the filter that remembers every number; nonces never repeat.

  \<^item> \<open>Fragment\<close>: \<open>fragment.rs\<close>. The header codec is a bijection; the reassembler keeps within its limits, delivers a
    message exactly when its last missing fragment arrives, in whatever order, and expires after ten seconds; what it
    assembles from pieces of known messages is one of these messages (\<open>push_from\<close>).

  \<^item> \<open>Instruction\<close>: \<open>instruction.rs\<close>. Encoding and decoding of the instructions of the transport and of the client's
    differences; decoding always returns and gives back what was encoded.

  \<^item> \<open>Synchronization\<close>: \<open>synchronization.rs\<close>. Sender and receiver of numbered states with plans that are made and
    committed later. Shown: the invariant of the two sides over every sequence of operations, what a committed plan
    does exactly, and that acknowledgements only move forward.

  \<^item> \<open>Timing\<close>: \<open>timing.rs\<close>. The RTT estimator against the published recurrences, the 16-bit timestamps, the scheduler
    and the exactness of its wake-up times. \<open>Reachability\<close>: \<open>session/reachability.rs\<close>.

  \<^item> \<open>Bootstrap\<close>: \<open>bootstrap.rs\<close> and \<open>error.rs\<close>, the parser of the server's first output.

  \<^item> \<open>Escape\<close>, \<open>Attributes\<close>, \<open>Cell\<close>, \<open>Row\<close>, \<open>Grid\<close>, \<open>Screen\<close>, \<open>Perform\<close> and \<open>Paint\<close>: the terminal emulator under
    \<open>vt100\<close> and \<open>terminal_width.rs\<close>, with \<open>Utf8\<close> for the text functions of the standard library. Each has an
    invariant (\<open>cell_ok\<close>, \<open>row_ok\<close>, \<open>grid_ok\<close>, \<open>screen_ok\<close>) that every operation keeps; no sequence of control
    functions and no repaint panics on a screen of at least two rows and columns, and the escape codes of the painter
    are read back by the SGR handler.

  \<^item> \<open>Terminal_Difference\<close>, \<open>Terminal_State\<close> and \<open>Visible_Cells\<close>: \<open>terminal/mod.rs\<close>, \<open>terminal/state.rs\<close> and
    \<open>terminal/paint.rs\<close>. Decoding a difference of the server, applying it, validating the result, painting it. Applying
    does not panic on a screen of at least two rows and columns if no resize leaves fewer than two rows or fewer
    columns; where the code does panic is shown as well, for all screens (\<open>small_terminals_panic\<close>).

  \<^item> \<open>Prediction\<close>: \<open>prediction.rs\<close>. The screen shown is the last state of the server, or that state with the typed
    characters the server has not answered yet; on well-formed states prediction never fails.

  \<^item> \<open>Client_History\<close>: \<open>session/client_history.rs\<close>, a refinement of the log of all operations of the user.

  \<^item> \<open>Driver\<close>: \<open>session/driver.rs\<close>. The record \<open>SessionDriver\<close> has a field for each field of the source; the socket
    and the output channel are the lists of what was written to them. Every method is a definition of the same name
    (\<open>handle_command\<close>, \<open>send_instruction\<close>, \<open>send_transport_instruction\<close>, \<open>decode_datagram\<close>,
    \<open>handle_normal_instruction\<close>, \<open>emit_output\<close> and so on), composed with \<open>and_then\<close> as the source composes with the
    question mark. \<open>Driver_Error\<close> has the errors.

  \<^item> \<open>Driver_Invariant\<close> and \<open>Driver_Receive\<close>: the invariant \<open>driver_ok\<close>. The terminal states are those of the
    reference states of the synchronization, and there is a checkpoint of the client history for every state that may
    be built on. Every operation keeps it (the judgement \<open>drives\<close>), so the errors that stand for broken bookkeeping
    never occur. The invariant has an optional \<open>server\<close>: with one, nothing panics either.

  \<^item> \<open>Driver_Loop\<close>: \<open>run\<close>, \<open>run_local_shutdown\<close>, \<open>finish_graceful_close\<close> and \<open>wait_next\<close>. The two loops are the phases
    \<open>Serving\<close> and \<open>Closing\<close> of one machine; \<open>session_pass\<close> is one turn of a loop and \<open>driver_run\<close> a sequence of turns.
    Shown: the invariant over every sequence of turns, timers that lie ahead, and the end of a local close.

  \<^item> \<open>Transport\<close>: the sending half of the driver against a receiving peer made of the same components.

  \<^item> \<open>Session\<close>: \<open>session.rs\<close>. The handle over explicit channels, with the calls of the application interleaved with the
    steps of the task; the order of commands and close, and the race in which a close overtakes a command.

  \<open>Mosh_Prelude\<close> holds the vocabulary that all share: words for the integer types, \<open>outcome\<close> and \<open>and_then\<close> for methods
  that may fail and change their object, bytes in network order, slices. \<open>Ordered_Map\<close> is Rust's \<open>BTreeMap\<close>.
  \<open>Contracts\<close> has the interfaces that several components implement: sources of tickets, clocks that do not go back,
  plans that are committed at most once. Each is a locale, interpreted where the component is defined.

  \<^bold>\<open>Conventions.\<close> A panic is \<open>None\<close> below the driver and the fault \<open>Panicked\<close> in it; an error is \<open>Inl\<close>. Integers have
  the width of the source where the code does arithmetic on untrusted values, with checked, saturating and wrapping
  operations as in the source; \<open>usize\<close> and the \<open>u16\<close> positions of the emulator, which are bounded by the terminal size,
  are natural numbers, the latter with the wrap-around at 16 bits written out (\<open>add16\<close>, \<open>sub16\<close>). Overflow wraps, as in
  a release build; that a debug build would panic there is not modelled, so the absence of panics is claimed of release
  builds. No definition needs fuel: the loops recurse on lists or on a measure that is proved to decrease,
  and the endless loops of the driver are one turn at a time.

  \<^bold>\<open>The outside\<close> is a parameter with named hypotheses. The cipher (\<open>aead_correct\<close>), the protobuf and zlib codecs
  (\<open>prost_lawful\<close>, \<open>zlib_lawful\<close>, \<open>inflate_bounded\<close>, \<open>repeated_additive\<close>), the Base64 engine, the width table
  (\<open>widths_ok\<close>), the byte parser of \<open>vte\<close> (\<open>vte_ok\<close>, \<open>vte_prints\<close>) and \<open>itoa\<close> are third-party code. The runtime
  appears as the record \<open>pass\<close>: readings of the clock, results of sends, answers of polls. \<open>externals_ok\<close> collects what
  the driver relies on of this code. Nothing is asked of the server for the bookkeeping of the driver. That nothing
  panics is shown for a server (the record \<open>server\<close>) whose messages keep the width of the terminal (\<open>keeps_width\<close>), because
  the emulator panics when a shrinking resize cuts a wide character; the datagrams that arrive and open under the key are
  pieces of these messages (\<open>genuine\<close>, \<open>heard\<close>). These are conditions on what is sent in the session, not on the decoders.

  \<^bold>\<open>Not modelled\<close>: \<open>fuzzing.rs\<close>, \<open>lib.rs\<close> and \<open>test_support.rs\<close>, which hold wrappers, re-exports and helpers of
  tests; \<open>Debug\<close> and \<open>Display\<close> output; the zeroing of keys when they are dropped; the accessors of the emulator that the
  client never calls; the scheduling of the asynchronous runtime beyond the answers of its polls; the tests that the
  source files contain.
\<close>

end
